(* ===== verification/Sol_Prelude.thy ===== *)
theory Sol_Prelude
  imports Main "HOL-Library.Word"
begin

unbundle bit_operations_syntax

text \<open>
  Shared vocabulary of the development: the machine types the C sources use, the result type of
  code that can leave the defined behaviour of C, and the memory blocks that
  \<^verbatim>\<open>malloc\<close> hands out.

  \<^item> \<^verbatim>\<open>uint8_t\<close>, \<^verbatim>\<open>uint16_t\<close>, \<^verbatim>\<open>uint32_t\<close>, \<^verbatim>\<open>size_t\<close> are words of 8, 16, 32 and 64 bits (the
    LP64 target the build files describe); \<^verbatim>\<open>int\<close> is \<open>int\<close> with the range check written out
    where it can overflow.
  \<^item> a C function that may read or write outside an object, call through a null pointer, overflow
    a signed integer or hit an \<^verbatim>\<open>assert\<close> returns \<open>fault + 'a\<close>: \<open>Inl\<close> is the undefined behaviour or
    the abort, \<open>Inr\<close> the value. \<open>Out_of_fuel\<close> alone is not behaviour of the code: a loop of the model was
    given too few steps.
  \<^item> a block obtained from \<^verbatim>\<open>malloc\<close> is a list of cells, \<open>None\<close> for a byte nobody has written yet.
\<close>

section \<open>Machine types\<close>

type_synonym u8 = "8 word"
type_synonym u16 = "16 word"
type_synonym u32 = "32 word"
type_synonym u64 = "64 word"

definition int_max :: int where "int_max = 2147483647"

definition in_int :: "int \<Rightarrow> bool" where
  "in_int i \<longleftrightarrow> - int_max - 1 \<le> i \<and> i \<le> int_max"

section \<open>Faults and results\<close>

datatype fault =
    Over_read | Over_write | Uninit_read | Null_deref | Null_call | Use_after_free
  | Signed_overflow | Index_range | Type_confusion | Assert_fail | Abort | Out_of_fuel

type_synonym 'a res = "fault + 'a"

named_theorems res_simps \<open>evaluation of results that may be faults\<close>

definition rbind :: "'a res \<Rightarrow> ('a \<Rightarrow> 'b res) \<Rightarrow> 'b res" where
  "rbind m f = (case m of Inl e \<Rightarrow> Inl e | Inr x \<Rightarrow> f x)"

lemma rbind_Inl [simp, res_simps]: "rbind (Inl e) f = Inl e"
  by (simp add: rbind_def)

lemma rbind_Inr [simp, res_simps]: "rbind (Inr x) f = f x"
  by (simp add: rbind_def)

lemma rbind_eq_Inr [simp]: "rbind m f = Inr y \<longleftrightarrow> (\<exists>x. m = Inr x \<and> f x = Inr y)"
  by (cases m) auto

lemma rbind_assoc: "rbind (rbind m f) g = rbind m (\<lambda>x. rbind (f x) g)"
  by (cases m) auto

lemma rbind_cong [fundef_cong]:
  "m = m' \<Longrightarrow> (\<And>x. m' = Inr x \<Longrightarrow> f x = g x) \<Longrightarrow> rbind m f = rbind m' g"
  by (cases m') auto

definition guard :: "bool \<Rightarrow> fault \<Rightarrow> unit res" where
  "guard b e = (if b then Inr () else Inl e)"

lemma guard_True [simp, res_simps]: "guard True e = Inr ()"
  by (simp add: guard_def)

lemma guard_False [simp, res_simps]: "guard False e = Inl e"
  by (simp add: guard_def)

lemma guard_eq_Inr [simp]: "guard b e = Inr x \<longleftrightarrow> b"
  by (simp add: guard_def)

section \<open>Blocks of memory\<close>

type_synonym block = "u8 option list"

text \<open>A C pointer to a block: \<open>None\<close> is the null pointer.\<close>

type_synonym ptr = "block option"

definition malloc :: "nat \<Rightarrow> block" where
  "malloc n = replicate n None"

lemma length_malloc [simp]: "length (malloc n) = n"
  by (simp add: malloc_def)

text \<open>The block that holds the C string \<open>s\<close>: its bytes and the terminating zero.\<close>

definition cstr :: "u8 list \<Rightarrow> block" where
  "cstr s = map Some s @ [Some 0]"

lemma length_cstr [simp]: "length (cstr s) = Suc (length s)"
  by (simp add: cstr_def)

text \<open>
  \<^verbatim>\<open>strlen\<close> walks to the first zero byte; a cell that was never written or the end of the block
  stops it with a fault.
\<close>

fun strlen :: "block \<Rightarrow> nat res" where
  "strlen [] = Inl Over_read"
| "strlen (None # cs) = Inl Uninit_read"
| "strlen (Some b # cs) = (if b = 0 then Inr 0 else rbind (strlen cs) (\<lambda>n. Inr (Suc n)))"

definition zero_free :: "u8 list \<Rightarrow> bool" where
  "zero_free s \<longleftrightarrow> 0 \<notin> set s"

lemma zero_free_simps [simp]:
  "zero_free []" "zero_free (b # s) \<longleftrightarrow> b \<noteq> 0 \<and> zero_free s"
  "zero_free (s @ t) \<longleftrightarrow> zero_free s \<and> zero_free t"
  by (auto simp: zero_free_def)

lemma strlen_prefix: "zero_free s \<Longrightarrow> strlen (map Some s @ Some 0 # t) = Inr (length s)"
  by (induction s) auto

lemma strlen_cstr [simp]: "zero_free s \<Longrightarrow> strlen (cstr s) = Inr (length s)"
  by (simp add: cstr_def strlen_prefix)

text \<open>The bytes of a block up to its length \<open>n\<close>, when all of them have been written.\<close>

definition read_cells :: "block \<Rightarrow> nat \<Rightarrow> u8 list res" where
  "read_cells b n = (if length b < n then Inl Over_read
     else if None \<in> set (take n b) then Inl Uninit_read
     else Inr (map the (take n b)))"

lemma read_cells_map_Some [simp]: "n \<le> length s \<Longrightarrow> read_cells (map Some s @ t) n = Inr (take n s)"
  by (auto simp: read_cells_def take_map)

lemma read_cells_cstr: "read_cells (cstr s) (length s) = Inr s"
  by (simp add: cstr_def)

section \<open>Lists\<close>

lemma take_drop_split: "n \<le> length xs \<Longrightarrow> xs = take n xs @ drop n xs"
  by simp

lemma list_update_append_here [simp]: "(xs @ y # ys)[length xs := z] = xs @ z # ys"
  by simp

lemma replicate_split: "k \<le> n \<Longrightarrow> replicate n x = replicate k x @ replicate (n - k) x"
  by (metis le_add_diff_inverse replicate_add)

text \<open>Repeating an operation that may run out of memory.\<close>

primrec fold_opt :: "('s \<Rightarrow> 'v \<Rightarrow> 's option) \<Rightarrow> 'v list \<Rightarrow> 's \<Rightarrow> 's option" where
  "fold_opt f [] s = Some s"
| "fold_opt f (v # vs) s = (case f s v of None \<Rightarrow> None | Some s' \<Rightarrow> fold_opt f vs s')"

section \<open>Words\<close>

lemma and_128_eq_0: "(x :: 'a::len word) AND 128 = 0 \<longleftrightarrow> \<not> bit x 7"
  using and_exp_eq_0_iff_not_bit [of x 7] by simp

lemma and_127_take_bit: "(x :: 'a::len word) AND 127 = take_bit 7 x"
  by (simp add: take_bit_eq_mask mask_eq_exp_minus_1)

lemma bit_128: "bit (128 :: 'a::semiring_bit_operations) n \<longleftrightarrow> possible_bit TYPE('a) n \<and> n = 7"
proof -
  have "(128::'a) = 2 ^ 7" by simp
  then show ?thesis by (simp only: bit_exp_iff)
qed

lemma mod_128_take_bit: "(len :: u64) mod 128 = take_bit 7 len"
  by (simp add: take_bit_eq_mod)

lemma word_div_pos: "0 < n \<Longrightarrow> (w :: 'a::len word) div n > 0 \<longleftrightarrow> n \<le> w"
proof -
  assume n: "0 < n"
  have "w div n > 0 \<longleftrightarrow> 0 < uint w div uint n"
    by (simp add: word_less_def uint_div)
  also have "\<dots> \<longleftrightarrow> uint n \<le> uint w"
    using n by (simp add: pos_imp_zdiv_pos_iff word_less_def)
  finally show ?thesis by (simp add: word_le_def)
qed

lemma unat_ucast_up: "LENGTH('a::len) \<le> LENGTH('b::len) \<Longrightarrow> unat (ucast (w :: 'a word) :: 'b word) = unat w"
proof -
  assume le: "LENGTH('a) \<le> LENGTH('b)"
  have "unat w < 2 ^ LENGTH('a)" by (rule unsigned_less)
  also have "(2::nat) ^ LENGTH('a) \<le> 2 ^ LENGTH('b)" using le by (intro power_increasing) auto
  finally show ?thesis by (simp add: unsigned_ucast_eq take_bit_nat_eq_self)
qed

lemma unat_of_nat_small: "n < 2 ^ LENGTH('a) \<Longrightarrow> unat (of_nat n :: 'a::len word) = n"
  by (simp add: unat_of_nat take_bit_nat_eq_self)

lemma ucast_of_nat_down:
  "LENGTH('b::len) \<le> LENGTH('a::len) \<Longrightarrow> ucast (of_nat n :: 'a word) = (of_nat n :: 'b word)"
  by (rule bit_word_eqI) (auto simp: bit_simps)

lemma ucast_of_nat_up: "n < 2 ^ LENGTH('a::len) \<Longrightarrow> ucast (of_nat n :: 'a word) = (of_nat n :: 'b::len word)"
  by (simp add: unsigned_of_nat take_bit_nat_eq_self)

lemma of_nat_word_pos: "0 < n \<Longrightarrow> n < 2 ^ LENGTH('a::len) \<Longrightarrow> (0 :: 'a word) < of_nat n"
  by (simp add: word_less_nat_alt unat_of_nat_small)

end
