(* ===== verification/Clist.thy ===== *)
theory Clist
  imports Sol_Prelude
begin

text \<open>
  \<^verbatim>\<open>src/sol/src/list.c\<close>: singly linked lists with a head, a tail and a length, modelled with their
  nodes in an explicit store, because what the code does to the \<^verbatim>\<open>next\<close>, \<^verbatim>\<open>head\<close> and \<^verbatim>\<open>tail\<close> pointers is
  the point.

  \<^item> a pointer to a node is \<open>addr option\<close>, \<open>None\<close> being null; the store maps the addresses of live
    nodes to their contents; dereferencing null or a freed node is a fault. \<open>hp_quota\<close> is how many more
    allocations succeed, so that \<^verbatim>\<open>malloc\<close> returning null is part of the model; \<open>hp_freed\<close> records the
    data pointers handed to \<^verbatim>\<open>free\<close>.
  \<^item> a walk along \<^verbatim>\<open>next\<close> need not end in a store with a cycle: the recursive functions are partial
    functions into \<open>option\<close>, and the lemmas show that they return on a chain of nodes.
  \<^item> the abstraction is \<open>chain h p as\<close>: from \<open>p\<close> the nodes \<open>as\<close> follow each other and the last points
    to null. \<open>list_rep\<close> adds the length and the tail pointer.
\<close>

section \<open>The store\<close>

type_synonym addr = nat

record 'a list_node =
  ln_data :: "'a option"
  ln_next :: "addr option"

record 'a heap =
  hp_cells :: "addr \<Rightarrow> 'a list_node option"
  hp_fresh :: addr
  hp_quota :: nat
  hp_freed :: "'a list"

definition alloc_node :: "'a list_node \<Rightarrow> 'a heap \<Rightarrow> (addr \<times> 'a heap) option" where
  "alloc_node n h = (if hp_quota h = 0 then None
     else Some (hp_fresh h, h\<lparr>hp_cells := (hp_cells h)(hp_fresh h := Some n),
                  hp_fresh := Suc (hp_fresh h), hp_quota := hp_quota h - 1\<rparr>))"

definition read_node :: "'a heap \<Rightarrow> addr option \<Rightarrow> 'a list_node res" where
  "read_node h p = (case p of None \<Rightarrow> Inl Null_deref
     | Some a \<Rightarrow> (case hp_cells h a of None \<Rightarrow> Inl Use_after_free | Some n \<Rightarrow> Inr n))"

definition write_node :: "'a heap \<Rightarrow> addr \<Rightarrow> 'a list_node \<Rightarrow> 'a heap" where
  "write_node h a n = h\<lparr>hp_cells := (hp_cells h)(a := Some n)\<rparr>"

definition set_next :: "'a heap \<Rightarrow> addr option \<Rightarrow> addr option \<Rightarrow> 'a heap res" where
  "set_next h p q = rbind (read_node h p) (\<lambda>n. Inr (write_node h (the p) (n\<lparr>ln_next := q\<rparr>)))"

definition free_node :: "'a heap \<Rightarrow> addr option \<Rightarrow> 'a heap res" where
  "free_node h p = (case p of None \<Rightarrow> Inr h
     | Some a \<Rightarrow> (if hp_cells h a = None then Inl Use_after_free
                 else Inr (h\<lparr>hp_cells := (hp_cells h)(a := None)\<rparr>)))"

definition free_data :: "'a heap \<Rightarrow> 'a option \<Rightarrow> 'a heap" where
  "free_data h d = (case d of None \<Rightarrow> h | Some x \<Rightarrow> h\<lparr>hp_freed := x # hp_freed h\<rparr>)"

section \<open>Lists\<close>

record 'a clist =
  cl_head :: "addr option"
  cl_tail :: "addr option"
  cl_len :: u64
  cl_destructor :: "('a heap \<Rightarrow> addr option \<Rightarrow> 'a heap res) option"

definition list_create :: "'a heap \<Rightarrow> ('a heap \<Rightarrow> addr option \<Rightarrow> 'a heap res) option
    \<Rightarrow> ('a heap \<times> 'a clist) option" where
  "list_create h d = (if hp_quota h = 0 then None
     else Some (h\<lparr>hp_quota := hp_quota h - 1\<rparr>,
       \<lparr>cl_head = None, cl_tail = None, cl_len = 0, cl_destructor = d\<rparr>))"

definition list_size :: "'a clist option \<Rightarrow> u64 res" where
  "list_size l = (case l of None \<Rightarrow> Inl Null_deref | Some l \<Rightarrow> Inr (cl_len l))"

text \<open>The loop of \<^verbatim>\<open>list_release\<close> and \<^verbatim>\<open>list_clear\<close>: \<open>n\<close> nodes are taken off, each freed.\<close>

fun release_loop :: "('a heap \<Rightarrow> addr option \<Rightarrow> 'a heap res) option \<Rightarrow> bool \<Rightarrow> nat \<Rightarrow> addr option
    \<Rightarrow> 'a heap \<Rightarrow> 'a heap res" where
  "release_loop d deep 0 p h = Inr h"
| "release_loop d deep (Suc n) p h =
     rbind (read_node h p) (\<lambda>nd.
     rbind (case d of Some f \<Rightarrow> f h p
            | None \<Rightarrow> free_node (if deep then free_data h (ln_data nd) else h) p) (\<lambda>h'.
     release_loop d deep n (ln_next nd) h'))"

definition list_release :: "'a heap \<Rightarrow> 'a clist option \<Rightarrow> int \<Rightarrow> 'a heap res" where
  "list_release h lp deep = (case lp of None \<Rightarrow> Inr h
     | Some l \<Rightarrow> release_loop (cl_destructor l) (deep = 1) (unat (cl_len l)) (cl_head l) h)"

definition list_clear :: "'a heap \<Rightarrow> 'a clist option \<Rightarrow> int \<Rightarrow> ('a heap \<times> 'a clist option) res" where
  "list_clear h lp deep = (case lp of None \<Rightarrow> Inr (h, None)
     | Some l \<Rightarrow>
       (if cl_head l = None then Inr (h, Some l)
        else rbind (release_loop None (deep = 1) (unat (cl_len l)) (cl_head l) h) (\<lambda>h'.
          Inr (h', Some (l\<lparr>cl_head := None, cl_tail := None, cl_len := 0\<rparr>)))))"

text \<open>\<open>None\<close> is the null pointer the function returns when \<^verbatim>\<open>malloc\<close> fails.\<close>

definition list_push :: "'a heap \<Rightarrow> 'a clist \<Rightarrow> 'a option \<Rightarrow> ('a heap \<times> 'a clist) option" where
  "list_push h l val =
     (case alloc_node \<lparr>ln_data = val, ln_next = (if cl_len l = 0 then None else cl_head l)\<rparr> h of
        None \<Rightarrow> None
      | Some (a, h') \<Rightarrow>
          Some (h', if cl_len l = 0
                then l\<lparr>cl_head := Some a, cl_tail := Some a, cl_len := cl_len l + 1\<rparr>
                else l\<lparr>cl_head := Some a, cl_len := cl_len l + 1\<rparr>))"

definition list_push_back :: "'a heap \<Rightarrow> 'a clist \<Rightarrow> 'a option \<Rightarrow> ('a heap \<times> 'a clist) option res" where
  "list_push_back h l val =
     (case alloc_node \<lparr>ln_data = val, ln_next = None\<rparr> h of
        None \<Rightarrow> Inr None
      | Some (a, h') \<Rightarrow>
          if cl_len l = 0
          then Inr (Some (h', l\<lparr>cl_head := Some a, cl_tail := Some a, cl_len := cl_len l + 1\<rparr>))
          else rbind (set_next h' (cl_tail l) (Some a)) (\<lambda>h''.
                 Inr (Some (h'', l\<lparr>cl_tail := Some a, cl_len := cl_len l + 1\<rparr>))))"

text \<open>
  \<open>cmp h a\<close> stands for \<^verbatim>\<open>cmp(head, node) == 0\<close> on the node at \<open>a\<close>, with the other argument
  of the comparison already applied. The result is the store, the new
  head and the number of nodes removed.
\<close>

partial_function (option) list_node_remove ::
  "('a heap \<Rightarrow> addr \<Rightarrow> bool) \<Rightarrow> 'a heap \<Rightarrow> addr option \<Rightarrow> nat
     \<Rightarrow> ('a heap \<times> addr option \<times> nat) res option" where
  "list_node_remove cmp h head counter =
     (case head of None \<Rightarrow> Some (Inr (h, None, counter))
      | Some a \<Rightarrow>
        (case read_node h head of Inl e \<Rightarrow> Some (Inl e)
         | Inr n \<Rightarrow>
           (if cmp h a
            then Some (rbind (free_node h head) (\<lambda>h'. Inr (h', ln_next n, counter + 1)))
            else Option.bind (list_node_remove cmp h (ln_next n) counter) (\<lambda>r.
                   Some (rbind r (\<lambda>(h', p, c). rbind (set_next h' head p) (\<lambda>h''.
                     Inr (h'', head, c))))))))"

definition list_remove :: "('b \<Rightarrow> 'a heap \<Rightarrow> addr \<Rightarrow> bool) \<Rightarrow> 'a heap \<Rightarrow> 'a clist option \<Rightarrow> 'b option
    \<Rightarrow> ('a heap \<times> 'a clist option) res option" where
  "list_remove cmp h lp node = (case (lp, node) of
       (Some l, Some nd) \<Rightarrow> Option.bind (list_node_remove (cmp nd) h (cl_head l) 0) (\<lambda>r.
          Some (rbind r (\<lambda>(h', p, c).
            Inr (h', Some (l\<lparr>cl_head := p, cl_len := cl_len l - of_nat c\<rparr>)))))
     | _ \<Rightarrow> Some (Inr (h, lp)))"

text \<open>\<^verbatim>\<open>*ret\<close> is threaded as \<open>ret\<close>.\<close>

partial_function (option) list_remove_single_node ::
  "('a heap \<Rightarrow> addr \<Rightarrow> bool) \<Rightarrow> 'a heap \<Rightarrow> addr option \<Rightarrow> addr option
     \<Rightarrow> ('a heap \<times> addr option \<times> addr option) res option" where
  "list_remove_single_node cmp h head ret =
     (case head of None \<Rightarrow> Some (Inr (h, None, ret))
      | Some a \<Rightarrow>
        (case read_node h head of Inl e \<Rightarrow> Some (Inl e)
         | Inr n \<Rightarrow>
           (if cmp h a \<and> ret = None then Some (Inr (h, ln_next n, head))
            else Option.bind (list_remove_single_node cmp h (ln_next n) ret) (\<lambda>r.
                   Some (rbind r (\<lambda>(h', p, ret'). rbind (set_next h' head p) (\<lambda>h''.
                     Inr (h'', head, ret'))))))))"

text \<open>The new head that \<^verbatim>\<open>list_remove_single_node\<close> returns is dropped, and the length is read before
  the null test of the list.\<close>

definition list_remove_node :: "('a heap \<Rightarrow> addr \<Rightarrow> bool) \<Rightarrow> 'a heap \<Rightarrow> 'a clist option
    \<Rightarrow> ('a heap \<times> 'a clist \<times> addr option) res option" where
  "list_remove_node cmp h lp = (case lp of None \<Rightarrow> Some (Inl Null_deref)
   | Some l \<Rightarrow>
     (if cl_len l = 0 then Some (Inr (h, l, None))
      else Option.bind (list_remove_single_node cmp h (cl_head l) None) (\<lambda>r.
        Some (rbind r (\<lambda>(h', _, node).
          (case node of None \<Rightarrow> Inr (h', l, None)
           | Some _ \<Rightarrow> rbind (set_next h' node None) (\<lambda>h''.
               Inr (h'', l\<lparr>cl_len := cl_len l - 1\<rparr>, node))))))))"

text \<open>
  \<^verbatim>\<open>bisect_list\<close>: the fast pointer takes two steps for one of the slow pointer; the list is cut
  before the slow pointer.
\<close>

partial_function (option) bisect_loop ::
  "'a heap \<Rightarrow> addr option \<Rightarrow> addr option \<Rightarrow> addr option \<Rightarrow> (addr option \<times> addr option) res option" where
  "bisect_loop h fast slow prev =
     (case fast of None \<Rightarrow> Some (Inr (slow, prev))
      | Some _ \<Rightarrow>
        (case read_node h fast of Inl e \<Rightarrow> Some (Inl e)
         | Inr n \<Rightarrow>
           (case ln_next n of None \<Rightarrow> Some (Inr (slow, prev))
            | Some _ \<Rightarrow>
              (case read_node h (ln_next n) of Inl e \<Rightarrow> Some (Inl e)
               | Inr n' \<Rightarrow>
                 (case read_node h slow of Inl e \<Rightarrow> Some (Inl e)
                  | Inr s \<Rightarrow> bisect_loop h (ln_next n') (ln_next s) slow)))))"

definition bisect_list :: "'a heap \<Rightarrow> addr option \<Rightarrow> ('a heap \<times> addr option) res option" where
  "bisect_list h head = Option.bind (bisect_loop h head head None) (\<lambda>r.
     Some (rbind r (\<lambda>(slow, prev).
       (case prev of None \<Rightarrow> Inr (h, slow)
        | Some _ \<Rightarrow> rbind (set_next h prev None) (\<lambda>h'. Inr (h', slow))))))"

text \<open>
  \<^verbatim>\<open>list_sort_insert\<close>: \<open>cmp h p\<close> is \<^verbatim>\<open>cmp_func(p, new)\<close>, an \<^verbatim>\<open>int\<close>.
\<close>

partial_function (option) sort_insert_loop ::
  "('a heap \<Rightarrow> addr \<Rightarrow> int) \<Rightarrow> 'a heap \<Rightarrow> addr option \<Rightarrow> (addr option) res option" where
  "sort_insert_loop cmp h cur =
     (case read_node h cur of Inl e \<Rightarrow> Some (Inl e)
      | Inr n \<Rightarrow>
        (case ln_next n of None \<Rightarrow> Some (Inr cur)
         | Some b \<Rightarrow> if cmp h b < 0 then sort_insert_loop cmp h (ln_next n) else Some (Inr cur)))"

definition list_sort_insert :: "('a heap \<Rightarrow> addr \<Rightarrow> int) \<Rightarrow> 'a heap \<Rightarrow> addr option \<Rightarrow> addr
    \<Rightarrow> ('a heap \<times> addr option) res option" where
  "list_sort_insert cmp h head new =
     (if head = None \<or> cmp h (the head) \<ge> 0
      then Some (rbind (set_next h (Some new) head) (\<lambda>h'. Inr (h', Some new)))
      else Option.bind (sort_insert_loop cmp h head) (\<lambda>r.
        Some (rbind r (\<lambda>cur. rbind (read_node h cur) (\<lambda>n.
          rbind (set_next h (Some new) (ln_next n)) (\<lambda>h'.
          rbind (set_next h' cur (Some new)) (\<lambda>h''. Inr (h'', head))))))))"

section \<open>Chains\<close>

fun chain :: "'a heap \<Rightarrow> addr option \<Rightarrow> addr list \<Rightarrow> bool" where
  "chain h p [] \<longleftrightarrow> p = None"
| "chain h p (a # as) \<longleftrightarrow> p = Some a
     \<and> (case hp_cells h a of None \<Rightarrow> False | Some n \<Rightarrow> chain h (ln_next n) as)"

definition data_of :: "'a heap \<Rightarrow> addr \<Rightarrow> 'a option" where
  "data_of h a = (case hp_cells h a of None \<Rightarrow> None | Some n \<Rightarrow> ln_data n)"

definition datas :: "'a heap \<Rightarrow> addr list \<Rightarrow> 'a option list" where
  "datas h as = map (data_of h) as"

definition heap_wf :: "'a heap \<Rightarrow> bool" where
  "heap_wf h \<longleftrightarrow> (\<forall>a \<ge> hp_fresh h. hp_cells h a = None)"

definition list_rep :: "'a heap \<Rightarrow> 'a clist \<Rightarrow> addr list \<Rightarrow> bool" where
  "list_rep h l as \<longleftrightarrow> chain h (cl_head l) as \<and> distinct as \<and> unat (cl_len l) = length as
     \<and> (as \<noteq> [] \<longrightarrow> cl_tail l = Some (last as))"

named_theorems heap_simps \<open>reading and writing nodes\<close>

lemma read_node_Some [simp, heap_simps]: "hp_cells h a = Some n \<Longrightarrow> read_node h (Some a) = Inr n"
  by (simp add: read_node_def)

lemma set_next_Some [simp, heap_simps]:
  "hp_cells h a = Some n \<Longrightarrow> set_next h (Some a) q = Inr (write_node h a (n\<lparr>ln_next := q\<rparr>))"
  by (simp add: set_next_def)

lemma cells_write_node [simp, heap_simps]: "hp_cells (write_node h a n) = (hp_cells h)(a := Some n)"
  by (simp add: write_node_def)

lemma data_of_write_next [simp]:
  "hp_cells h a = Some n \<Longrightarrow> data_of (write_node h a (n\<lparr>ln_next := q\<rparr>)) b = data_of h b"
  by (simp add: data_of_def)

lemma chain_frame: "\<forall>a \<in> set as. hp_cells h' a = hp_cells h a \<Longrightarrow> chain h' p as = chain h p as"
  by (induction as arbitrary: p) (auto split: option.splits)

lemma chain_Cons_obtain:
  assumes "chain h p (a # as)"
  obtains n where "p = Some a" "hp_cells h a = Some n" "chain h (ln_next n) as"
  using assms by (auto split: option.splits)

lemma chain_cells: "chain h p as \<Longrightarrow> a \<in> set as \<Longrightarrow> hp_cells h a \<noteq> None"
  by (induction as arbitrary: p) (auto split: option.splits)

lemma chain_fresh: "heap_wf h \<Longrightarrow> chain h p as \<Longrightarrow> hp_fresh h \<notin> set as"
  using chain_cells by (fastforce simp: heap_wf_def)

lemma chain_write_notin: "a \<notin> set as \<Longrightarrow> chain (write_node h a n) p as = chain h p as"
  by (rule chain_frame) auto

definition first_ptr :: "addr list \<Rightarrow> addr option" where
  "first_ptr as = (case as of [] \<Rightarrow> None | a # _ \<Rightarrow> Some a)"

lemma chain_first: "chain h p as \<Longrightarrow> p = first_ptr as"
  by (cases as) (simp_all add: first_ptr_def)

lemma chain_drop: "chain h p as \<Longrightarrow> chain h (first_ptr (drop k as)) (drop k as)"
proof (induction as arbitrary: p k)
  case Nil
  then show ?case by (simp add: first_ptr_def)
next
  case (Cons a as)
  then show ?case
    by (cases k) (auto simp: first_ptr_def split: option.splits)
qed

section \<open>Pushing\<close>

lemma alloc_node_Some:
  "alloc_node n h = Some (a, h') \<Longrightarrow> a = hp_fresh h \<and> hp_cells h' = (hp_cells h)(a := Some n)
     \<and> hp_fresh h' = Suc a"
  by (auto simp: alloc_node_def split: if_splits)

lemma alloc_node_wf: "heap_wf h \<Longrightarrow> alloc_node n h = Some (a, h') \<Longrightarrow> heap_wf h'"
  by (auto simp: heap_wf_def alloc_node_def split: if_splits)

lemma list_push_rep:
  assumes wf: "heap_wf h" and rep: "list_rep h l as" and q: "hp_quota h > 0"
    and len: "Suc (length as) < 2 ^ 64"
  shows "\<exists>h' l'. list_push h l v = Some (h', l') \<and> heap_wf h'
    \<and> list_rep h' l' (hp_fresh h # as)
    \<and> datas h' (hp_fresh h # as) = v # datas h as
    \<and> (\<forall>b. b \<noteq> hp_fresh h \<longrightarrow> hp_cells h' b = hp_cells h b)"
proof -
  define a where "a = hp_fresh h"
  define n where "n = \<lparr>ln_data = v, ln_next = (if cl_len l = 0 then None else cl_head l)\<rparr>"
  define l' where "l' = (if cl_len l = 0
    then l\<lparr>cl_head := Some a, cl_tail := Some a, cl_len := cl_len l + 1\<rparr>
    else l\<lparr>cl_head := Some a, cl_len := cl_len l + 1\<rparr>)"
  from q obtain h' where al: "alloc_node n h = Some (a, h')" and cells: "hp_cells h' = (hp_cells h)(a := Some n)"
    by (simp add: alloc_node_def a_def)
  have fresh: "a \<notin> set as"
    using wf rep chain_fresh by (auto simp: list_rep_def a_def)
  have empty: "cl_len l = 0 \<longleftrightarrow> as = []"
    using rep by (auto simp: list_rep_def unat_eq_0 [symmetric])
  have "chain h' (cl_head l) as"
    using rep fresh by (subst chain_frame [of as h' h]) (auto simp: cells list_rep_def)
  moreover have "unat (cl_len l + 1) = Suc (length as)"
    using rep len by (simp add: list_rep_def unat_word_ariths)
  ultimately have "list_rep h' l' (a # as)"
    using rep empty fresh by (auto simp: list_rep_def l'_def cells n_def)
  moreover have "datas h' (a # as) = v # datas h as"
    using fresh by (auto simp: datas_def data_of_def cells n_def)
  moreover have "list_push h l v = Some (h', l')"
    using al by (simp add: list_push_def n_def l'_def)
  moreover have "heap_wf h'" using wf al by (rule alloc_node_wf)
  ultimately show ?thesis by (auto simp: cells a_def)
qed

lemma list_push_fail: "hp_quota h = 0 \<Longrightarrow> list_push h l v = None"
  by (simp add: list_push_def alloc_node_def)

lemma chain_append_last:
  assumes "chain h p as" "as \<noteq> []" "distinct as" "b \<notin> set as"
    and "hp_cells h (last as) = Some n" "hp_cells h b = Some nb" "ln_next nb = None"
  shows "chain (write_node h (last as) (n\<lparr>ln_next := Some b\<rparr>)) p (as @ [b])"
  using assms
proof (induction as arbitrary: p)
  case Nil
  then show ?case by simp
next
  case (Cons a as)
  show ?case
  proof (cases "as = []")
    case True
    with Cons.prems show ?thesis by auto
  next
    case False
    from Cons.prems(1) obtain na where na: "p = Some a" "hp_cells h a = Some na" "chain h (ln_next na) as"
      by (rule chain_Cons_obtain)
    have "a \<noteq> last as" using False Cons.prems(3) by auto
    moreover have "chain (write_node h (last as) (n\<lparr>ln_next := Some b\<rparr>)) (ln_next na) (as @ [b])"
      using na False Cons.prems by (intro Cons.IH) auto
    ultimately show ?thesis using na False by auto
  qed
qed

lemma list_push_back_rep:
  assumes wf: "heap_wf h" and rep: "list_rep h l as" and q: "hp_quota h > 0"
    and len: "Suc (length as) < 2 ^ 64"
  shows "\<exists>h' l'. list_push_back h l v = Inr (Some (h', l')) \<and> heap_wf h'
    \<and> list_rep h' l' (as @ [hp_fresh h])
    \<and> datas h' (as @ [hp_fresh h]) = datas h as @ [v]"
proof -
  define a where "a = hp_fresh h"
  define n where "n = \<lparr>ln_data = v, ln_next = None\<rparr>"
  from q obtain h1 where al: "alloc_node n h = Some (a, h1)" and cells: "hp_cells h1 = (hp_cells h)(a := Some n)"
    by (simp add: alloc_node_def a_def)
  have wf1: "heap_wf h1" using wf al by (rule alloc_node_wf)
  have fresh: "a \<notin> set as"
    using wf rep chain_fresh by (auto simp: list_rep_def a_def)
  have empty: "cl_len l = 0 \<longleftrightarrow> as = []"
    using rep by (auto simp: list_rep_def unat_eq_0 [symmetric])
  have sz: "unat (cl_len l + 1) = Suc (length as)"
    using rep len by (simp add: list_rep_def unat_word_ariths)
  have ch: "chain h1 (cl_head l) as"
    using rep fresh by (subst chain_frame [of as h1 h]) (auto simp: cells list_rep_def)
  have dat: "datas h1 (as @ [a]) = datas h as @ [v]"
    using fresh by (auto simp: datas_def data_of_def cells n_def)
  show ?thesis
  proof (cases "as = []")
    case True
    define l' where "l' = l\<lparr>cl_head := Some a, cl_tail := Some a, cl_len := cl_len l + 1\<rparr>"
    have "list_push_back h l v = Inr (Some (h1, l'))"
      using al empty True by (simp add: list_push_back_def n_def l'_def)
    moreover have "list_rep h1 l' (as @ [a])"
      using True sz by (simp add: list_rep_def l'_def cells n_def)
    ultimately show ?thesis using wf1 dat unfolding a_def by blast
  next
    case False
    then have "last as \<in> set as" by simp
    then obtain nl where nl: "hp_cells h1 (last as) = Some nl"
      using chain_cells [OF ch] by blast
    define h2 where "h2 = write_node h1 (last as) (nl\<lparr>ln_next := Some a\<rparr>)"
    define l' where "l' = l\<lparr>cl_tail := Some a, cl_len := cl_len l + 1\<rparr>"
    have "set_next h1 (cl_tail l) (Some a) = Inr h2"
      using rep False nl by (simp add: list_rep_def h2_def)
    then have "list_push_back h l v = Inr (Some (h2, l'))"
      using al empty False by (simp add: list_push_back_def n_def l'_def)
    moreover have "chain h2 (cl_head l) (as @ [a])"
      unfolding h2_def using ch False rep fresh nl
      by (intro chain_append_last) (auto simp: list_rep_def cells n_def)
    then have "list_rep h2 l' (as @ [a])"
      using rep fresh sz by (simp add: list_rep_def l'_def)
    moreover have "heap_wf h2"
      using wf1 nl by (auto simp: h2_def heap_wf_def write_node_def)
    moreover have "datas h2 (as @ [a]) = datas h as @ [v]"
      using dat nl by (simp add: h2_def datas_def)
    ultimately show ?thesis unfolding a_def by blast
  qed
qed

section \<open>Removing\<close>

fun remove_first :: "('b \<Rightarrow> bool) \<Rightarrow> 'b list \<Rightarrow> 'b list" where
  "remove_first P [] = []"
| "remove_first P (x # xs) = (if P x then xs else x # remove_first P xs)"

lemma remove_first_subset: "set (remove_first P xs) \<subseteq> set xs"
  by (induction xs) auto

lemma remove_first_distinct: "distinct xs \<Longrightarrow> distinct (remove_first P xs)"
  by (induction xs) (use remove_first_subset in \<open>fastforce+\<close>)

lemma remove_first_id: "\<forall>x \<in> set xs. \<not> P x \<Longrightarrow> remove_first P xs = xs"
  by (induction xs) auto

definition removed :: "('b \<Rightarrow> bool) \<Rightarrow> 'b list \<Rightarrow> nat" where
  "removed P xs = (if \<exists>x \<in> set xs. P x then 1 else 0)"

lemma removed_simps [simp]:
  "removed P [] = 0" "removed P (x # xs) = (if P x then 1 else removed P xs)"
  by (auto simp: removed_def)

lemma length_remove_first: "length (remove_first P xs) + removed P xs = length xs"
  by (induction xs) auto

text \<open>What removal leaves: the remaining chain, its data, and every node outside the list.\<close>

definition removal :: "'a heap \<Rightarrow> 'a heap \<Rightarrow> addr option \<Rightarrow> addr list \<Rightarrow> addr list \<Rightarrow> bool" where
  "removal h h' p as bs \<longleftrightarrow> chain h' p bs \<and> datas h' bs = datas h bs
     \<and> (\<forall>b. b \<notin> set as \<longrightarrow> hp_cells h' b = hp_cells h b)"

lemma removal_Cons:
  assumes r: "removal h h1 p as bs" and a: "hp_cells h a = Some n" "a \<notin> set as" "set bs \<subseteq> set as"
  shows "\<exists>h2. set_next h1 (Some a) p = Inr h2 \<and> removal h h2 (Some a) (a # as) (a # bs)
    \<and> (\<forall>b. hp_cells h1 b \<noteq> None \<longrightarrow> hp_cells h2 b \<noteq> None)"
proof -
  have n: "hp_cells h1 a = Some n" using r a by (simp add: removal_def)
  define h2 where "h2 = write_node h1 a (n\<lparr>ln_next := p\<rparr>)"
  have "a \<notin> set bs" using a by auto
  then have "chain h2 p bs" using r by (simp add: h2_def chain_write_notin removal_def)
  moreover have "datas h2 (a # bs) = datas h (a # bs)"
    using r n a by (simp add: removal_def datas_def h2_def data_of_def)
  moreover have "\<forall>b. b \<notin> set (a # as) \<longrightarrow> hp_cells h2 b = hp_cells h b"
    using r by (simp add: h2_def removal_def)
  ultimately have "removal h h2 (Some a) (a # as) (a # bs)"
    by (simp add: removal_def h2_def)
  then show ?thesis using n by (auto simp: h2_def)
qed

lemma list_node_remove_chain:
  assumes "chain h p as" and "distinct as"
  shows "\<exists>h' p'. list_node_remove cmp h p c = Some (Inr (h', p', c + removed (cmp h) as))
    \<and> removal h h' p' as (remove_first (cmp h) as)"
  using assms
proof (induction as arbitrary: p)
  case Nil
  then show ?case by (simp add: list_node_remove.simps [of cmp h None] removal_def)
next
  case (Cons a as)
  from Cons.prems(1) obtain n where n: "p = Some a" "hp_cells h a = Some n" "chain h (ln_next n) as"
    by (rule chain_Cons_obtain)
  show ?case
  proof (cases "cmp h a")
    case True
    define h' where "h' = h\<lparr>hp_cells := (hp_cells h)(a := None)\<rparr>"
    have "chain h' (ln_next n) as"
      using n Cons.prems(2) by (subst chain_frame [of as h' h]) (auto simp: h'_def)
    moreover have "datas h' as = datas h as"
      using Cons.prems(2) by (auto simp: datas_def data_of_def h'_def)
    ultimately have "removal h h' (ln_next n) (a # as) as"
      by (simp add: removal_def h'_def)
    then show ?thesis
      using True n by (simp add: list_node_remove.simps [of cmp h "Some a"] free_node_def h'_def)
  next
    case False
    have "distinct as" using Cons.prems(2) by simp
    from Cons.IH [OF n(3) this] obtain h1 p1 where r: "list_node_remove cmp h (ln_next n) c
        = Some (Inr (h1, p1, c + removed (cmp h) as))"
      "removal h h1 p1 as (remove_first (cmp h) as)" by blast
    from removal_Cons [OF r(2) n(2)] Cons.prems(2) obtain h2
      where "set_next h1 (Some a) p1 = Inr h2" "removal h h2 (Some a) (a # as) (a # remove_first (cmp h) as)"
      using remove_first_subset by (metis distinct.simps(2))
    then show ?thesis
      using False n r(1) by (simp add: list_node_remove.simps [of cmp h "Some a"])
  qed
qed

lemma list_remove_rep:
  assumes rep: "list_rep h l as"
  shows "\<exists>h' l'. list_remove cmp h (Some l) (Some nd) = Some (Inr (h', Some l'))
    \<and> removal h h' (cl_head l') as (remove_first (cmp nd h) as)
    \<and> unat (cl_len l') = length (remove_first (cmp nd h) as) \<and> cl_tail l' = cl_tail l"
proof -
  from rep have "chain h (cl_head l) as" "distinct as" by (simp_all add: list_rep_def)
  from list_node_remove_chain [OF this, of "cmp nd" 0] obtain h' p' where
    r: "list_node_remove (cmp nd) h (cl_head l) 0 = Some (Inr (h', p', removed (cmp nd h) as))"
       "removal h h' p' as (remove_first (cmp nd h) as)" by auto
  have len: "unat (cl_len l) = length (remove_first (cmp nd h) as) + removed (cmp nd h) as"
    using rep by (simp add: list_rep_def length_remove_first)
  have small: "unat (of_nat (removed (cmp nd h) as) :: u64) = removed (cmp nd h) as"
    by (simp add: removed_def)
  have "unat (cl_len l - of_nat (removed (cmp nd h) as)) = length (remove_first (cmp nd h) as)"
    using len small by (simp add: unat_sub word_le_nat_alt)
  with r show ?thesis by (simp add: list_remove_def)
qed

lemma list_remove_single_node_chain:
  assumes "chain h p as" and "distinct as"
  shows "\<exists>h' p'. list_remove_single_node cmp h p None
      = Some (Inr (h', p', List.find (cmp h) as))
    \<and> removal h h' p' as (remove_first (cmp h) as)
    \<and> (\<forall>b. hp_cells h b \<noteq> None \<longrightarrow> hp_cells h' b \<noteq> None)
    \<and> (as \<noteq> [] \<longrightarrow> \<not> cmp h (hd as) \<longrightarrow> p' = p)"
  using assms
proof (induction as arbitrary: p)
  case Nil
  then show ?case by (simp add: list_remove_single_node.simps [of cmp h None] removal_def)
next
  case (Cons a as)
  from Cons.prems(1) obtain n where n: "p = Some a" "hp_cells h a = Some n" "chain h (ln_next n) as"
    by (rule chain_Cons_obtain)
  show ?case
  proof (cases "cmp h a")
    case True
    then show ?thesis
      using n by (simp add: list_remove_single_node.simps [of cmp h "Some a"] removal_def)
  next
    case False
    have "distinct as" using Cons.prems(2) by simp
    from Cons.IH [OF n(3) this] obtain h1 p1 where r: "list_remove_single_node cmp h (ln_next n) None
        = Some (Inr (h1, p1, List.find (cmp h) as))"
      "removal h h1 p1 as (remove_first (cmp h) as)"
      "\<forall>b. hp_cells h b \<noteq> None \<longrightarrow> hp_cells h1 b \<noteq> None" by blast
    have "a \<notin> set as" using Cons.prems(2) by simp
    from removal_Cons [OF r(2) n(2) this remove_first_subset] obtain h2
      where "set_next h1 (Some a) p1 = Inr h2" "removal h h2 (Some a) (a # as) (a # remove_first (cmp h) as)"
        "\<forall>b. hp_cells h1 b \<noteq> None \<longrightarrow> hp_cells h2 b \<noteq> None" by blast
    then show ?thesis
      using False n r(1,3) by (simp add: list_remove_single_node.simps [of cmp h "Some a"])
  qed
qed

lemma find_remove_first: "List.find P xs = Some b \<Longrightarrow> distinct xs \<Longrightarrow> b \<notin> set (remove_first P xs)"
proof (induction xs)
  case (Cons x xs)
  then show ?case using find_Some_iff [of P xs b] by (auto split: if_splits)
qed simp

lemma find_live: "chain h p as \<Longrightarrow> List.find P as = Some b \<Longrightarrow> hp_cells h b \<noteq> None"
  using chain_cells by (fastforce simp: find_Some_iff)

lemma removed_find: "removed P xs = (if List.find P xs = None then 0 else 1)"
  by (auto simp: removed_def find_None_iff)

text \<open>
  \<^verbatim>\<open>list_remove_node\<close> when the first match is not the head of the list: the node is unlinked.
\<close>

lemma list_remove_node_inner:
  assumes rep: "list_rep h l (a # as)" and no: "\<not> cmp h a" and found: "List.find (cmp h) as = Some b"
  shows "\<exists>h' l'. list_remove_node cmp h (Some l) = Some (Inr (h', l', Some b))
    \<and> cl_head l' = cl_head l \<and> chain h' (cl_head l') (a # remove_first (cmp h) as)
    \<and> datas h' (a # remove_first (cmp h) as) = datas h (a # remove_first (cmp h) as)
    \<and> unat (cl_len l') = length (a # remove_first (cmp h) as)"
proof -
  let ?as = "a # as" and ?bs = "a # remove_first (cmp h) as"
  from rep have ch: "chain h (cl_head l) ?as" and d: "distinct ?as" by (simp_all add: list_rep_def)
  from list_remove_single_node_chain [OF ch d, of cmp] no found obtain h1 where
    r: "list_remove_single_node cmp h (cl_head l) None = Some (Inr (h1, cl_head l, Some b))"
       "removal h h1 (cl_head l) ?as ?bs" "\<forall>b. hp_cells h b \<noteq> None \<longrightarrow> hp_cells h1 b \<noteq> None" by auto
  have "List.find (cmp h) ?as = Some b" using no found by simp
  note fnd = this
  have bout: "b \<notin> set ?bs" using find_remove_first [OF fnd d] no by simp
  have "hp_cells h b \<noteq> None" by (rule find_live [OF ch fnd])
  then obtain n where n: "hp_cells h1 b = Some n" using r(3) by blast
  define h2 where "h2 = write_node h1 b (n\<lparr>ln_next := None\<rparr>)"
  have len: "unat (cl_len l) = Suc (length ?bs)"
    using rep no found length_remove_first [of "cmp h" as] by (simp add: list_rep_def removed_find)
  then have "cl_len l \<noteq> 0" by auto
  then have "list_remove_node cmp h (Some l) = Some (Inr (h2, l\<lparr>cl_len := cl_len l - 1\<rparr>, Some b))"
    using r(1) n by (simp add: list_remove_node_def h2_def)
  moreover have "chain h2 (cl_head l) ?bs"
    unfolding h2_def using r(2) chain_write_notin [OF bout, of h1 _ "cl_head l"]
    by (blast dest: removal_def [THEN iffD1])
  moreover have "datas h2 ?bs = datas h ?bs"
    using r(2) n unfolding h2_def by (simp add: datas_def removal_def)
  moreover have "unat (cl_len l - 1) = length ?bs"
    using len by (simp add: unat_sub word_le_nat_alt)
  ultimately show ?thesis by auto
qed

text \<open>
  When it is the head, the head pointer still points to the node taken out, whose \<^verbatim>\<open>next\<close> is now null:
  the rest of the list is no longer reachable.
\<close>

lemma list_remove_node_head:
  assumes rep: "list_rep h l (a # as)" and yes: "cmp h a"
  shows "\<exists>h' l'. list_remove_node cmp h (Some l) = Some (Inr (h', l', Some a))
    \<and> chain h' (cl_head l') [a] \<and> unat (cl_len l') = length as"
proof -
  from rep obtain n where n: "cl_head l = Some a" "hp_cells h a = Some n"
    unfolding list_rep_def by (metis chain_Cons_obtain)
  define h2 where "h2 = write_node h a (n\<lparr>ln_next := None\<rparr>)"
  have len: "unat (cl_len l) = Suc (length as)" using rep by (simp add: list_rep_def)
  then have "cl_len l \<noteq> 0" by auto
  moreover have "list_remove_single_node cmp h (Some a) None = Some (Inr (h, ln_next n, Some a))"
    using n yes by (simp add: list_remove_single_node.simps [of cmp h "Some a"])
  ultimately have "list_remove_node cmp h (Some l) = Some (Inr (h2, l\<lparr>cl_len := cl_len l - 1\<rparr>, Some a))"
    using n by (simp add: list_remove_node_def h2_def)
  moreover have "chain h2 (cl_head l) [a]" using n by (simp add: h2_def)
  moreover have "unat (cl_len l - 1) = length as"
    using len by (simp add: unat_sub word_le_nat_alt)
  ultimately show ?thesis by auto
qed

lemma list_remove_node_none:
  assumes rep: "list_rep h l (a # as)" and none: "List.find (cmp h) (a # as) = None"
  shows "\<exists>h'. list_remove_node cmp h (Some l) = Some (Inr (h', l, None)) \<and> chain h' (cl_head l) (a # as)"
proof -
  from rep have ch: "chain h (cl_head l) (a # as)" and d: "distinct (a # as)"
    and len: "cl_len l \<noteq> 0" by (auto simp: list_rep_def)
  have id: "remove_first (cmp h) (a # as) = a # as"
    using none unfolding find_None_iff by (intro remove_first_id) auto
  from list_remove_single_node_chain [OF ch d, of cmp] none id obtain h' p' where
    r: "list_remove_single_node cmp h (cl_head l) None = Some (Inr (h', p', None))"
       "removal h h' p' (a # as) (a # as)" "p' = cl_head l"
    by (auto simp: find_None_iff)
  show ?thesis using r len by (auto simp: list_remove_node_def removal_def)
qed

text \<open>
  The tail pointer after the last node was removed.
\<close>

lemma list_node_remove_freed:
  assumes "chain h p as" and "distinct as" and "List.find (cmp h) as = Some b"
    and "list_node_remove cmp h p c = Some (Inr (h', p', c'))"
  shows "hp_cells h' b = None \<and> hp_fresh h' = hp_fresh h"
  using assms
proof (induction as arbitrary: p h' p' c')
  case (Cons a as)
  from Cons.prems(1) obtain n where n: "p = Some a" "hp_cells h a = Some n" "chain h (ln_next n) as"
    by (rule chain_Cons_obtain)
  show ?case
  proof (cases "cmp h a")
    case True
    have "list_node_remove cmp h (Some a) c = Some (Inr (h', p', c'))" using Cons.prems(4) n by simp
    then have "h' = h\<lparr>hp_cells := (hp_cells h)(a := None)\<rparr>"
      unfolding list_node_remove.simps [of cmp h "Some a"] using True n by (simp add: free_node_def)
    then show ?thesis using Cons.prems(3) True by simp
  next
    case False
    then obtain h1 p1 c1 where "list_node_remove cmp h (ln_next n) c = Some (Inr (h1, p1, c1))"
      "set_next h1 (Some a) p1 = Inr h'" using Cons.prems(4) n
      by (auto simp: list_node_remove.simps [of cmp h "Some a"] bind_eq_Some_conv)
    moreover have "b \<noteq> a" using Cons.prems(2,3) False by (auto simp: find_Some_iff)
    moreover have "distinct as" "List.find (cmp h) as = Some b" using Cons.prems(2,3) False by simp_all
    ultimately show ?thesis using Cons.IH [OF n(3)]
      by (fastforce simp: set_next_def write_node_def)
  qed
qed simp

lemma stale_tail:
  assumes rep: "list_rep h l as" and wf: "heap_wf h"
    and rem: "list_remove cmp h (Some l) (Some nd) = Some (Inr (h', Some l'))"
    and last: "List.find (cmp nd h) as = Some (last as) \<and> 2 \<le> length as \<and> 0 < hp_quota h'"
  shows "list_push_back h' l' v = Inl Use_after_free"
proof -
  from rep have ch: "chain h (cl_head l) as" and d: "distinct as" by (simp_all add: list_rep_def)
  from rem obtain c where "list_node_remove (cmp nd) h (cl_head l) 0 = Some (Inr (h', cl_head l', c))"
    by (auto simp: list_remove_def bind_eq_Some_conv)
  from list_node_remove_freed [OF ch d _ this] last
  have fr: "hp_cells h' (last as) = None" "hp_fresh h' = hp_fresh h" by auto
  have ne: "as \<noteq> []" using last by auto
  then have "hp_cells h (last as) \<noteq> None" using chain_cells [OF ch] by auto
  then have "last as \<noteq> hp_fresh h" using wf by (auto simp: heap_wf_def)
  moreover from list_remove_rep [OF rep, of cmp nd] rem have
    "cl_tail l' = cl_tail l" "unat (cl_len l') = length (remove_first (cmp nd h) as)" by auto
  moreover have "length (remove_first (cmp nd h) as) \<noteq> 0"
    using length_remove_first [of "cmp nd h" as] last by (simp add: removed_find del: length_0_conv)
  ultimately show ?thesis using fr last ne rep
    by (auto simp: list_push_back_def alloc_node_def set_next_def read_node_def list_rep_def)
qed

section \<open>Releasing\<close>

definition kill :: "addr list \<Rightarrow> (addr \<Rightarrow> 'b option) \<Rightarrow> addr \<Rightarrow> 'b option" where
  "kill as f b = (if b \<in> set as then None else f b)"

lemma kill_simps: "kill [] f = f" "(kill (a # as) f) = kill as (f(a := None))"
  by (auto simp: kill_def)

lemma release_loop_chain:
  assumes "chain h p as" and "distinct as"
  shows "\<exists>h'. release_loop None deep (length as) p h = Inr h' \<and> hp_cells h' = kill as (hp_cells h)
    \<and> hp_freed h' = (if deep then rev (map the (filter (\<lambda>d. d \<noteq> None) (datas h as))) @ hp_freed h else hp_freed h)
    \<and> hp_fresh h' = hp_fresh h"
  using assms
proof (induction as arbitrary: p h)
  case Nil
  then show ?case by (simp add: kill_simps datas_def)
next
  case (Cons a as)
  from Cons.prems(1) obtain n where n: "p = Some a" "hp_cells h a = Some n" "chain h (ln_next n) as"
    by (rule chain_Cons_obtain)
  define h1 where "h1 = (if deep then free_data h (ln_data n) else h)"
  have c1: "hp_cells h1 = hp_cells h" "hp_fresh h1 = hp_fresh h"
    by (auto simp: h1_def free_data_def split: option.splits)
  define h2 where "h2 = h1\<lparr>hp_cells := (hp_cells h)(a := None)\<rparr>"
  have fr: "free_node h1 (Some a) = Inr h2" using n c1 by (simp add: free_node_def h2_def)
  have ch: "chain h2 (ln_next n) as"
    using n Cons.prems(2) by (subst chain_frame [of as h2 h]) (auto simp: h2_def)
  have dat: "datas h2 as = datas h as"
    using Cons.prems(2) by (auto simp: datas_def data_of_def h2_def)
  from Cons.IH [OF ch] Cons.prems(2) obtain h' where r: "release_loop None deep (length as) (ln_next n) h2 = Inr h'"
    "hp_cells h' = kill as (hp_cells h2)"
    "hp_freed h' = (if deep then rev (map the (filter (\<lambda>d. d \<noteq> None) (datas h as))) @ hp_freed h2 else hp_freed h2)"
    "hp_fresh h' = hp_fresh h2" unfolding dat by auto
  have "release_loop None deep (length (a # as)) p h = Inr h'"
    using n r(1) fr by (simp add: h1_def)
  moreover have "hp_cells h' = kill (a # as) (hp_cells h)"
    by (simp add: r(2) kill_simps h2_def)
  moreover have "hp_freed h2 = (if deep then (case ln_data n of None \<Rightarrow> [] | Some x \<Rightarrow> [x]) @ hp_freed h else hp_freed h)"
    by (simp add: h2_def h1_def free_data_def split: option.splits)
  ultimately show ?case
    using r(3,4) n c1 by (auto simp: datas_def data_of_def h2_def split: option.splits)
qed

section \<open>Bisection and sorted insertion\<close>

lemma bisect_loop_chain:
  assumes "chain h fast fs" and "chain h slow ss" and "length fs \<le> length ss"
  shows "bisect_loop h fast slow prev = Some (Inr (first_ptr (drop (length fs div 2) ss),
     if length fs div 2 = 0 then prev else Some (ss ! (length fs div 2 - 1))))"
  using assms
proof (induction fs arbitrary: fast slow ss prev rule: induct_list012)
  case 1
  then show ?case using chain_first by (fastforce simp: bisect_loop.simps [of h None])
next
  case (2 a)
  from 2(1) obtain n where "fast = Some a" "hp_cells h a = Some n" "ln_next n = None"
    by (auto split: option.splits)
  then show ?case using chain_first [OF 2(2)] by (simp add: bisect_loop.simps [of h "Some a"])
next
  case (3 a b fs)
  from 3(3) obtain n n' where n: "fast = Some a" "hp_cells h a = Some n" "ln_next n = Some b"
    "hp_cells h b = Some n'" "chain h (ln_next n') fs" by (auto split: option.splits)
  from 3(5) obtain c cs where ss: "ss = c # cs" by (cases ss) auto
  with 3(4) obtain m where m: "slow = Some c" "hp_cells h c = Some m" "chain h (ln_next m) cs"
    by (auto split: option.splits)
  have "length fs \<le> length cs" using 3(5) ss by simp
  from 3(1) [OF n(5) m(3) this, of "Some c"] show ?case
    using n m ss by (auto simp: bisect_loop.simps [of h "Some a"] nth_Cons')
qed

lemma chain_cut:
  assumes "chain h p (xs @ a # ys)" and "distinct (xs @ a # ys)" and "hp_cells h a = Some n"
  shows "chain (write_node h a (n\<lparr>ln_next := None\<rparr>)) p (xs @ [a])"
  using assms
proof (induction xs arbitrary: p)
  case (Cons x xs)
  then show ?case by (auto split: option.splits)
qed simp

lemma bisect_list_chain:
  assumes ch: "chain h p as" and d: "distinct as" and len: "2 \<le> length as"
  shows "\<exists>h' q. bisect_list h p = Some (Inr (h', q))
    \<and> chain h' p (take (length as div 2) as) \<and> chain h' q (drop (length as div 2) as)
    \<and> datas h' as = datas h as"
proof -
  define k where "k = length as div 2 - 1"
  have k: "Suc k = length as div 2" "k < length as" using len by (auto simp: k_def)
  obtain n where n: "hp_cells h (as ! k) = Some n"
    using chain_cells [OF ch, of "as ! k"] k by auto
  define h' where "h' = write_node h (as ! k) (n\<lparr>ln_next := None\<rparr>)"
  define q where "q = first_ptr (drop (Suc k) as)"
  have split: "as = take k as @ as ! k # drop (Suc k) as" using k(2) by (rule id_take_nth_drop)
  have "bisect_list h p = Some (Inr (h', q))"
    using bisect_loop_chain [OF ch ch order_refl, of None] n
    by (simp add: bisect_list_def h'_def q_def k(1) [symmetric])
  moreover have "chain h' p (take k as @ [as ! k])"
    unfolding h'_def by (rule chain_cut [OF _ _ n, of _ _ "drop (Suc k) as"]) (simp_all only: split [symmetric] ch d)
  then have "chain h' p (take (Suc k) as)" using k(2) by (simp add: take_Suc_conv_app_nth)
  moreover have "as ! k \<notin> set (drop (Suc k) as)"
    using d distinct_append [of "take k as"] distinct.simps(2) split by metis
  then have "chain h' q (drop (Suc k) as)"
    using chain_drop [OF ch, of "Suc k"] by (simp add: h'_def q_def chain_write_notin)
  moreover have "datas h' as = datas h as" using n by (simp add: h'_def datas_def)
  ultimately show ?thesis unfolding k(1) by blast
qed

text \<open>The place \<^verbatim>\<open>list_sort_insert\<close> chooses: behind the longest prefix of nodes that compare less.\<close>

lemma chain_insert_after:
  assumes "chain h p (xs @ a # ys)" and "distinct (xs @ a # ys)" and "new \<notin> set (xs @ a # ys)"
    and "hp_cells h new = Some m" and "hp_cells h a = Some n"
  shows "chain (write_node (write_node h new (m\<lparr>ln_next := ln_next n\<rparr>)) a (n\<lparr>ln_next := Some new\<rparr>)) p
     (xs @ a # new # ys)"
  using assms
proof (induction xs arbitrary: p)
  case Nil
  then show ?case by (auto simp: chain_write_notin split: option.splits)
next
  case (Cons x xs)
  then show ?case by (auto split: option.splits)
qed

lemma sort_insert_loop_chain:
  assumes "chain h p (a # as)"
  shows "\<exists>xs b. sort_insert_loop cmp h p = Some (Inr (Some b)) \<and> a # takeWhile (\<lambda>x. cmp h x < 0) as = xs @ [b]"
  using assms
proof (induction as arbitrary: p a)
  case Nil
  then obtain n where "p = Some a" "hp_cells h a = Some n" "ln_next n = None" by (auto split: option.splits)
  then show ?case by (simp add: sort_insert_loop.simps [of cmp h "Some a"])
next
  case (Cons c as)
  from Cons.prems obtain n where n: "p = Some a" "hp_cells h a = Some n" "chain h (ln_next n) (c # as)"
    by (rule chain_Cons_obtain)
  then have nx: "ln_next n = Some c" by simp
  show ?case
  proof (cases "cmp h c < 0")
    case True
    from Cons.IH [OF n(3)] obtain xs b where
      "sort_insert_loop cmp h (ln_next n) = Some (Inr (Some b))"
      "a # c # takeWhile (\<lambda>x. cmp h x < 0) as = (a # xs) @ [b]" by auto
    then show ?thesis using n nx True
      by (simp add: sort_insert_loop.simps [of cmp h "Some a"])
  next
    case False
    then show ?thesis using n nx by (simp add: sort_insert_loop.simps [of cmp h "Some a"])
  qed
qed

lemma list_sort_insert_chain:
  assumes ch: "chain h p as" and d: "distinct as" and new: "new \<notin> set as" "hp_cells h new = Some m"
  shows "\<exists>h' q. list_sort_insert cmp h p new = Some (Inr (h', q))
    \<and> chain h' q (takeWhile (\<lambda>x. cmp h x < 0) as @ new # dropWhile (\<lambda>x. cmp h x < 0) as)
    \<and> datas h' = datas h"
proof (cases "p = None \<or> cmp h (the p) \<ge> 0")
  case True
  have "takeWhile (\<lambda>x. cmp h x < 0) as = [] \<and> dropWhile (\<lambda>x. cmp h x < 0) as = as"
    using True ch by (cases as) auto
  moreover have "chain (write_node h new (m\<lparr>ln_next := p\<rparr>)) p as" using ch new by (simp add: chain_write_notin)
  ultimately show ?thesis using True new by (simp add: list_sort_insert_def datas_def fun_eq_iff)
next
  case False
  then obtain a bs where as: "as = a # bs" and less: "p = Some a" "cmp h a < 0" using ch by (cases as) auto
  let ?P = "\<lambda>x. cmp h x < 0"
  from sort_insert_loop_chain [of h p a bs cmp] ch as obtain xs b where
    l: "sort_insert_loop cmp h p = Some (Inr (Some b))" and tw: "a # takeWhile ?P bs = xs @ [b]" by auto
  define ys where "ys = dropWhile ?P bs"
  have "as = (a # takeWhile ?P bs) @ ys" by (simp add: as ys_def)
  then have sp: "as = xs @ b # ys" by (simp only: tw append_assoc append.simps)
  have parts: "takeWhile ?P as @ new # dropWhile ?P as = xs @ b # new # ys"
    using tw less as by (simp add: ys_def)
  obtain n where n: "hp_cells h b = Some n" using chain_cells [OF ch, of b] by (auto simp: sp)
  define h' where "h' = write_node (write_node h new (m\<lparr>ln_next := ln_next n\<rparr>)) b (n\<lparr>ln_next := Some new\<rparr>)"
  have bn: "b \<noteq> new" using new(1) by (auto simp: sp)
  have "list_sort_insert cmp h p new = Some (Inr (h', p))"
    using False l n new(2) bn by (simp add: list_sort_insert_def h'_def)
  moreover have "chain h' p (xs @ b # new # ys)"
    unfolding h'_def by (rule chain_insert_after [OF ch [unfolded sp] d [unfolded sp] new(1) [unfolded sp] new(2) n])
  moreover have "datas h' = datas h" using n new bn by (simp add: h'_def datas_def data_of_def fun_eq_iff)
  ultimately show ?thesis unfolding parts by blast
qed

lemma sorted_insert_after:
  fixes key :: "'b \<Rightarrow> 'k::linorder"
  assumes "sorted (map key as)"
  shows "sorted (map key (takeWhile (\<lambda>x. key x < key new) as @ new # dropWhile (\<lambda>x. key x < key new) as))"
  using assms by (induction as) (auto simp: not_less dest: set_takeWhileD set_dropWhileD intro: order_trans)

section \<open>The list as a bounded sequence\<close>

text \<open>
  What a client of the list relies on: there is room for so many more elements, and adding one
  succeeds while there is room and changes the abstract sequence by \<open>put\<close>.
\<close>

locale bounded_seq =
  fixes rep :: "'s \<Rightarrow> 'v list \<Rightarrow> bool"
    and room :: "'s \<Rightarrow> nat"
    and add :: "'s \<Rightarrow> 'v \<Rightarrow> 's option"
    and put :: "'v \<Rightarrow> 'v list \<Rightarrow> 'v list"
  assumes add_rep: "rep s xs \<Longrightarrow> 0 < room s \<Longrightarrow> \<exists>s'. add s v = Some s' \<and> rep s' (put v xs)"
    and add_room: "rep s xs \<Longrightarrow> 0 < room s \<Longrightarrow> add s v = Some s' \<Longrightarrow> room s' = room s - 1"
begin

lemma add_many:
  "rep s xs \<Longrightarrow> length vs \<le> room s \<Longrightarrow>
    \<exists>s'. fold_opt add vs s = Some s' \<and> rep s' (fold put vs xs) \<and> room s' = room s - length vs"
proof (induction vs arbitrary: s xs)
  case (Cons v vs)
  from add_rep [OF Cons.prems(1), of v] Cons.prems(2) obtain s' where
    s': "add s v = Some s'" "rep s' (put v xs)" by auto
  moreover from add_room [OF Cons.prems(1) _ s'(1)] Cons.prems(2) have rm: "room s' = room s - 1" by simp
  moreover have "length vs \<le> room s'" using rm Cons.prems(2) by simp
  moreover from Cons.IH [OF s'(2) this] obtain s'' where
    "fold_opt add vs s' = Some s''" "rep s'' (fold put vs (put v xs))" "room s'' = room s' - length vs" by auto
  ultimately show ?case by auto
qed simp

end

definition seq_rep :: "'a heap \<times> 'a clist \<Rightarrow> 'a option list \<Rightarrow> bool" where
  "seq_rep s xs \<longleftrightarrow> heap_wf (fst s) \<and> (\<exists>as. list_rep (fst s) (snd s) as \<and> datas (fst s) as = xs)"

definition seq_room :: "'a heap \<times> 'a clist \<Rightarrow> nat" where
  "seq_room s = min (hp_quota (fst s)) (2 ^ 64 - 1 - unat (cl_len (snd s)))"

definition push_front :: "'a heap \<times> 'a clist \<Rightarrow> 'a option \<Rightarrow> ('a heap \<times> 'a clist) option" where
  "push_front s v = list_push (fst s) (snd s) v"

definition push_last :: "'a heap \<times> 'a clist \<Rightarrow> 'a option \<Rightarrow> ('a heap \<times> 'a clist) option" where
  "push_last s v = (case list_push_back (fst s) (snd s) v of Inl _ \<Rightarrow> None | Inr r \<Rightarrow> r)"

lemma list_push_counts:
  "list_push h l v = Some (h', l') \<Longrightarrow> hp_quota h' = hp_quota h - 1 \<and> cl_len l' = cl_len l + 1"
  by (auto simp: list_push_def alloc_node_def split: if_splits)

lemma list_push_back_counts:
  "list_push_back h l v = Inr (Some (h', l')) \<Longrightarrow> hp_quota h' = hp_quota h - 1 \<and> cl_len l' = cl_len l + 1"
  by (auto simp: list_push_back_def alloc_node_def set_next_def write_node_def split: if_splits)

lemma seq_roomD:
  assumes "seq_rep (h, l) xs" and "0 < seq_room (h, l)"
  shows "Suc (length xs) < 2 ^ 64" and "0 < hp_quota h"
  using assms by (auto simp: seq_room_def seq_rep_def list_rep_def datas_def)

lemma room_after: "hp_quota h' = hp_quota h - 1 \<and> cl_len l' = cl_len l + 1 \<Longrightarrow> hp_quota h > 0 \<Longrightarrow>
    unat (cl_len l) + 1 < 2 ^ 64 \<Longrightarrow> seq_room (h', l') = seq_room (h, l) - 1"
  by (simp add: seq_room_def unat_word_ariths min_def)

lemma seq_rep_len: "seq_rep (h, l) xs \<Longrightarrow> unat (cl_len l) = length xs"
  by (auto simp: seq_rep_def list_rep_def datas_def)

lemma room_step:
  assumes "seq_rep (h, l) xs" "0 < seq_room (h, l)" "hp_quota h' = hp_quota h - Suc 0" "cl_len l' = cl_len l + 1"
  shows "seq_room (h', l') = seq_room (h, l) - Suc 0"
  using room_after [of h' h l' l] assms seq_roomD [OF assms(1,2)] seq_rep_len [OF assms(1)] by simp

interpretation at_front: bounded_seq seq_rep seq_room push_front "(#)"
proof
  fix s :: "'a heap \<times> 'a clist" and xs v
  assume r: "seq_rep s xs" "0 < seq_room s"
  obtain h l where s: "s = (h, l)" by force
  from r s obtain as where as: "list_rep h l as" "datas h as = xs" "heap_wf h" by (auto simp: seq_rep_def)
  have "Suc (length as) < 2 ^ 64" "0 < hp_quota h"
    using seq_roomD r s as(2) by (fastforce simp: datas_def)+
  from list_push_rep [OF as(3,1) this(2,1), of v] obtain h' l' where
    "list_push h l v = Some (h', l')" "heap_wf h'" "list_rep h' l' (hp_fresh h # as)"
    "datas h' (hp_fresh h # as) = v # xs" using as(2) by blast
  then show "\<exists>s'. push_front s v = Some s' \<and> seq_rep s' (v # xs)"
    using s by (fastforce simp: push_front_def seq_rep_def)
next
  fix s :: "'a heap \<times> 'a clist" and xs v s'
  assume "seq_rep s xs" "0 < seq_room s" "push_front s v = Some s'"
  then show "seq_room s' = seq_room s - 1"
    by (cases s, cases s') (auto simp: push_front_def dest!: list_push_counts intro!: room_step)
qed

interpretation at_back: bounded_seq seq_rep seq_room push_last "\<lambda>v xs. xs @ [v]"
proof
  fix s :: "'a heap \<times> 'a clist" and xs v
  assume r: "seq_rep s xs" "0 < seq_room s"
  obtain h l where s: "s = (h, l)" by force
  from r s obtain as where as: "list_rep h l as" "datas h as = xs" "heap_wf h" by (auto simp: seq_rep_def)
  have "Suc (length as) < 2 ^ 64" "0 < hp_quota h"
    using seq_roomD r s as(2) by (fastforce simp: datas_def)+
  from list_push_back_rep [OF as(3,1) this(2,1), of v] obtain h' l' where
    "list_push_back h l v = Inr (Some (h', l'))" "heap_wf h'" "list_rep h' l' (as @ [hp_fresh h])"
    "datas h' (as @ [hp_fresh h]) = xs @ [v]" using as(2) by blast
  then show "\<exists>s'. push_last s v = Some s' \<and> seq_rep s' (xs @ [v])"
    using s by (fastforce simp: push_last_def seq_rep_def)
next
  fix s :: "'a heap \<times> 'a clist" and xs v s'
  assume "seq_rep s xs" "0 < seq_room s" "push_last s v = Some s'"
  then show "seq_room s' = seq_room s - 1"
    by (cases s, cases s') (auto simp: push_last_def split: sum.splits dest!: list_push_back_counts intro!: room_step)
qed

lemma fold_snoc: "fold (\<lambda>v xs. xs @ [v]) vs xs = xs @ vs"
  by (induction vs arbitrary: xs) auto

section \<open>Properties\<close>

text \<open>
  C29 (list_push_order): From a well-formed store and list with room for them (free memory and a
  length counter that does not wrap), pushing values one after the other with \<^verbatim>\<open>list_push\<close> never
  fails and leaves them in front of the old contents in reverse order; with \<^verbatim>\<open>list_push_back\<close> they
  follow the old contents in order. The length counter, the tail pointer and the chain of \<^verbatim>\<open>next\<close>
  pointers stay consistent.
\<close>

theorem list_push_order:
  assumes "seq_rep s xs" and "length vs \<le> seq_room s"
  shows "(\<exists>s'. fold_opt push_front vs s = Some s' \<and> seq_rep s' (rev vs @ xs))
    \<and> (\<exists>s'. fold_opt push_last vs s = Some s' \<and> seq_rep s' (xs @ vs))"
  using at_front.add_many [OF assms] at_back.add_many [OF assms]
  by (auto simp: fold_Cons_rev fold_snoc)

definition empty_heap :: "nat \<Rightarrow> 'a heap" where
  "empty_heap q = \<lparr>hp_cells = \<lambda>_. None, hp_fresh = 0, hp_quota = q, hp_freed = []\<rparr>"

definition new_list :: "'a clist" where
  "new_list = \<lparr>cl_head = None, cl_tail = None, cl_len = 0, cl_destructor = None\<rparr>"

lemma seq_rep_empty: "seq_rep (empty_heap q, new_list) []"
  by (auto simp: seq_rep_def empty_heap_def new_list_def heap_wf_def list_rep_def datas_def)

theorem list_push_order_witness:
  "(\<exists>s'. fold_opt push_front [Some 1, Some 2, Some (3::nat)] (empty_heap 5, new_list) = Some s'
      \<and> seq_rep s' [Some 3, Some 2, Some 1])
    \<and> (\<exists>s'. fold_opt push_last [Some 1, Some 2, Some (3::nat)] (empty_heap 5, new_list) = Some s'
      \<and> seq_rep s' [Some 1, Some 2, Some 3])"
  using list_push_order [OF seq_rep_empty, of "[Some 1, Some 2, Some (3::nat)]" 5]
  by (simp add: seq_room_def empty_heap_def new_list_def)

text \<open>A list of three nodes holding 10, 20 and 30.\<close>

definition three_heap :: "nat heap" where
  "three_heap = \<lparr>hp_cells = [0 \<mapsto> \<lparr>ln_data = Some 10, ln_next = Some 1\<rparr>,
      1 \<mapsto> \<lparr>ln_data = Some 20, ln_next = Some 2\<rparr>, 2 \<mapsto> \<lparr>ln_data = Some 30, ln_next = None\<rparr>,
      3 \<mapsto> \<lparr>ln_data = Some 25, ln_next = None\<rparr>],
    hp_fresh = 4, hp_quota = 9, hp_freed = []\<rparr>"

definition three_list :: "nat clist" where
  "three_list = \<lparr>cl_head = Some 0, cl_tail = Some 2, cl_len = 3, cl_destructor = None\<rparr>"

lemma three_rep: "list_rep three_heap three_list [0, 1, 2]" "heap_wf three_heap"
  by (auto simp: list_rep_def three_heap_def three_list_def heap_wf_def)

definition holds :: "nat \<Rightarrow> nat heap \<Rightarrow> addr \<Rightarrow> bool" where
  "holds v h a \<longleftrightarrow> data_of h a = Some v"

text \<open>
  C30 (list_remove_first_match): \<^verbatim>\<open>list_remove\<close> on a well-formed list returns (the recursion ends), the
  list then has exactly the nodes other than the first one the comparison selects, in order and with
  their data, its length counter is right, and no node outside the list is touched. The tail pointer
  is the one thing left as it was: when the last of several nodes is the one removed, it points to
  freed memory, and the next \<^verbatim>\<open>list_push_back\<close> that gets memory writes through it.
\<close>

theorem list_remove_first_match:
  assumes rep: "list_rep h l as" and wf: "heap_wf h"
  shows "\<exists>h' l'. list_remove cmp h (Some l) (Some nd) = Some (Inr (h', Some l'))
    \<and> removal h h' (cl_head l') as (remove_first (cmp nd h) as)
    \<and> unat (cl_len l') = length (remove_first (cmp nd h) as)
    \<and> (List.find (cmp nd h) as = Some (last as) \<and> 2 \<le> length as \<and> 0 < hp_quota h' \<longrightarrow>
         list_push_back h' l' v = Inl Use_after_free)"
proof -
  from list_remove_rep [OF rep, of cmp nd] obtain h' l' where
    r: "list_remove cmp h (Some l) (Some nd) = Some (Inr (h', Some l'))"
    "removal h h' (cl_head l') as (remove_first (cmp nd h) as)"
    "unat (cl_len l') = length (remove_first (cmp nd h) as)" by blast
  with stale_tail [OF rep wf r(1)] show ?thesis by auto
qed

theorem list_remove_first_match_witness:
  "\<exists>h' l'. list_remove holds three_heap (Some three_list) (Some 30) = Some (Inr (h', Some l'))
    \<and> removal three_heap h' (cl_head l') [0, 1, 2] (remove_first (holds 30 three_heap) [0, 1, 2])
    \<and> unat (cl_len l') = length (remove_first (holds 30 three_heap) [0, 1, 2])
    \<and> (List.find (holds 30 three_heap) [0, 1, 2] = Some (last [0, 1, 2]) \<and> 2 \<le> length [0, 1, 2 :: nat]
       \<and> 0 < hp_quota h' \<longrightarrow> list_push_back h' l' (Some 40) = Inl Use_after_free)"
  by (rule list_remove_first_match [OF three_rep])

text \<open>
  Without a destructor, \<^verbatim>\<open>list_release\<close> on a well-formed list frees every node of
  the list exactly once and no other node, never touches freed memory, and with \<^verbatim>\<open>deep == 1\<close> it also
  frees every non-null data pointer, in list order. \<^verbatim>\<open>list_clear\<close> does the same and leaves the empty
  list.
\<close>

theorem list_release_frees:
  assumes "list_rep h l as" and "cl_destructor l = None"
  shows "\<exists>h'. list_release h (Some l) deep = Inr h'
    \<and> list_clear h (Some l) deep = Inr (h', Some (l\<lparr>cl_head := None, cl_tail := (if as = [] then cl_tail l else None), cl_len := 0\<rparr>))
    \<and> hp_cells h' = kill as (hp_cells h)
    \<and> hp_freed h' = (if deep = 1 then rev (map the (filter (\<lambda>d. d \<noteq> None) (datas h as))) @ hp_freed h else hp_freed h)"
proof -
  from assms have ch: "chain h (cl_head l) as" and d: "distinct as" and len: "unat (cl_len l) = length as"
    by (simp_all add: list_rep_def)
  from release_loop_chain [OF ch d, of "deep = 1"] obtain h' where
    r: "release_loop None (deep = 1) (length as) (cl_head l) h = Inr h'" "hp_cells h' = kill as (hp_cells h)"
    "hp_freed h' = (if deep = 1 then rev (map the (filter (\<lambda>d. d \<noteq> None) (datas h as))) @ hp_freed h else hp_freed h)"
    by blast
  have "cl_len l = 0" if "as = []" using len that by (simp add: unat_eq_0)
  then show ?thesis using r assms(2) len ch chain_first [OF ch]
    by (cases as) (auto simp: list_release_def list_clear_def first_ptr_def)
qed

theorem list_release_frees_witness:
  "\<exists>h'. list_release three_heap (Some three_list) 1 = Inr h'
    \<and> list_clear three_heap (Some three_list) 1 = Inr (h', Some (three_list\<lparr>cl_head := None, cl_tail := None, cl_len := 0\<rparr>))
    \<and> hp_cells h' = kill [0, 1, 2] (hp_cells three_heap) \<and> hp_freed h' = [30, 20, 10]"
  using list_release_frees [OF three_rep(1), of 1]
  by (simp add: three_list_def datas_def data_of_def three_heap_def)

text \<open>
  \<^verbatim>\<open>list_remove_node\<close> on a well-formed non-empty list. If no node matches, the list
  keeps its chain and the result is null. If the first match is not the head, that node is unlinked
  and returned. If it is the head, the list is left with the removed node alone as its chain: every
  other node is lost, although the length counter says they are still there.
\<close>

theorem list_remove_node_cases:
  assumes "list_rep h l (a # as)"
  shows "(List.find (cmp h) (a # as) = None \<longrightarrow>
       (\<exists>h'. list_remove_node cmp h (Some l) = Some (Inr (h', l, None)) \<and> chain h' (cl_head l) (a # as)))
    \<and> (\<not> cmp h a \<and> List.find (cmp h) as = Some b \<longrightarrow>
       (\<exists>h' l'. list_remove_node cmp h (Some l) = Some (Inr (h', l', Some b))
          \<and> chain h' (cl_head l') (a # remove_first (cmp h) as)
          \<and> datas h' (a # remove_first (cmp h) as) = datas h (a # remove_first (cmp h) as)
          \<and> unat (cl_len l') = length (a # remove_first (cmp h) as)))
    \<and> (cmp h a \<longrightarrow>
       (\<exists>h' l'. list_remove_node cmp h (Some l) = Some (Inr (h', l', Some a))
          \<and> chain h' (cl_head l') [a] \<and> unat (cl_len l') = length as))"
  using list_remove_node_none [OF assms] list_remove_node_inner [OF assms] list_remove_node_head [OF assms]
  by blast

theorem list_remove_node_cases_witness:
  "(\<exists>h'. list_remove_node (holds 5) three_heap (Some three_list) = Some (Inr (h', three_list, None)))
    \<and> (\<exists>h' l'. list_remove_node (holds 20) three_heap (Some three_list) = Some (Inr (h', l', Some 1))
          \<and> chain h' (cl_head l') [0, 2])
    \<and> (\<exists>h' l'. list_remove_node (holds 10) three_heap (Some three_list) = Some (Inr (h', l', Some 0))
          \<and> chain h' (cl_head l') [0] \<and> unat (cl_len l') = 2)"
  using list_remove_node_cases [OF three_rep(1), of "holds 5" 0]
    list_remove_node_cases [OF three_rep(1), of "holds 20" 1]
    list_remove_node_cases [OF three_rep(1), of "holds 10" 0]
  by (force simp: holds_def data_of_def three_heap_def)

text \<open>
  \<^verbatim>\<open>bisect_list\<close> on a chain of at least two nodes returns and cuts it in two: the
  old head now starts the first half of the nodes and the result the second half, sizes
  \<open>n div 2\<close> and the rest, no data changed.
\<close>

theorem bisect_list_halves:
  assumes "chain h p as" and "distinct as" and "2 \<le> length as"
  shows "\<exists>h' q. bisect_list h p = Some (Inr (h', q))
    \<and> chain h' p (take (length as div 2) as) \<and> chain h' q (drop (length as div 2) as)
    \<and> datas h' as = datas h as"
  by (rule bisect_list_chain [OF assms])

theorem bisect_list_halves_witness:
  "\<exists>h' q. bisect_list three_heap (Some 0) = Some (Inr (h', q)) \<and> chain h' (Some 0) [0] \<and> chain h' q [1, 2]
    \<and> datas h' [0, 1, 2] = [Some 10, Some 20, Some 30]"
  using bisect_list_halves [of three_heap "Some 0" "[0, 1, 2]"]
  by (simp add: three_heap_def datas_def data_of_def)

text \<open>
  When the comparison agrees with the order of a key of the nodes,
  \<^verbatim>\<open>list_sort_insert\<close> of a node into a chain sorted by that key returns a chain of the old nodes and
  the new one, again sorted.
\<close>

theorem list_sort_insert_sorted:
  fixes key :: "addr \<Rightarrow> 'k::linorder"
  assumes "chain h p as" and "distinct as" and "new \<notin> set as" and "hp_cells h new \<noteq> None"
    and "\<And>x. cmp h x < 0 \<longleftrightarrow> key x < key new" and "sorted (map key as)"
  shows "\<exists>h' q bs. list_sort_insert cmp h p new = Some (Inr (h', q)) \<and> chain h' q bs
    \<and> sorted (map key bs) \<and> set bs = insert new (set as) \<and> length bs = Suc (length as)"
proof -
  from assms(4) obtain m where m: "hp_cells h new = Some m" by blast
  let ?P = "\<lambda>x. cmp h x < 0"
  have "sorted (map key (takeWhile ?P as @ new # dropWhile ?P as))"
    using sorted_insert_after [OF assms(6), of new] assms(5) by simp
  moreover have "set (takeWhile ?P as @ new # dropWhile ?P as) = insert new (set as)"
    using takeWhile_dropWhile_id [of ?P as] by (metis Un_insert_right list.simps(15) set_append)
  moreover have "length (takeWhile ?P as @ new # dropWhile ?P as) = Suc (length as)"
    by (metis add_Suc_right length_Cons length_append takeWhile_dropWhile_id)
  ultimately show ?thesis using list_sort_insert_chain [OF assms(1-3) m, of cmp] by blast
qed

definition cmp_data :: "nat \<Rightarrow> nat heap \<Rightarrow> addr \<Rightarrow> int" where
  "cmp_data v h a = int (the (data_of h a)) - int v"

theorem list_sort_insert_sorted_witness:
  "\<exists>h' q bs. list_sort_insert (cmp_data 25) three_heap (Some 0) 3 = Some (Inr (h', q)) \<and> chain h' q bs
    \<and> sorted (map (\<lambda>a. the (data_of three_heap a)) bs) \<and> set bs = insert 3 (set [0, 1, 2])
    \<and> length bs = Suc (length [0, 1, 2 :: nat])"
  by (rule list_sort_insert_sorted) (simp_all add: three_heap_def cmp_data_def data_of_def)

end
