(* ===== verification/Map_Spec.thy ===== *)
theory Map_Spec
  imports Sol_Prelude
begin

text \<open>
  What the broker expects of a store that maps keys to values: a state \<open>s\<close> shows a partial function
  \<open>view s\<close>, and insertion, deletion and lookup act on it as on a function, as long as the number of
  keys stays below the capacity of the size counter. The lemma says what a whole run of
  insertions and deletions leaves, whatever the store.
\<close>

datatype ('k, 'v) map_op = Put 'k 'v | Del 'k

fun op_key :: "('k, 'v) map_op \<Rightarrow> 'k" where
  "op_key (Put k v) = k"
| "op_key (Del k) = k"

fun op_effect :: "('k, 'v) map_op \<Rightarrow> ('k \<Rightarrow> 'v option) \<Rightarrow> 'k \<Rightarrow> 'v option" where
  "op_effect (Put k v) m = m(k \<mapsto> v)"
| "op_effect (Del k) m = m(k := None)"

fun op_run :: "('s \<Rightarrow> 'k \<Rightarrow> 'v \<Rightarrow> 's) \<Rightarrow> ('s \<Rightarrow> 'k \<Rightarrow> 's) \<Rightarrow> ('k, 'v) map_op \<Rightarrow> 's \<Rightarrow> 's" where
  "op_run put del (Put k v) s = put s k v"
| "op_run put del (Del k) s = del s k"

lemma dom_op_effect: "dom (op_effect x m) \<subseteq> insert (op_key x) (dom m)"
  by (cases x) auto

lemma card_op_effect: "finite (dom m) \<Longrightarrow> card (dom (op_effect x m)) \<le> Suc (card (dom m))"
  using card_mono [OF _ dom_op_effect [of x m]] by (simp add: card_insert_if split: if_splits)

text \<open>Looking up and deleting.\<close>

locale del_store =
  fixes ok :: "'s \<Rightarrow> bool"
    and view :: "'s \<Rightarrow> 'k \<Rightarrow> 'v option"
    and del :: "'s \<Rightarrow> 'k \<Rightarrow> 's"
    and get :: "'s \<Rightarrow> 'k \<Rightarrow> 'v option"
    and key_ok :: "'k \<Rightarrow> bool"
  assumes finite_view: "ok s \<Longrightarrow> finite (dom (view s))"
    and del_law: "ok s \<Longrightarrow> key_ok k \<Longrightarrow> ok (del s k) \<and> view (del s k) = (view s)(k := None)"
    and get_law: "ok s \<Longrightarrow> key_ok k \<Longrightarrow> get s k = view s k"

text \<open>A store in which keys that are not there yet can be inserted, as long as there is memory.\<close>

locale fresh_store = del_store +
  fixes put_new :: "'s \<Rightarrow> 'k \<Rightarrow> 'v \<Rightarrow> 's option"
  assumes put_new_law: "ok s \<Longrightarrow> key_ok k \<Longrightarrow> view s k = None \<Longrightarrow> put_new s k v = Some s' \<Longrightarrow>
      ok s' \<and> view s' = (view s)(k \<mapsto> v)"
begin

lemma put_new_get:
  assumes "ok s" "key_ok k" "view s k = None" "put_new s k v = Some s'" "key_ok k'"
  shows "get s' k' = (if k' = k then Some v else get s k')"
  using put_new_law [OF assms(1-4)] get_law assms by auto

lemma put_new_many:
  "ok s \<Longrightarrow> \<forall>(k, v) \<in> set kvs. key_ok k \<and> view s k = None \<Longrightarrow> distinct (map fst kvs) \<Longrightarrow>
     fold_opt (\<lambda>s (k, v). put_new s k v) kvs s = Some s' \<Longrightarrow>
     ok s' \<and> view s' = view s ++ map_of kvs"
proof (induction kvs arbitrary: s)
  case (Cons kv kvs)
  obtain k v where kv: "kv = (k, v)" by force
  from Cons.prems(4) kv obtain s1 where s1: "put_new s k v = Some s1"
    "fold_opt (\<lambda>s (k, v). put_new s k v) kvs s1 = Some s'" by (auto split: option.splits)
  have st: "ok s1" "view s1 = (view s)(k \<mapsto> v)"
    using put_new_law [OF Cons.prems(1) _ _ s1(1)] Cons.prems(2) kv by auto
  have "\<forall>(k', v') \<in> set kvs. key_ok k' \<and> view s1 k' = None"
    using Cons.prems(2,3) kv st(2) by (force simp: image_iff)
  from Cons.IH [OF st(1) this _ s1(2)] Cons.prems(3) have "ok s'" "view s' = view s1 ++ map_of kvs" by auto
  moreover have "map_of kvs k = None" using Cons.prems(3) kv by (simp add: map_of_eq_None_iff)
  then have "view s1 ++ map_of kvs = view s ++ map_of (kv # kvs)"
    by (simp add: kv st(2) map_add_def fun_eq_iff split: option.split)
  ultimately show ?case by metis
qed simp

end

text \<open>A store with insertion and overwriting of keys up to a number of keys.\<close>

locale map_store = del_store +
  fixes put :: "'s \<Rightarrow> 'k \<Rightarrow> 'v \<Rightarrow> 's"
    and limit :: nat
  assumes put_law: "ok s \<Longrightarrow> key_ok k \<Longrightarrow> Suc (card (dom (view s))) < limit \<Longrightarrow>
        ok (put s k v) \<and> view (put s k v) = (view s)(k \<mapsto> v)"
begin

lemma run_one:
  assumes "ok s" and "key_ok (op_key x)" and "Suc (card (dom (view s))) < limit"
  shows "ok (op_run put del x s) \<and> view (op_run put del x s) = op_effect x (view s)"
  using assms put_law del_law by (cases x) auto

lemma run_many:
  "ok s \<Longrightarrow> \<forall>x \<in> set xs. key_ok (op_key x) \<Longrightarrow> card (dom (view s)) + length xs < limit \<Longrightarrow>
     ok (fold (op_run put del) xs s) \<and> view (fold (op_run put del) xs s) = fold op_effect xs (view s)"
proof (induction xs arbitrary: s)
  case (Cons x xs)
  from Cons.prems have one: "ok (op_run put del x s)" "view (op_run put del x s) = op_effect x (view s)"
    using run_one [of s x] by auto
  moreover have "card (dom (op_effect x (view s))) \<le> Suc (card (dom (view s)))"
    using card_op_effect finite_view Cons.prems(1) by blast
  ultimately show ?case using Cons.IH [OF one(1)] Cons.prems by simp
qed simp

end

text \<open>A store that overwrites also inserts what is not there yet.\<close>

sublocale map_store \<subseteq> fresh: fresh_store ok view del get key_ok
    "\<lambda>s k v. if Suc (card (dom (view s))) < limit then Some (put s k v) else None"
  by unfold_locales (auto simp: put_law split: if_splits)

end
