(* ===== verification/Trie.thy ===== *)
theory Trie
  imports Clist Map_Spec "HOL-Library.Multiset" "HOL-Library.Sublist"
begin

text \<open>
  \<^verbatim>\<open>src/sol/src/trie.c\<close>: the trie that maps topic names to topics.

  \<^item> a node is \<open>TNode chr children data\<close>; the children are the functional list that \<open>list_rep\<close> of
    theory \<^verbatim>\<open>Clist\<close> relates to a chain of nodes, \<^verbatim>\<open>children->len == 0\<close> is the empty list, and the one use
    of \<^verbatim>\<open>list_remove\<close> and \<^verbatim>\<open>bisect_list\<close> follow the lemmas of that theory. A null \<^verbatim>\<open>data\<close> pointer is \<open>None\<close>.
  \<^item> \<^verbatim>\<open>char\<close> is signed on the target: comparisons of characters go through \<open>sint\<close>. A key is the list of
    the bytes of a C string before its terminator.
  \<^item> the size counter and the data pointers handed to \<^verbatim>\<open>free\<close> are threaded as a pair of type \<open>tmem\<close>;
    every \<^verbatim>\<open>malloc\<close> of this file is taken to succeed (the code does not test them).
\<close>

section \<open>Nodes, searching and sorting of children\<close>

datatype 'd tnode = TNode (tn_chr: u8) (tn_children: "'d tnode list") (tn_data: "'d option")

record 'd trie =
  trie_root :: "'d tnode"
  trie_count :: u64

text \<open>The size counter and the data freed so far, the latest first.\<close>

type_synonym 'd tmem = "u64 \<times> 'd list"

definition tn_val :: "'d tnode \<Rightarrow> int" where
  "tn_val n = sint (tn_chr n)"

fun merge_tnode_list :: "'d tnode list \<Rightarrow> 'd tnode list \<Rightarrow> 'd tnode list" where
  "merge_tnode_list (n1 # l1) (n2 # l2) =
     (if tn_val n1 \<le> tn_val n2 then n1 # merge_tnode_list l1 (n2 # l2)
      else n2 # merge_tnode_list (n1 # l1) l2)"
| "merge_tnode_list [] l2 = l2"
| "merge_tnode_list l1 [] = l1"

function merge_sort_tnode :: "'d tnode list \<Rightarrow> 'd tnode list" where
  "merge_sort_tnode l =
     (if length l \<le> 1 then l
      else merge_tnode_list (merge_sort_tnode (take (length l div 2) l))
                            (merge_sort_tnode (drop (length l div 2) l)))"
  by auto
termination by (relation "measure length") auto

declare merge_sort_tnode.simps [simp del]

fun linear_search :: "'d tnode list \<Rightarrow> int \<Rightarrow> 'd tnode option" where
  "linear_search [] value = None"
| "linear_search (n # ns) value =
     (if tn_val n = value then Some n
      else if tn_val n > value then None
      else linear_search ns value)"

text \<open>Writing to the node that \<^verbatim>\<open>linear_search\<close> returned.\<close>

fun child_update :: "'d tnode list \<Rightarrow> int \<Rightarrow> 'd tnode \<Rightarrow> 'd tnode list" where
  "child_update [] value n' = []"
| "child_update (n # ns) value n' = (if tn_val n = value then n' # ns else n # child_update ns value n')"

definition with_char :: "u8 \<Rightarrow> 'd tnode \<Rightarrow> bool" where
  "with_char c n \<longleftrightarrow> tn_chr n = c"

definition trie_is_free_node :: "'d tnode \<Rightarrow> bool" where
  "trie_is_free_node n \<longleftrightarrow> tn_children n = []"

fun trie_node_find :: "'d tnode \<Rightarrow> u8 list \<Rightarrow> 'd tnode option" where
  "trie_node_find node [] = Some node"
| "trie_node_find node (c # pre) =
     (case linear_search (tn_children node) (sint c) of
        None \<Rightarrow> None
      | Some child \<Rightarrow> trie_node_find child pre)"

definition trie_create_node :: "u8 \<Rightarrow> 'd tnode" where
  "trie_create_node c = TNode c [] None"

definition trie_init :: "'d trie" where
  "trie_init = \<lparr>trie_root = trie_create_node 32, trie_count = 0\<rparr>"

definition trie_create :: "'d trie" where
  "trie_create = trie_init"

definition trie_size :: "'d trie \<Rightarrow> u64" where
  "trie_size t = trie_count t"

section \<open>Insertion, deletion, search\<close>

text \<open>
  A new child is pushed, the list sorted, and the walk goes on in the new child: sorting only
  looks at the character of a node, so the child is put in place with its final contents.
\<close>

fun trie_node_insert :: "'d tnode \<Rightarrow> u8 list \<Rightarrow> 'd option \<Rightarrow> u64 \<Rightarrow> 'd tnode \<times> u64" where
  "trie_node_insert cursor [] data sz =
     (TNode (tn_chr cursor) (tn_children cursor) data,
      if tn_data cursor = None then sz + 1 else sz)"
| "trie_node_insert cursor (c # key) data sz =
     (case linear_search (tn_children cursor) (sint c) of
        None \<Rightarrow>
          (let (n', sz') = trie_node_insert (trie_create_node c) key data sz
           in (TNode (tn_chr cursor) (merge_sort_tnode (n' # tn_children cursor)) (tn_data cursor), sz'))
      | Some n \<Rightarrow>
          (let (n', sz') = trie_node_insert n key data sz
           in (TNode (tn_chr cursor) (child_update (tn_children cursor) (sint c) n') (tn_data cursor), sz')))"

definition dec_size :: "u64 \<Rightarrow> u64" where
  "dec_size s = (if s > 0 then s - 1 else s)"

text \<open>\<^verbatim>\<open>trie_node_free\<close>: the children first, then the data, then the node.\<close>

fun trie_node_free :: "'d tnode \<Rightarrow> 'd tmem \<Rightarrow> 'd tmem"
  and trie_free_children :: "'d tnode list \<Rightarrow> 'd tmem \<Rightarrow> 'd tmem" where
  "trie_node_free (TNode c ch d) m =
     (let (s, fr) = trie_free_children ch m in
      case d of Some x \<Rightarrow> (dec_size s, x # fr) | None \<Rightarrow> (s, fr))"
| "trie_free_children [] m = m"
| "trie_free_children (n # ns) m = trie_free_children ns (trie_node_free n m)"

text \<open>The result: the node, the size and freed data, the \<^verbatim>\<open>found\<close> flag, the returned flag.\<close>

fun trie_node_recursive_delete :: "'d tnode \<Rightarrow> u8 list \<Rightarrow> 'd tmem \<Rightarrow> bool
    \<Rightarrow> 'd tnode \<times> 'd tmem \<times> bool \<times> bool" where
  "trie_node_recursive_delete node [] m found =
     (case tn_data node of
        Some x \<Rightarrow> (TNode (tn_chr node) (tn_children node) None, (dec_size (fst m), x # snd m), True,
                   trie_is_free_node node)
      | None \<Rightarrow> (node, m, found, False))"
| "trie_node_recursive_delete node (c # key) m found =
     (case linear_search (tn_children node) (sint c) of
        None \<Rightarrow> (node, m, found, False)
      | Some child \<Rightarrow>
          (let (child', m', found', del) = trie_node_recursive_delete child key m found in
           if del
           then (let node' = TNode (tn_chr node) (remove_first (with_char c) (tn_children node)) (tn_data node)
                 in (node', trie_node_free child' m', found',
                     tn_data node' = None \<and> trie_is_free_node node'))
           else (TNode (tn_chr node) (child_update (tn_children node) (sint c) child') (tn_data node),
                 m', found', False)))"

definition trie_node_search :: "'d tnode \<Rightarrow> u8 list \<Rightarrow> bool \<times> 'd option" where
  "trie_node_search root key =
     (let ret = (case trie_node_find root key of Some cursor \<Rightarrow> tn_data cursor | None \<Rightarrow> None)
      in (ret \<noteq> None, ret))"

definition trie_insert :: "'d trie \<Rightarrow> u8 list \<Rightarrow> 'd option \<Rightarrow> 'd trie" where
  "trie_insert t key data =
     (let (r, s) = trie_node_insert (trie_root t) key data (trie_count t)
      in t\<lparr>trie_root := r, trie_count := s\<rparr>)"

text \<open>The trie, the data freed and the \<^verbatim>\<open>found\<close> flag.\<close>

definition trie_delete :: "'d trie \<Rightarrow> u8 list \<Rightarrow> 'd trie \<times> 'd list \<times> bool" where
  "trie_delete t key =
     (if length key > 0
      then (let (r, (s, fr), found, _) = trie_node_recursive_delete (trie_root t) key (trie_count t, []) False
            in (t\<lparr>trie_root := r, trie_count := s\<rparr>, fr, found))
      else (t, [], False))"

definition trie_find :: "'d trie \<Rightarrow> u8 list \<Rightarrow> bool \<times> 'd option" where
  "trie_find t key = trie_node_search (trie_root t) key"

section \<open>Operations on prefixes\<close>

text \<open>\<^verbatim>\<open>list_clear\<close> on the children of the node at the end of the prefix.\<close>

fun clear_children :: "'d tnode \<Rightarrow> u8 list \<Rightarrow> 'd tnode" where
  "clear_children node [] = TNode (tn_chr node) [] (tn_data node)"
| "clear_children node (c # pre) =
     (case linear_search (tn_children node) (sint c) of
        None \<Rightarrow> node
      | Some child \<Rightarrow>
          TNode (tn_chr node) (child_update (tn_children node) (sint c) (clear_children child pre)) (tn_data node))"

text \<open>
  Between the loop and \<^verbatim>\<open>list_clear\<close> the list of children still has its length, with null data; the
  call to \<^verbatim>\<open>trie_delete\<close> in between reads that length only, so the children are kept until they are
  cleared.
\<close>

definition trie_prefix_delete :: "'d trie \<Rightarrow> u8 list \<Rightarrow> 'd trie \<times> 'd list" where
  "trie_prefix_delete t pre =
     (case trie_node_find (trie_root t) pre of
        None \<Rightarrow> (t, [])
      | Some cursor \<Rightarrow>
          (if tn_children cursor = []
           then (let (t', fr, _) = trie_delete t pre in (t', fr))
           else (let (s, fr) = trie_free_children (tn_children cursor) (trie_count t, []);
                     (t', fr', _) = trie_delete (t\<lparr>trie_count := s\<rparr>) pre
                 in (t'\<lparr>trie_root := clear_children (trie_root t') pre\<rparr>, fr' @ fr))))"

text \<open>
  \<open>mapfunc node arg\<close> is the effect of the callback on \<open>arg\<close> and on what the data pointers point to.
\<close>

fun trie_prefix_map_func2 :: "'d tnode \<Rightarrow> ('d tnode \<Rightarrow> 'a \<Rightarrow> 'a) \<Rightarrow> 'a \<Rightarrow> 'a"
  and map_func_children :: "'d tnode list \<Rightarrow> ('d tnode \<Rightarrow> 'a \<Rightarrow> 'a) \<Rightarrow> 'a \<Rightarrow> 'a" where
  "trie_prefix_map_func2 (TNode c ch d) mapfunc arg =
     (if trie_is_free_node (TNode c ch d) then mapfunc (TNode c ch d) arg
      else mapfunc (TNode c ch d) (map_func_children ch mapfunc arg))"
| "map_func_children [] mapfunc arg = arg"
| "map_func_children (n # ns) mapfunc arg =
     map_func_children ns mapfunc (trie_prefix_map_func2 n mapfunc arg)"

definition trie_prefix_map_tuple :: "'d trie \<Rightarrow> u8 list option \<Rightarrow> ('d tnode \<Rightarrow> 'a \<Rightarrow> 'a) \<Rightarrow> 'a \<Rightarrow> 'a" where
  "trie_prefix_map_tuple t pre mapfunc arg =
     (case pre of
        None \<Rightarrow> trie_prefix_map_func2 (trie_root t) mapfunc arg
      | Some p \<Rightarrow>
          (case trie_node_find (trie_root t) p of
             None \<Rightarrow> arg
           | Some node \<Rightarrow> trie_prefix_map_func2 node mapfunc arg))"

definition trie_release :: "'d trie option \<Rightarrow> 'd list" where
  "trie_release t = (case t of None \<Rightarrow> []
     | Some t \<Rightarrow> snd (trie_node_free (trie_root t) (trie_count t, [])))"

section \<open>Sorting\<close>

lemma sint_inj_u8 [simp]: "sint (a :: u8) = sint b \<longleftrightarrow> a = b"
  by (simp add: signed_word_eqI inj_eq)

lemma tn_val_eq: "tn_val n = sint c \<longleftrightarrow> tn_chr n = c"
  by (simp add: tn_val_def)

lemma mset_merge: "mset (merge_tnode_list l1 l2) = mset l1 + mset l2"
  by (induction l1 l2 rule: merge_tnode_list.induct) auto

lemma set_merge [simp]: "set (merge_tnode_list l1 l2) = set l1 \<union> set l2"
  using mset_merge by (metis set_mset_mset set_mset_union)

lemma sorted_merge: "sorted (map tn_val l1) \<Longrightarrow> sorted (map tn_val l2) \<Longrightarrow> sorted (map tn_val (merge_tnode_list l1 l2))"
  by (induction l1 l2 rule: merge_tnode_list.induct) (auto intro: order_trans less_imp_le)

lemma mset_merge_sort: "mset (merge_sort_tnode l) = mset l"
proof (induction l rule: merge_sort_tnode.induct)
  case (1 l)
  show ?case
  proof (cases "length l \<le> 1")
    case False
    have "mset (take (length l div 2) l) + mset (drop (length l div 2) l) = mset l"
      by (simp flip: mset_append)
    with 1 False show ?thesis by (simp add: merge_sort_tnode.simps [of l] mset_merge)
  qed (simp add: merge_sort_tnode.simps [of l])
qed

lemma sorted_merge_sort: "sorted (map tn_val (merge_sort_tnode l))"
proof (induction l rule: merge_sort_tnode.induct)
  case (1 l)
  show ?case
  proof (cases "length l \<le> 1")
    case True
    then have "merge_sort_tnode l = l" by (simp add: merge_sort_tnode.simps [of l])
    then show ?thesis using True by (cases l) auto
  next
    case False
    then show ?thesis using 1 by (simp add: merge_sort_tnode.simps [of l] sorted_merge)
  qed
qed

text \<open>
  Merging is stable: nodes with the same character keep their order.
\<close>

lemma merge_same_chr:
  "sorted (map tn_val l1) \<Longrightarrow>
   filter (\<lambda>n. tn_val n = v) (merge_tnode_list l1 l2) = filter (\<lambda>n. tn_val n = v) l1 @ filter (\<lambda>n. tn_val n = v) l2"
proof (induction l1 l2 rule: merge_tnode_list.induct)
  case (1 n1 l1 n2 l2)
  have "filter (\<lambda>n. tn_val n = v) (n1 # l1) = []" if "tn_val n2 < tn_val n1" "tn_val n2 = v"
    using that 1(3) by (auto simp: filter_empty_conv)
  with 1 show ?case by (auto simp: not_le)
qed auto

lemma merge_sort_stable: "filter (\<lambda>n. tn_val n = v) (merge_sort_tnode l) = filter (\<lambda>n. tn_val n = v) l"
proof (induction l rule: merge_sort_tnode.induct)
  case (1 l)
  show ?case
  proof (cases "length l \<le> 1")
    case False
    have "filter (\<lambda>n. tn_val n = v) (take (length l div 2) l) @ filter (\<lambda>n. tn_val n = v) (drop (length l div 2) l)
        = filter (\<lambda>n. tn_val n = v) l" by (simp flip: filter_append)
    with 1 False show ?thesis
      by (simp add: merge_sort_tnode.simps [of l] merge_same_chr sorted_merge_sort)
  qed (simp add: merge_sort_tnode.simps [of l])
qed

section \<open>Children as a finite map\<close>

named_theorems child_simps \<open>how the operations on children act on the map they stand for\<close>

definition child :: "'d tnode list \<Rightarrow> u8 \<Rightarrow> 'd tnode option" where
  "child ns c = List.find (\<lambda>n. tn_chr n = c) ns"

definition kids_ok :: "'d tnode list \<Rightarrow> bool" where
  "kids_ok ns \<longleftrightarrow> sorted_wrt (<) (map tn_val ns)"

lemma kids_ok_Cons: "kids_ok (n # ns) \<longleftrightarrow> (\<forall>m \<in> set ns. tn_val n < tn_val m) \<and> kids_ok ns"
  by (simp add: kids_ok_def)

lemma kids_ok_Nil [simp]: "kids_ok []" by (simp add: kids_ok_def)

lemma child_Nil [simp]: "child [] c = None" by (simp add: child_def)

lemma linear_search_child [child_simps]: "kids_ok ns \<Longrightarrow> linear_search ns (sint c) = child ns c"
proof (induction ns)
  case (Cons n ns)
  have "child ns c = None" if "sint c < tn_val n"
    using Cons.prems that by (force simp: child_def find_None_iff kids_ok_Cons tn_val_def)
  with Cons show ?case by (auto simp: kids_ok_Cons child_def tn_val_eq)
qed simp

lemma kids_ok_distinct: "kids_ok ns \<Longrightarrow> distinct (map tn_chr ns)"
  by (induction ns) (force simp: kids_ok_Cons tn_val_def)+

lemma kids_ok_iff: "kids_ok ns \<longleftrightarrow> sorted (map tn_val ns) \<and> distinct (map tn_chr ns)"
proof -
  have "distinct (map tn_chr ns) \<longleftrightarrow> distinct (map tn_val ns)"
    by (induction ns) (auto simp: tn_val_def)
  then show ?thesis by (simp add: kids_ok_def strict_sorted_iff)
qed

lemma child_Some: "kids_ok ns \<Longrightarrow> child ns c = Some n \<longleftrightarrow> n \<in> set ns \<and> tn_chr n = c"
proof (induction ns)
  case (Cons m ns)
  have "tn_chr x \<noteq> tn_chr m" if "x \<in> set ns" for x
    using kids_ok_distinct [OF Cons.prems] that by (simp add: image_iff) (metis)
  moreover from Cons have "child ns c = Some n \<longleftrightarrow> n \<in> set ns \<and> tn_chr n = c" by (simp add: kids_ok_Cons)
  ultimately show ?case by (cases "tn_chr m = c"; cases "m = n") (fastforce simp: child_def)+
qed simp

lemma child_None: "child ns c = None \<longleftrightarrow> c \<notin> tn_chr ` set ns"
  by (auto simp: child_def find_None_iff)

lemma child_chr: "child ns c = Some n \<Longrightarrow> tn_chr n = c"
  by (auto simp: child_def find_Some_iff)

lemma child_in: "child ns c = Some n \<Longrightarrow> n \<in> set ns"
  by (auto simp: child_def find_Some_iff)

lemma kids_ok_insert: "kids_ok ns \<Longrightarrow> child ns (tn_chr n) = None \<Longrightarrow> kids_ok (merge_sort_tnode (n # ns))"
proof -
  assume a: "kids_ok ns" "child ns (tn_chr n) = None"
  have "mset (map tn_chr (merge_sort_tnode (n # ns))) = mset (map tn_chr (n # ns))"
    unfolding mset_map mset_merge_sort ..
  then have "distinct (map tn_chr (merge_sort_tnode (n # ns))) \<longleftrightarrow> distinct (map tn_chr (n # ns))"
    by (rule mset_eq_imp_distinct_iff)
  then show ?thesis using a kids_ok_distinct [of ns] by (simp add: kids_ok_iff sorted_merge_sort child_None)
qed

lemma set_merge_sort [simp]: "set (merge_sort_tnode l) = set l"
  using mset_merge_sort by (metis set_mset_mset)

lemma child_insert [child_simps]: "kids_ok ns \<Longrightarrow> child ns (tn_chr n) = None \<Longrightarrow>
    child (merge_sort_tnode (n # ns)) = (child ns)(tn_chr n \<mapsto> n)"
proof
  fix c assume a: "kids_ok ns" "child ns (tn_chr n) = None"
  show "child (merge_sort_tnode (n # ns)) c = ((child ns)(tn_chr n \<mapsto> n)) c"
  proof (cases "child (merge_sort_tnode (n # ns)) c")
    case None
    then have "c \<noteq> tn_chr n" "child ns c = None" by (auto simp: child_None)
    then show ?thesis using None by simp
  next
    case (Some m)
    then have m: "m \<in> set (n # ns)" "tn_chr m = c" using a by (simp_all add: child_Some kids_ok_insert)
    show ?thesis
    proof (cases "m = n")
      case False
      then have "child ns c = Some m" using a m by (simp add: child_Some)
      moreover have "c \<noteq> tn_chr n" using a(2) m False by (metis child_None image_eqI set_ConsD)
      ultimately show ?thesis using Some by simp
    qed (use Some m in simp)
  qed
qed

lemma map_chr_update: "tn_chr n' = c \<Longrightarrow> map tn_chr (child_update ns (sint c) n') = map tn_chr ns"
  by (induction ns) (auto simp: tn_val_eq)

lemma kids_ok_update: "kids_ok ns \<Longrightarrow> tn_chr n' = c \<Longrightarrow> kids_ok (child_update ns (sint c) n')"
proof -
  assume a: "kids_ok ns" "tn_chr n' = c"
  have "map tn_val ms = map sint (map tn_chr ms)" for ms :: "'a tnode list" by (simp add: tn_val_def)
  then show ?thesis using a unfolding kids_ok_def by (metis map_chr_update)
qed

lemma child_child_update [child_simps]:
  "tn_chr n' = c \<Longrightarrow> child ns c \<noteq> None \<Longrightarrow> child (child_update ns (sint c) n') = (child ns)(c \<mapsto> n')"
  by (rule ext, induction ns) (auto simp: child_def tn_val_eq)

lemma kids_ok_remove: "kids_ok ns \<Longrightarrow> kids_ok (remove_first P ns)"
proof (induction ns)
  case (Cons n ns)
  then show ?case using remove_first_subset [of P ns] by (auto simp: kids_ok_Cons)
qed simp

lemma child_remove [child_simps]: "kids_ok ns \<Longrightarrow> child (remove_first (with_char c) ns) = (child ns)(c := None)"
proof (rule ext, induction ns)
  case (Cons n ns)
  have "child ns (tn_chr n) = None" using kids_ok_distinct [OF Cons.prems] by (simp add: child_None)
  with Cons show ?case by (auto simp: with_char_def child_def kids_ok_Cons)
qed simp

section \<open>Well-formed nodes and what they map\<close>

fun wf_tnode :: "'d tnode \<Rightarrow> bool" where
  "wf_tnode (TNode c ch d) \<longleftrightarrow> kids_ok ch \<and> (\<forall>n \<in> set ch. wf_tnode n)"

lemma wf_tnode_iff: "wf_tnode n \<longleftrightarrow> kids_ok (tn_children n) \<and> (\<forall>m \<in> set (tn_children n). wf_tnode m)"
  by (cases n) simp

definition lookup :: "'d tnode \<Rightarrow> u8 list \<Rightarrow> 'd option" where
  "lookup n key = snd (trie_node_search n key)"

lemma lookup_Nil [simp]: "lookup n [] = tn_data n"
  by (simp add: lookup_def trie_node_search_def Let_def)

lemma lookup_Cons:
  "wf_tnode n \<Longrightarrow> lookup n (c # key) = (case child (tn_children n) c of None \<Rightarrow> None | Some m \<Rightarrow> lookup m key)"
  using linear_search_child [of "tn_children n" c]
  by (cases n) (simp add: lookup_def trie_node_search_def Let_def split: option.split)

lemma lookup_TNode: "wf_tnode (TNode c ch d) \<Longrightarrow> lookup (TNode c ch d) =
    (\<lambda>key. case key of [] \<Rightarrow> d | a # key' \<Rightarrow> (case child ch a of None \<Rightarrow> None | Some m \<Rightarrow> lookup m key'))"
  by (rule ext) (simp add: lookup_Cons split: list.split)

lemma wf_child: "wf_tnode n \<Longrightarrow> child (tn_children n) c = Some m \<Longrightarrow> wf_tnode m"
  by (cases n) (auto dest: child_in)

lemma wf_create [simp]: "wf_tnode (trie_create_node c)" by (simp add: trie_create_node_def)

lemma chr_create [simp]: "tn_chr (trie_create_node c) = c" by (simp add: trie_create_node_def)

lemma lookup_create [simp]: "lookup (trie_create_node c) key = None"
  by (simp add: trie_create_node_def lookup_TNode split: list.split)

lemma set_child_update: "set (child_update ns v n') \<subseteq> insert n' (set ns)"
  by (induction ns) auto

lemma node_insert_spec:
  assumes "wf_tnode n" and "trie_node_insert n key d sz = (n', sz')"
  shows "wf_tnode n' \<and> tn_chr n' = tn_chr n \<and> lookup n' = (lookup n)(key := d)
    \<and> sz' = (if lookup n key = None then sz + 1 else sz)"
  using assms
proof (induction key arbitrary: n n' sz')
  case Nil
  obtain c ch e where n: "n = TNode c ch e" by (cases n)
  have "lookup (TNode c ch d) = (lookup n)([] := d)"
    using Nil.prems(1) n by (auto simp: lookup_TNode fun_eq_iff split: list.splits)
  then show ?case using Nil n by auto
next
  case (Cons c key)
  obtain b ch e where n: "n = TNode b ch e" by (cases n)
  have ok: "kids_ok ch" and kids: "\<forall>m \<in> set ch. wf_tnode m" using Cons.prems(1) n by auto
  show ?case
  proof (cases "child ch c")
    case None
    obtain m sz1 where r: "trie_node_insert (trie_create_node c) key d sz = (m, sz1)" by force
    from Cons.IH [OF wf_create r] have m: "wf_tnode m" "tn_chr m = c" "sz1 = sz + 1"
      "lookup m = (\<lambda>a. if a = key then d else None)" by (auto simp: fun_eq_iff)
    have n': "n' = TNode b (merge_sort_tnode (m # ch)) e" "sz' = sz1"
      using Cons.prems(2) None r ok by (simp_all add: n child_simps)
    have wf': "wf_tnode n'" using n' m ok kids None by (simp add: kids_ok_insert)
    moreover have "lookup n' = (lookup n)(c # key := d)"
      using wf' Cons.prems(1) m ok None
      by (auto simp: n' n lookup_TNode child_simps fun_eq_iff split: list.splits)
    ultimately show ?thesis using n' n m None ok Cons.prems(1) by (simp add: lookup_Cons)
  next
    case (Some k)
    obtain m sz1 where r: "trie_node_insert k key d sz = (m, sz1)" by force
    have k: "wf_tnode k" "tn_chr k = c" using Some kids child_in child_chr by blast+
    from Cons.IH [OF k(1) r] have m: "wf_tnode m" "tn_chr m = c" "lookup m = (lookup k)(key := d)"
      "sz1 = (if lookup k key = None then sz + 1 else sz)" using k(2) by blast+
    have n': "n' = TNode b (child_update ch (sint c) m) e" "sz' = sz1"
      using Cons.prems(2) Some r ok by (simp_all add: n child_simps)
    have "\<forall>x \<in> set (child_update ch (sint c) m). wf_tnode x"
      using set_child_update [of ch "sint c" m] kids m(1) by blast
    then have wf': "wf_tnode n'" using n' m ok by (simp add: kids_ok_update)
    moreover have "lookup n' = (lookup n)(c # key := d)"
      using wf' Cons.prems(1) m ok Some
      by (auto simp: n' n lookup_TNode child_simps fun_eq_iff split: list.splits)
    ultimately show ?thesis using n' n m Some Cons.prems(1) by (simp add: lookup_Cons)
  qed
qed

lemma free_leaf: "tn_children n = [] \<Longrightarrow> tn_data n = None \<Longrightarrow> trie_node_free n m = m"
  by (cases n) auto

definition freed_mem :: "'d option \<Rightarrow> 'd tmem \<Rightarrow> 'd tmem" where
  "freed_mem r m = (case r of None \<Rightarrow> m | Some x \<Rightarrow> (dec_size (fst m), x # snd m))"

lemma node_delete_spec:
  assumes "wf_tnode n" and "trie_node_recursive_delete n key m found = (n', m', found', del)"
  shows "wf_tnode n' \<and> tn_chr n' = tn_chr n \<and> lookup n' = (lookup n)(key := None)
    \<and> m' = freed_mem (lookup n key) m \<and> found' = (found \<or> lookup n key \<noteq> None)
    \<and> (del \<longrightarrow> tn_children n' = [] \<and> tn_data n' = None)"
  using assms
proof (induction key arbitrary: n n' m' found' del)
  case Nil
  obtain c ch e where n: "n = TNode c ch e" by (cases n)
  have "lookup (TNode c ch None) = (lookup n)([] := None)"
    using Nil.prems(1) n by (auto simp: lookup_TNode fun_eq_iff split: list.splits)
  then show ?case using Nil n
    by (auto simp: freed_mem_def trie_is_free_node_def fun_upd_idem split: option.splits)
next
  case (Cons c key)
  obtain b ch e where n: "n = TNode b ch e" by (cases n)
  have ok: "kids_ok ch" and kids: "\<forall>m \<in> set ch. wf_tnode m" using Cons.prems(1) n by auto
  show ?case
  proof (cases "child ch c")
    case None
    then have "lookup n (c # key) = None" using Cons.prems(1) by (simp add: lookup_Cons n)
    then show ?thesis using Cons.prems None ok
      by (auto simp: n child_simps freed_mem_def fun_upd_idem)
  next
    case (Some k)
    obtain k' m1 f1 d1 where r: "trie_node_recursive_delete k key m found = (k', m1, f1, d1)"
      by (metis prod_cases4)
    have k: "wf_tnode k" "tn_chr k = c" using Some kids child_in child_chr by blast+
    from Cons.IH [OF k(1) r] have k': "wf_tnode k'" "tn_chr k' = c" "lookup k' = (lookup k)(key := None)"
      "m1 = freed_mem (lookup k key) m" "f1 = (found \<or> lookup k key \<noteq> None)"
      "d1 \<Longrightarrow> tn_children k' = [] \<and> tn_data k' = None" using k(2) by blast+
    have lk: "lookup n (c # key) = lookup k key" using Cons.prems(1) Some by (simp add: lookup_Cons n)
    show ?thesis
    proof (cases d1)
      case True
      have n': "n' = TNode b (remove_first (with_char c) ch) e" "m' = m1" "found' = f1"
        "del \<longleftrightarrow> e = None \<and> remove_first (with_char c) ch = []"
        using Cons.prems(2) Some r ok True free_leaf [of k' m1] k'(6)
        by (simp_all add: n child_simps Let_def trie_is_free_node_def)
      have "lookup k' = (\<lambda>_. None)"
        using k'(1,6) True by (cases k') (auto simp: lookup_TNode fun_eq_iff split: list.splits)
      then have none: "lookup k x = None" if "x \<noteq> key" for x using k'(3) that by (metis fun_upd_other)
      have wf': "wf_tnode n'"
        using n' ok kids remove_first_subset [of "with_char c" ch] by (auto simp: kids_ok_remove)
      moreover have "lookup n' = (lookup n)(c # key := None)"
        using wf' Cons.prems(1) ok Some none
        by (auto simp: n' n lookup_TNode child_simps fun_eq_iff split: list.splits)
      ultimately show ?thesis using n' n k' lk by simp
    next
      case False
      have n': "n' = TNode b (child_update ch (sint c) k') e" "m' = m1" "found' = f1" "\<not> del"
        using Cons.prems(2) Some r ok False by (auto simp: n child_simps)
      have "\<forall>x \<in> set (child_update ch (sint c) k'). wf_tnode x"
        using set_child_update [of ch "sint c" k'] kids k'(1) by blast
      then have wf': "wf_tnode n'" using n' k' ok by (simp add: kids_ok_update)
      moreover have "lookup n' = (lookup n)(c # key := None)"
        using wf' Cons.prems(1) k' ok Some
        by (auto simp: n' n lookup_TNode child_simps fun_eq_iff split: list.splits)
      ultimately show ?thesis using n' n k' lk by simp
    qed
  qed
qed

section \<open>The entries below a node\<close>

fun entries :: "'d tnode \<Rightarrow> (u8 list \<times> 'd) list"
  and entries_of :: "'d tnode list \<Rightarrow> (u8 list \<times> 'd) list" where
  "entries (TNode c ch d) = entries_of ch @ (case d of None \<Rightarrow> [] | Some x \<Rightarrow> [([], x)])"
| "entries_of [] = []"
| "entries_of (n # ns) = map (\<lambda>(k, x). (tn_chr n # k, x)) (entries n) @ entries_of ns"

lemma entries_of_hd: "(k, x) \<in> set (entries_of ns) \<Longrightarrow> \<exists>n \<in> set ns. \<exists>k'. k = tn_chr n # k'"
  by (induction ns) auto

lemma entries_keys:
  fixes n :: "'d tnode" and ns :: "'d tnode list"
  shows
  "wf_tnode n \<Longrightarrow> distinct (map fst (entries n))"
  "kids_ok ns \<Longrightarrow> \<forall>n \<in> set ns. wf_tnode n \<Longrightarrow> distinct (map fst (entries_of ns))"
proof (induction n and ns rule: entries_entries_of.induct)
  case (1 c ch d)
  have "[] \<notin> fst ` set (entries_of ch)" using entries_of_hd by fastforce
  with 1 show ?case by (auto split: option.splits)
next
  case (3 n ns)
  have "map fst (map (\<lambda>(k, x). (tn_chr n # k, x)) (entries n)) = map ((#) (tn_chr n)) (map fst (entries n))"
    by (auto simp: split_beta)
  moreover have "distinct (map ((#) (tn_chr n)) (map fst (entries n)))"
    using 3 by (subst distinct_map) (auto simp: inj_on_def)
  ultimately have d1: "distinct (map fst (map (\<lambda>(k, x). (tn_chr n # k, x)) (entries n)))" by metis
  have "tn_chr m \<noteq> tn_chr n" if "m \<in> set ns" for m
    using kids_ok_distinct [OF 3(3)] that by (simp add: image_iff) metis
  then have "(tn_chr n # k, x) \<notin> set (entries_of ns)" for k x using entries_of_hd by fastforce
  then show ?case unfolding entries_of.simps map_append distinct_append
    using d1 3 by (intro conjI) (auto simp: kids_ok_Cons)
qed simp

lemma map_of_entries:
  fixes n :: "'d tnode" and ns :: "'d tnode list"
  shows
  "wf_tnode n \<Longrightarrow> map_of (entries n) = lookup n"
  "kids_ok ns \<Longrightarrow> \<forall>n \<in> set ns. wf_tnode n \<Longrightarrow> map_of (entries_of ns)
     = (\<lambda>key. case key of [] \<Rightarrow> None | a # key' \<Rightarrow> (case child ns a of None \<Rightarrow> None | Some m \<Rightarrow> lookup m key'))"
proof (induction n and ns rule: entries_entries_of.induct)
  case (1 c ch d)
  then show ?case
    by (auto simp: lookup_TNode map_add_def fun_eq_iff split: list.splits option.splits)
next
  case 2
  then show ?case by (auto simp: fun_eq_iff split: list.split)
next
  case (3 n ns)
  have pre: "map_of (map (\<lambda>(k, x). (tn_chr n # k, x)) es) = (\<lambda>key. case key of [] \<Rightarrow> None
      | a # key' \<Rightarrow> if a = tn_chr n then map_of es key' else None)" for es :: "(u8 list \<times> 'd) list"
    by (induction es) (auto simp: fun_eq_iff split: list.split)
  have "child ns (tn_chr n) = None" using kids_ok_distinct [OF 3(3)] by (simp add: child_None)
  then show ?case using 3
    by (auto simp: pre map_add_def fun_eq_iff kids_ok_Cons child_def split: list.splits option.splits)
qed

lemma lookup_entries: "wf_tnode n \<Longrightarrow> lookup n k = Some x \<longleftrightarrow> (k, x) \<in> set (entries n)"
  using map_of_entries(1) [of n] entries_keys(1) [of n] by (metis map_of_eq_Some_iff)

lemma dom_lookup: "wf_tnode n \<Longrightarrow> dom (lookup n) = fst ` set (entries n)"
  using map_of_entries(1) [of n] dom_map_of_conv_image_fst by metis

lemma card_dom_lookup: "wf_tnode n \<Longrightarrow> card (dom (lookup n)) = length (entries n)"
  using entries_keys(1) [of n] by (simp add: dom_lookup distinct_card [of "map fst (entries n)", simplified])

lemma finite_dom_lookup: "wf_tnode n \<Longrightarrow> finite (dom (lookup n))"
  by (simp add: dom_lookup)

section \<open>Freeing and visiting\<close>

lemma dec_size_unat: "unat (dec_size s) = unat s - 1"
  by (auto simp: dec_size_def unat_sub word_le_nat_alt word_less_nat_alt)

lemma node_free_spec:
  "snd (trie_node_free n m) = rev (map snd (entries n)) @ snd m
     \<and> unat (fst (trie_node_free n m)) = unat (fst m) - length (entries n)"
  "snd (trie_free_children ns m) = rev (map snd (entries_of ns)) @ snd m
     \<and> unat (fst (trie_free_children ns m)) = unat (fst m) - length (entries_of ns)"
proof (induction n m and ns m rule: trie_node_free_trie_free_children.induct)
  case (1 c ch d m)
  then show ?case by (auto simp: dec_size_unat split: option.splits prod.splits)
next
  case (3 n ns m)
  then show ?case by (auto simp: split_beta comp_def)
qed simp

fun postorder :: "'d tnode \<Rightarrow> 'd tnode list"
  and postorder_of :: "'d tnode list \<Rightarrow> 'd tnode list" where
  "postorder (TNode c ch d) = postorder_of ch @ [TNode c ch d]"
| "postorder_of [] = []"
| "postorder_of (n # ns) = postorder n @ postorder_of ns"

lemma map_func_postorder:
  "trie_prefix_map_func2 n f a = fold f (postorder n) a"
  "map_func_children ns f a = fold f (postorder_of ns) a"
  by (induction n f a and ns f a rule: trie_prefix_map_func2_map_func_children.induct)
     (auto simp: trie_is_free_node_def)

lemma postorder_data:
  fixes n :: "'d tnode" and ns :: "'d tnode list"
  shows
  "map tn_data (filter (\<lambda>n. tn_data n \<noteq> None) (postorder n)) = map (Some \<circ> snd) (entries n)"
  "map tn_data (filter (\<lambda>n. tn_data n \<noteq> None) (postorder_of ns)) = map (Some \<circ> snd) (entries_of ns)"
  by (induction n and ns rule: postorder_postorder_of.induct)
     (auto simp: split_beta comp_def split: option.splits)

lemma find_prefix: "wf_tnode n \<Longrightarrow> trie_node_find n p = Some m \<Longrightarrow> wf_tnode m \<and> lookup m k = lookup n (p @ k)"
proof (induction p arbitrary: n)
  case (Cons c p)
  then have "kids_ok (tn_children n)" by (cases n) auto
  with Cons show ?case by (auto simp: child_simps lookup_Cons dest: wf_child split: option.splits)
qed simp

lemma find_prefix_None: "wf_tnode n \<Longrightarrow> trie_node_find n p = None \<Longrightarrow> lookup n (p @ k) = None"
proof (induction p arbitrary: n)
  case (Cons c p)
  then have "kids_ok (tn_children n)" by (cases n) auto
  with Cons show ?case by (auto simp: child_simps lookup_Cons dest: wf_child split: option.splits)
qed simp

section \<open>The trie as a store\<close>

definition trie_map :: "'d trie \<Rightarrow> u8 list \<Rightarrow> 'd option" where
  "trie_map t = lookup (trie_root t)"

definition trie_ok :: "'d trie \<Rightarrow> bool" where
  "trie_ok t \<longleftrightarrow> wf_tnode (trie_root t) \<and> unat (trie_count t) = card (dom (trie_map t))"

lemma trie_okD: "trie_ok t \<Longrightarrow> wf_tnode (trie_root t)" "trie_ok t \<Longrightarrow> finite (dom (trie_map t))"
  by (simp_all add: trie_ok_def trie_map_def finite_dom_lookup)

lemma trie_find_map: "trie_find t key = (trie_map t key \<noteq> None, trie_map t key)"
  by (simp add: trie_find_def trie_map_def lookup_def trie_node_search_def Let_def)

lemma trie_insert_spec:
  assumes "trie_ok t" and "Suc (card (dom (trie_map t))) < 2 ^ 64"
  shows "trie_ok (trie_insert t key (Some x)) \<and> trie_map (trie_insert t key (Some x)) = (trie_map t)(key \<mapsto> x)"
proof -
  obtain r s where r: "trie_node_insert (trie_root t) key (Some x) (trie_count t) = (r, s)" by force
  from node_insert_spec [OF trie_okD(1) [OF assms(1)] r]
  have spec: "wf_tnode r" "lookup r = (trie_map t)(key \<mapsto> x)"
    "s = (if trie_map t key = None then trie_count t + 1 else trie_count t)" by (simp_all add: trie_map_def)
  have "unat s = card (dom ((trie_map t)(key \<mapsto> x)))"
    using assms trie_okD(2) [OF assms(1)]
    by (auto simp: spec(3) trie_ok_def card_insert_if unat_word_ariths domIff)
  then show ?thesis using spec r by (simp add: trie_insert_def trie_ok_def trie_map_def)
qed

lemma trie_delete_spec:
  assumes "trie_ok t" and "key \<noteq> []"
  shows "\<exists>t'. trie_delete t key = (t', (case trie_map t key of None \<Rightarrow> [] | Some x \<Rightarrow> [x]), trie_map t key \<noteq> None)
    \<and> trie_ok t' \<and> trie_map t' = (trie_map t)(key := None)"
proof -
  obtain r s fr found del where
    r: "trie_node_recursive_delete (trie_root t) key (trie_count t, []) False = (r, (s, fr), found, del)"
    by (metis prod_cases3 surj_pair)
  from node_delete_spec [OF trie_okD(1) [OF assms(1)] r]
  have spec: "wf_tnode r" "lookup r = (trie_map t)(key := None)" "found = (trie_map t key \<noteq> None)"
    "(s, fr) = freed_mem (trie_map t key) (trie_count t, [])" by (simp_all add: trie_map_def)
  have "unat s = card (dom ((trie_map t)(key := None)))"
    using assms trie_okD(2) [OF assms(1)] spec(4)
    by (auto simp: freed_mem_def trie_ok_def dec_size_unat domIff split: option.splits)
  moreover have "fr = (case trie_map t key of None \<Rightarrow> [] | Some x \<Rightarrow> [x])"
    using spec(4) by (auto simp: freed_mem_def split: option.splits)
  ultimately show ?thesis using spec(1-3) r assms(2) by (simp add: trie_delete_def trie_ok_def trie_map_def)
qed

lemma trie_delete_empty_key: "trie_delete t [] = (t, [], False)"
  by (simp add: trie_delete_def)

definition trie_put :: "'d trie \<Rightarrow> u8 list \<Rightarrow> 'd \<Rightarrow> 'd trie" where
  "trie_put t key x = trie_insert t key (Some x)"

definition trie_del :: "'d trie \<Rightarrow> u8 list \<Rightarrow> 'd trie" where
  "trie_del t key = fst (trie_delete t key)"

definition trie_get :: "'d trie \<Rightarrow> u8 list \<Rightarrow> 'd option" where
  "trie_get t key = snd (trie_find t key)"

interpretation trie_store: map_store trie_ok trie_map trie_del trie_get "\<lambda>k. k \<noteq> []" trie_put "2 ^ 64"
proof
  fix t :: "'d trie" and k :: "u8 list"
  assume "trie_ok t" "k \<noteq> []"
  then show "trie_ok (trie_del t k) \<and> trie_map (trie_del t k) = (trie_map t)(k := None)"
    using trie_delete_spec [of t k] by (auto simp: trie_del_def)
qed (simp_all add: trie_okD trie_insert_spec trie_put_def trie_get_def trie_find_map)

lemma trie_create_ok: "trie_ok trie_create" "trie_map trie_create = (\<lambda>_. None)"
  by (simp_all add: trie_ok_def trie_map_def trie_create_def trie_init_def fun_eq_iff dom_def)

section \<open>Deleting a prefix\<close>

lemma clear_children_spec:
  "wf_tnode n \<Longrightarrow> wf_tnode (clear_children n p) \<and> tn_chr (clear_children n p) = tn_chr n
     \<and> lookup (clear_children n p) = (\<lambda>k. if strict_prefix p k then None else lookup n k)"
proof (induction p arbitrary: n)
  case Nil
  obtain c ch e where n: "n = TNode c ch e" by (cases n)
  with Nil show ?case by (auto simp: lookup_TNode fun_eq_iff split: list.splits)
next
  case (Cons c p)
  obtain b ch e where n: "n = TNode b ch e" by (cases n)
  have ok: "kids_ok ch" and kids: "\<forall>m \<in> set ch. wf_tnode m" using Cons.prems n by auto
  show ?case
  proof (cases "child ch c")
    case None
    have "lookup n k = None" if "strict_prefix (c # p) k" for k
      using that None Cons.prems by (cases k) (auto simp: lookup_Cons n)
    then show ?thesis using None ok Cons.prems by (auto simp: n child_simps fun_eq_iff)
  next
    case (Some k)
    then have k: "wf_tnode k" "tn_chr k = c" using kids child_in child_chr by blast+
    define k' where "k' = clear_children k p"
    from Cons.IH [OF k(1)] have k': "wf_tnode k'" "tn_chr k' = c"
      "lookup k' = (\<lambda>x. if strict_prefix p x then None else lookup k x)" by (simp_all add: k'_def k(2))
    have n': "clear_children n (c # p) = TNode b (child_update ch (sint c) k') e"
      using Some ok by (simp add: n child_simps k'_def)
    have "\<forall>x \<in> set (child_update ch (sint c) k'). wf_tnode x"
      using set_child_update [of ch "sint c" k'] kids k'(1) by blast
    then have wf': "wf_tnode (TNode b (child_update ch (sint c) k') e)" using k' ok by (simp add: kids_ok_update)
    have "lookup (TNode b (child_update ch (sint c) k') e) x
        = (if strict_prefix (c # p) x then None else lookup n x)" for x
      using wf' Cons.prems k' ok Some
      by (cases x) (auto simp: n lookup_TNode child_simps)
    then show ?thesis using wf' n' n by auto
  qed
qed

lemma mset_values:
  assumes "distinct (map fst es)" and "\<And>k x. (k, x) \<in> set es \<Longrightarrow> f k = Some x"
  shows "mset (map snd es) = image_mset (the \<circ> f) (mset_set (fst ` set es))"
proof -
  have "map snd es = map (the \<circ> f) (map fst es)" using assms(2) by force
  then have "mset (map snd es) = image_mset (the \<circ> f) (mset (map fst es))" by (metis mset_map)
  also have "mset (map fst es) = mset_set (fst ` set es)"
    using mset_set_set [OF assms(1)] by simp
  finally show ?thesis .
qed

definition below :: "'d trie \<Rightarrow> u8 list \<Rightarrow> u8 list set" where
  "below t p = {k \<in> dom (trie_map t). strict_prefix p k}"

lemma below_entries:
  assumes wf: "wf_tnode (trie_root t)" and m: "trie_node_find (trie_root t) p = Some m"
  shows "below t p = (@) p ` fst ` set (entries_of (tn_children m))"
    and "mset (map snd (entries_of (tn_children m))) = image_mset (the \<circ> trie_map t) (mset_set (below t p))"
    and "length (entries_of (tn_children m)) = card (below t p)"
proof -
  obtain c ch e where mc: "m = TNode c ch e" by (cases m)
  have wfm: "wf_tnode m" and lk: "lookup m k = trie_map t (p @ k)" for k
    using find_prefix [OF wf m] by (auto simp: trie_map_def)
  have ent: "(k, x) \<in> set (entries_of ch) \<longleftrightarrow> k \<noteq> [] \<and> trie_map t (p @ k) = Some x" for k x
    using lookup_entries [OF wfm, of k x, unfolded lk] entries_of_hd [of k x ch]
    by (auto simp: mc split: option.splits)
  have d: "distinct (map fst (entries_of ch))" using wfm entries_keys(2) [of ch] by (simp add: mc)
  show b: "below t p = (@) p ` fst ` set (entries_of (tn_children m))"
  proof (intro equalityI subsetI)
    fix k assume "k \<in> below t p"
    then obtain y x where "k = p @ y" "y \<noteq> []" "trie_map t (p @ y) = Some x"
      by (auto simp: below_def strict_prefix_def prefix_def)
    then show "k \<in> (@) p ` fst ` set (entries_of (tn_children m))" using ent [of y x] by (force simp: mc)
  next
    fix k assume "k \<in> (@) p ` fst ` set (entries_of (tn_children m))"
    then obtain y x where "k = p @ y" "(y, x) \<in> set (entries_of ch)" by (auto simp: mc)
    then show "k \<in> below t p" using ent [of y x] by (auto simp: below_def strict_prefix_def)
  qed
  have inj: "inj_on ((@) p) A" for A by (simp add: inj_on_def)
  have "mset (map snd (entries_of ch)) = image_mset (the \<circ> (\<lambda>k. trie_map t (p @ k))) (mset_set (fst ` set (entries_of ch)))"
    by (rule mset_values [OF d]) (simp add: ent)
  also have "\<dots> = image_mset (the \<circ> trie_map t) (image_mset ((@) p) (mset_set (fst ` set (entries_of ch))))"
    by (simp add: multiset.map_comp comp_def)
  finally show "mset (map snd (entries_of (tn_children m))) = image_mset (the \<circ> trie_map t) (mset_set (below t p))"
    unfolding b by (simp add: image_mset_mset_set [OF inj] mc)
  show "length (entries_of (tn_children m)) = card (below t p)"
    unfolding b using distinct_card [OF d] by (simp add: card_image [OF inj] mc)
qed

text \<open>The keys that \<^verbatim>\<open>trie_prefix_delete\<close> takes out: every key with the prefix but the empty one.\<close>

definition doomed :: "'d trie \<Rightarrow> u8 list \<Rightarrow> u8 list set" where
  "doomed t p = {k \<in> dom (trie_map t). prefix p k \<and> k \<noteq> []}"

lemma doomed_below:
  "doomed t p = below t p \<union> (if p \<noteq> [] \<and> trie_map t p \<noteq> None then {p} else {})"
  by (auto simp: doomed_def below_def strict_prefix_def)

lemma finite_below: "trie_ok t \<Longrightarrow> finite (below t p)"
  by (simp add: below_def trie_okD)

lemma card_doomed: "trie_ok t \<Longrightarrow> card (doomed t p)
    = card (below t p) + (if p \<noteq> [] \<and> trie_map t p \<noteq> None then 1 else 0)"
  using finite_below [of t p] by (auto simp: doomed_below below_def)

lemma mset_doomed: "trie_ok t \<Longrightarrow> image_mset (the \<circ> trie_map t) (mset_set (doomed t p))
    = image_mset (the \<circ> trie_map t) (mset_set (below t p))
      + (if p \<noteq> [] \<and> trie_map t p \<noteq> None then {# the (trie_map t p) #} else {#})"
  using finite_below [of t p] by (auto simp: doomed_below below_def)

lemma dom_without: "dom (\<lambda>k. if k \<in> doomed t p then None else trie_map t k) = dom (trie_map t) - doomed t p"
  by (auto split: if_splits)

lemma card_without:
  assumes "trie_ok t"
  shows "card (dom (\<lambda>k. if k \<in> doomed t p then None else trie_map t k)) = card (dom (trie_map t)) - card (doomed t p)"
  unfolding dom_without using assms by (intro card_Diff_subset) (auto simp: doomed_def trie_okD)

definition without :: "'d trie \<Rightarrow> u8 list \<Rightarrow> 'd trie \<Rightarrow> 'd list \<Rightarrow> bool" where
  "without t p t' fr \<longleftrightarrow> trie_ok t' \<and> trie_map t' = (\<lambda>k. if k \<in> doomed t p then None else trie_map t k)
    \<and> mset fr = image_mset (the \<circ> trie_map t) (mset_set (doomed t p))"

lemma without_nothing: "trie_ok t \<Longrightarrow> doomed t p = {} \<Longrightarrow> without t p t []"
  by (simp add: without_def)

lemma prefix_delete_leaf:
  assumes ok: "trie_ok t" and m: "trie_node_find (trie_root t) p = Some m" "tn_children m = []"
  shows "\<exists>t' fr. trie_prefix_delete t p = (t', fr) \<and> without t p t' fr"
proof -
  have b: "below t p = {}" using below_entries(1) [OF trie_okD(1) [OF ok] m(1)] m(2) by simp
  show ?thesis
  proof (cases "p = []")
    case True
    then show ?thesis using m without_nothing [OF ok, of p] b
      by (simp add: trie_prefix_delete_def trie_delete_empty_key doomed_below)
  next
    case False
    from trie_delete_spec [OF ok False] obtain t' where t':
      "trie_delete t p = (t', case trie_map t p of None \<Rightarrow> [] | Some x \<Rightarrow> [x], trie_map t p \<noteq> None)"
      "trie_ok t'" "trie_map t' = (trie_map t)(p := None)" by blast
    have "without t p t' (case trie_map t p of None \<Rightarrow> [] | Some x \<Rightarrow> [x])"
      using t'(2,3) b False by (auto simp: without_def doomed_below fun_eq_iff split: option.splits)
    then show ?thesis using m t'(1) by (simp add: trie_prefix_delete_def)
  qed
qed

lemma delete_at:
  assumes wf: "wf_tnode (trie_root t)"
  shows "\<exists>r s' fr'. fst (trie_delete (t\<lparr>trie_count := s\<rparr>) p) = t\<lparr>trie_root := r, trie_count := s'\<rparr>
    \<and> fst (snd (trie_delete (t\<lparr>trie_count := s\<rparr>) p)) = fr' \<and> wf_tnode r
    \<and> (if p = [] then lookup r = trie_map t \<and> s' = s \<and> fr' = []
       else lookup r = (trie_map t)(p := None) \<and> (s', fr') = freed_mem (trie_map t p) (s, []))"
proof (cases "p = []")
  case True
  then show ?thesis using wf by (intro exI [of _ "trie_root t"] exI [of _ s]) (simp add: trie_delete_empty_key trie_map_def)
next
  case False
  obtain r s' fr' fo de where r: "trie_node_recursive_delete (trie_root t) p (s, []) False = (r, (s', fr'), fo, de)"
    by (metis prod_cases3 surj_pair)
  have "fst (trie_delete (t\<lparr>trie_count := s\<rparr>) p) = t\<lparr>trie_root := r, trie_count := s'\<rparr>"
    "fst (snd (trie_delete (t\<lparr>trie_count := s\<rparr>) p)) = fr'" using False by (simp_all add: trie_delete_def r)
  with node_delete_spec [OF wf r] False show ?thesis unfolding trie_map_def by metis
qed

lemma prefix_delete_inner:
  assumes ok: "trie_ok t" and m: "trie_node_find (trie_root t) p = Some m" "tn_children m \<noteq> []"
  shows "\<exists>t' fr. trie_prefix_delete t p = (t', fr) \<and> without t p t' fr"
proof -
  note wf = trie_okD(1) [OF ok]
  note be = below_entries [OF wf m(1)]
  obtain s fr where f: "trie_free_children (tn_children m) (trie_count t, []) = (s, fr)" by force
  have s: "unat s = card (dom (trie_map t)) - card (below t p)"
    and fr: "mset fr = image_mset (the \<circ> trie_map t) (mset_set (below t p))"
    using node_free_spec(2) [of "tn_children m" "(trie_count t, [])"] f ok be(2,3)
    by (simp_all add: trie_ok_def)
  obtain r s' fr' where d: "fst (trie_delete (t\<lparr>trie_count := s\<rparr>) p) = t\<lparr>trie_root := r, trie_count := s'\<rparr>"
    "fst (snd (trie_delete (t\<lparr>trie_count := s\<rparr>) p)) = fr'" "wf_tnode r" and
    c: "if p = [] then lookup r = trie_map t \<and> s' = s \<and> fr' = []
       else lookup r = (trie_map t)(p := None) \<and> (s', fr') = freed_mem (trie_map t p) (s, [])"
    using delete_at [OF wf, of s p] by blast
  define t' where "t' = t\<lparr>trie_root := clear_children r p, trie_count := s'\<rparr>"
  have res: "trie_prefix_delete t p = (t', fr' @ fr)"
    using m f d(1,2) by (simp add: trie_prefix_delete_def t'_def split_beta)
  have cl: "wf_tnode (clear_children r p)"
    "lookup (clear_children r p) = (\<lambda>k. if strict_prefix p k then None else lookup r k)"
    using clear_children_spec [OF d(3)] by blast+
  have mp: "trie_map t' = (\<lambda>k. if k \<in> doomed t p then None else trie_map t k)"
    unfolding t'_def trie_map_def [of "t\<lparr>trie_root := _, trie_count := _\<rparr>"] using c
    by (simp add: cl(2)) (auto simp: doomed_def fun_eq_iff strict_prefix_def domIff simp del: lookup_Nil split: if_splits)
  have "unat s' = card (dom (trie_map t)) - card (doomed t p)"
    using c s by (cases "trie_map t p") (auto simp: freed_mem_def dec_size_unat card_doomed [OF ok] split: if_splits)
  then have "trie_ok t'" unfolding trie_ok_def mp card_without [OF ok] using cl(1) by (simp add: t'_def)
  moreover have "mset (fr' @ fr) = image_mset (the \<circ> trie_map t) (mset_set (doomed t p))"
    using c fr by (cases "trie_map t p") (auto simp: mset_doomed [OF ok] freed_mem_def split: if_splits)
  ultimately show ?thesis using res mp by (auto simp: without_def)
qed

lemma prefix_delete_spec:
  assumes ok: "trie_ok t"
  shows "\<exists>t' fr. trie_prefix_delete t p = (t', fr) \<and> without t p t' fr"
proof (cases "trie_node_find (trie_root t) p")
  case None
  then have "trie_map t (p @ k) = None" for k
    using find_prefix_None trie_okD(1) [OF ok] by (auto simp: trie_map_def)
  then have "doomed t p = {}" by (auto simp: doomed_def prefix_def)
  then show ?thesis using None without_nothing [OF ok] by (simp add: trie_prefix_delete_def)
next
  case (Some m)
  then show ?thesis using prefix_delete_leaf [OF ok Some] prefix_delete_inner [OF ok Some] by blast
qed

section \<open>Undoing an insertion\<close>

text \<open>No dead leaves: a node without children holds data.\<close>

definition alive :: "'d tnode \<Rightarrow> bool" where
  "alive n \<longleftrightarrow> tn_children n \<noteq> [] \<or> tn_data n \<noteq> None"

fun tidy :: "'d tnode \<Rightarrow> bool" where
  "tidy (TNode c ch d) \<longleftrightarrow> (\<forall>n \<in> set ch. tidy n \<and> alive n)"

lemma kids_ok_unique: "kids_ok xs \<Longrightarrow> kids_ok ys \<Longrightarrow> set xs = set ys \<Longrightarrow> xs = ys"
proof (induction xs arbitrary: ys)
  case (Cons x xs)
  then obtain y zs where ys: "ys = y # zs" by (cases ys) auto
  have "x = y"
  proof (rule ccontr)
    assume "x \<noteq> y"
    then have "x \<in> set zs" "y \<in> set xs" using Cons.prems(3) ys by auto
    then have "tn_val y < tn_val x" "tn_val x < tn_val y" using Cons.prems(1,2) ys by (simp_all add: kids_ok_Cons)
    then show False by simp
  qed
  moreover have "x \<notin> set xs" "x \<notin> set zs" using Cons.prems ys \<open>x = y\<close> by (auto simp: kids_ok_Cons)
  ultimately have "set xs = set zs" using Cons.prems(3) ys by auto
  then show ?case using Cons ys \<open>x = y\<close> by (simp add: kids_ok_Cons)
qed simp

lemma remove_first_set: "kids_ok ns \<Longrightarrow> set (remove_first (with_char c) ns) = {n \<in> set ns. tn_chr n \<noteq> c}"
proof (induction ns)
  case (Cons n ns)
  have "tn_chr m \<noteq> tn_chr n" if "m \<in> set ns" for m
    using kids_ok_distinct [OF Cons.prems] that by (simp add: image_iff) metis
  with Cons show ?case by (auto simp: with_char_def kids_ok_Cons)
qed simp

lemma remove_inserted:
  assumes "kids_ok ns" and "child ns (tn_chr n) = None"
  shows "remove_first (with_char (tn_chr n)) (merge_sort_tnode (n # ns)) = ns"
proof (rule kids_ok_unique)
  show "kids_ok (remove_first (with_char (tn_chr n)) (merge_sort_tnode (n # ns)))"
    using assms by (intro kids_ok_remove kids_ok_insert)
  show "set (remove_first (with_char (tn_chr n)) (merge_sort_tnode (n # ns))) = set ns"
    using assms by (auto simp: remove_first_set kids_ok_insert child_None) (metis image_eqI)
qed (fact assms)

lemma child_update_back:
  "child ns c = Some n \<Longrightarrow> tn_chr n' = c \<Longrightarrow> child_update (child_update ns (sint c) n') (sint c) n = ns"
  by (induction ns) (auto simp: child_def tn_val_eq)

lemma child_update_Nil [simp]: "child_update ns v n = [] \<longleftrightarrow> ns = []"
  by (cases ns) auto

lemma insert_then_delete:
  assumes "wf_tnode n" and "tidy n" and "lookup n key = None"
    and "trie_node_insert n key (Some x) sz = (n1, sz1)"
    and "trie_node_recursive_delete n1 key m f = (n2, m2, f2, del)"
  shows "n2 = n \<and> (del \<longleftrightarrow> \<not> alive n)"
  using assms
proof (induction key arbitrary: n n1 sz1 n2 m2 f2 del)
  case Nil
  then show ?case by (cases n) (auto simp: trie_is_free_node_def alive_def)
next
  case (Cons c key)
  obtain b ch e where n: "n = TNode b ch e" by (cases n)
  have ok: "kids_ok ch" and kids: "\<forall>m \<in> set ch. wf_tnode m" using Cons.prems(1) n by auto
  define k where "k = (case child ch c of None \<Rightarrow> trie_create_node c | Some k \<Rightarrow> k)"
  have k: "wf_tnode k" "tidy k" "lookup k key = None" "tn_chr k = c"
    using kids Cons.prems(2,3) Cons.prems(1) child_in [of ch c] child_chr [of ch c]
    by (auto simp: k_def n lookup_Cons trie_create_node_def split: option.splits)
       (simp_all add: lookup_create [unfolded trie_create_node_def])
  obtain k1 s1 where i: "trie_node_insert k key (Some x) sz = (k1, s1)" by force
  obtain k2 m3 f3 d3 where d: "trie_node_recursive_delete k1 key m f = (k2, m3, f3, d3)" by (metis prod_cases4)
  from Cons.IH [OF k(1-3) i d] have k2: "k2 = k" "d3 \<longleftrightarrow> \<not> alive k" by auto
  have k1: "wf_tnode k1" "tn_chr k1 = c" using node_insert_spec [OF k(1) i] k(4) by auto
  show ?case
  proof (cases "child ch c")
    case None
    then have dead: "\<not> alive k" by (simp add: k_def alive_def trie_create_node_def)
    have n1: "n1 = TNode b (merge_sort_tnode (k1 # ch)) e"
      using Cons.prems(4) None ok i by (simp add: n child_simps k_def)
    have "kids_ok (merge_sort_tnode (k1 # ch))" "child (merge_sort_tnode (k1 # ch)) c = Some k1"
      using None ok k1 by (auto simp: kids_ok_insert child_simps)
    then show ?thesis using Cons.prems(5) d k2 dead remove_inserted [of ch k1] None ok k1
      by (auto simp: n n1 child_simps Let_def trie_is_free_node_def alive_def)
  next
    case (Some k')
    then have kk: "k' = k" by (simp add: k_def)
    have live: "alive k" using Some Cons.prems(2) child_in by (auto simp: kk n)
    have n1: "n1 = TNode b (child_update ch (sint c) k1) e"
      using Cons.prems(4) Some ok i by (simp add: n child_simps kk)
    have "kids_ok (child_update ch (sint c) k1)" "child (child_update ch (sint c) k1) c = Some k1"
      using Some ok k1 by (auto simp: kids_ok_update child_simps)
    then show ?thesis using Cons.prems(5) d k2 live child_update_back [of ch c k k1] Some k1
      by (auto simp: n n1 kk child_simps alive_def)
  qed
qed

lemma set_child_update_iff: "set (child_update ns v n') \<subseteq> set ns \<union> {n'}"
  using set_child_update by fastforce

lemma node_insert_tidy:
  assumes "trie_node_insert n key (Some x) sz = (n', sz')" and "tidy n"
  shows "tidy n' \<and> alive n'"
  using assms
proof (induction key arbitrary: n n' sz')
  case Nil
  then show ?case by (cases n) (auto simp: alive_def)
next
  case (Cons c key)
  obtain b ch e where n: "n = TNode b ch e" by (cases n)
  have "tidy (trie_create_node c)" by (simp add: trie_create_node_def)
  moreover have "tidy k" if "linear_search ch (sint c) = Some k" for k
  proof -
    have "k \<in> set ch" using that by (induction ch) (auto split: if_splits)
    then show ?thesis using Cons.prems(2) by (simp add: n)
  qed
  ultimately have IH: "tidy m \<and> alive m" if "trie_node_insert (case linear_search ch (sint c) of None \<Rightarrow> trie_create_node c
      | Some k \<Rightarrow> k) key (Some x) sz = (m, s1)" for m s1
    using Cons.IH that by (auto split: option.splits)
  have ne: "merge_sort_tnode (m # ch) \<noteq> []" for m by (metis list.distinct(1) set_empty set_merge_sort)
  show ?case
    using Cons.prems IH set_child_update_iff [of ch "sint c"] ne
    by (fastforce simp: n alive_def split: option.splits prod.splits)
qed

lemma linear_search_in: "linear_search ns v = Some n \<Longrightarrow> n \<in> set ns"
  by (induction ns) (auto split: if_splits)

lemma node_delete_tidy:
  assumes "trie_node_recursive_delete n key m f = (n', m', f', del)" and "tidy n"
  shows "tidy n' \<and> (alive n \<and> \<not> del \<longrightarrow> alive n')"
  using assms
proof (induction key arbitrary: n n' m' f' del)
  case Nil
  then show ?case by (cases n) (auto simp: alive_def trie_is_free_node_def split: option.splits)
next
  case (Cons c key)
  obtain b ch e where n: "n = TNode b ch e" by (cases n)
  show ?case
  proof (cases "linear_search ch (sint c)")
    case None
    then show ?thesis using Cons.prems by (simp add: n)
  next
    case (Some k)
    then have k: "tidy k" "alive k" using linear_search_in Cons.prems(2) by (auto simp: n)
    obtain k' m1 f1 d1 where r: "trie_node_recursive_delete k key m f = (k', m1, f1, d1)"
      by (metis prod_cases4)
    from Cons.IH [OF r k(1)] have k': "tidy k'" "\<not> d1 \<Longrightarrow> alive k'" using k(2) by auto
    show ?thesis
    proof (cases d1)
      case True
      then have "n' = TNode b (remove_first (with_char c) ch) e"
        "del \<longleftrightarrow> e = None \<and> remove_first (with_char c) ch = []"
        using Cons.prems(1) Some r by (simp_all add: n Let_def trie_is_free_node_def)
      moreover have "\<forall>x \<in> set (remove_first (with_char c) ch). tidy x \<and> alive x"
        using Cons.prems(2) remove_first_subset [of "with_char c" ch] by (auto simp: n)
      ultimately show ?thesis by (auto simp: alive_def)
    next
      case False
      have "n' = TNode b (child_update ch (sint c) k') e" using Cons.prems(1) Some r False by (simp add: n)
      moreover have "ch \<noteq> []" using Some by auto
      ultimately show ?thesis using Cons.prems(2) k'(1) k'(2) [OF False] set_child_update_iff [of ch "sint c" k']
        by (auto simp: n alive_def)
    qed
  qed
qed

lemma tidy_run: "tidy (trie_root t) \<Longrightarrow> tidy (trie_root (fold (op_run trie_put trie_del) xs t))"
proof (induction xs arbitrary: t)
  case (Cons x xs)
  have "tidy (trie_root (op_run trie_put trie_del x t))"
  proof (cases x)
    case (Put k v)
    then show ?thesis using node_insert_tidy [of "trie_root t" k v "trie_count t"] Cons.prems
      by (auto simp: trie_put_def trie_insert_def split: prod.splits)
  next
    case (Del k)
    then show ?thesis using node_delete_tidy [of "trie_root t" k "(trie_count t, [])" False] Cons.prems
      by (auto simp: trie_del_def trie_delete_def split: prod.splits)
  qed
  then show ?case using Cons.IH by simp
qed simp

section \<open>Properties\<close>

text \<open>
  \<^verbatim>\<open>merge_sort_tnode\<close> returns a permutation of its list, in the order of the
  (signed) characters, and is stable: nodes of one character keep their relative order.
\<close>

theorem merge_sort_tnode_sorts:
  "mset (merge_sort_tnode l) = mset l \<and> sorted (map tn_val (merge_sort_tnode l))
    \<and> filter (\<lambda>n. tn_val n = v) (merge_sort_tnode l) = filter (\<lambda>n. tn_val n = v) l"
  by (simp add: mset_merge_sort sorted_merge_sort merge_sort_stable)

text \<open>
  C20 (trie_run_refines): Any sequence of \<^verbatim>\<open>trie_insert\<close> and \<^verbatim>\<open>trie_delete\<close> calls with non-empty keys (fewer than
  \<open>2^64\<close>) on a fresh trie leaves a trie that looks up exactly what a finite map would hold after the
  same updates, whose size counter is the number of keys in it, whose children lists are all sorted
  without duplicates, and in which no dead branch is left.
\<close>

theorem trie_run_refines:
  assumes "\<forall>x \<in> set xs. op_key x \<noteq> []" and "length xs < 2 ^ 64"
  shows "let t = fold (op_run trie_put trie_del) xs trie_create; m = fold op_effect xs (\<lambda>_. None) in
    trie_find t key = (m key \<noteq> None, m key) \<and> unat (trie_size t) = card (dom m)
    \<and> wf_tnode (trie_root t) \<and> tidy (trie_root t)"
proof -
  define t where "t = fold (op_run trie_put trie_del) xs trie_create"
  from trie_store.run_many [OF trie_create_ok(1), of xs] assms
  have r: "trie_ok t" "trie_map t = fold op_effect xs (\<lambda>_. None)"
    by (simp_all add: t_def trie_create_ok(2))
  moreover have "tidy (trie_root t)" unfolding t_def
    by (rule tidy_run) (simp add: trie_create_def trie_init_def trie_create_node_def)
  ultimately show ?thesis unfolding t_def [symmetric]
    by (simp add: trie_find_map trie_size_def trie_ok_def Let_def)
qed

theorem trie_run_refines_witness:
  "trie_find (fold (op_run trie_put trie_del)
      [Put [104, 105] 1, Put [104] 2, Put [200] 3, Del [104, 105], Put [104] 4] trie_create) [104]
    = (True, Some (4 :: nat))"
  using trie_run_refines [of "[Put [104, 105] 1, Put [104] 2, Put [200] 3, Del [104, 105], Put [104] (4 :: nat)]" "[104]"]
  by (simp add: Let_def)

text \<open>
  In a well-formed trie without dead branches, inserting a new non-empty key and deleting it
  again gives back the very same trie, node for node, with the same size, and hands exactly the
  inserted value to \<^verbatim>\<open>free\<close>.
\<close>

theorem trie_undo:
  assumes "trie_ok t" and "tidy (trie_root t)" and "key \<noteq> []" and "trie_map t key = None"
    and "Suc (card (dom (trie_map t))) < 2 ^ 64"
  shows "trie_delete (trie_insert t key (Some x)) key = (t, [x], True)"
proof -
  obtain r s where i: "trie_node_insert (trie_root t) key (Some x) (trie_count t) = (r, s)" by force
  obtain r2 s2 fr fo de where d: "trie_node_recursive_delete r key (s, []) False = (r2, (s2, fr), fo, de)"
    by (metis prod_cases3 surj_pair)
  have "s = trie_count t + 1" "wf_tnode r" "lookup r key = Some x"
    using node_insert_spec [OF trie_okD(1) [OF assms(1)] i] assms(4) by (auto simp: trie_map_def)
  moreover have "unat (trie_count t + 1) \<noteq> 0"
    using assms(1,5) by (simp add: trie_ok_def unat_word_ariths)
  then have "trie_count t + 1 \<noteq> 0" by (metis unat_0)
  ultimately have "(s2, fr) = (trie_count t, [x])" "fo"
    using node_delete_spec [OF _ d] by (auto simp: freed_mem_def dec_size_def word_neq_0_conv)
  moreover have "r2 = trie_root t"
    using insert_then_delete [OF trie_okD(1) [OF assms(1)] assms(2) _ i d] assms(4) by (simp add: trie_map_def)
  ultimately show ?thesis using i d assms(3) by (simp add: trie_insert_def trie_delete_def)
qed

theorem trie_undo_witness:
  "trie_delete (trie_insert trie_create [97, 98] (Some (7 :: nat))) [97, 98] = (trie_create, [7], True)"
  by (rule trie_undo) (simp_all add: trie_create_ok trie_create_def trie_init_def trie_create_node_def
      trie_create_ok [unfolded trie_create_def trie_init_def trie_create_node_def])

text \<open>
  C21 (trie_prefix_delete_removes): \<^verbatim>\<open>trie_prefix_delete\<close> removes exactly the non-empty keys that start with the
  prefix, frees each of their values once and nothing else, and keeps the size counter equal to the
  number of keys left.
\<close>

theorem trie_prefix_delete_removes:
  assumes "trie_ok t"
  shows "\<exists>t' fr. trie_prefix_delete t p = (t', fr) \<and> trie_ok t'
    \<and> trie_map t' = (\<lambda>k. if prefix p k \<and> k \<noteq> [] then None else trie_map t k)
    \<and> mset fr = image_mset (the \<circ> trie_map t) (mset_set {k \<in> dom (trie_map t). prefix p k \<and> k \<noteq> []})"
proof -
  from prefix_delete_spec [OF assms, of p] obtain t' fr where
    r: "trie_prefix_delete t p = (t', fr)" "without t p t' fr" by blast
  moreover have "(\<lambda>k. if k \<in> doomed t p then None else trie_map t k)
      = (\<lambda>k. if prefix p k \<and> k \<noteq> [] then None else trie_map t k)"
    by (auto simp: doomed_def fun_eq_iff domIff)
  ultimately show ?thesis by (auto simp: without_def doomed_def)
qed

theorem trie_prefix_delete_removes_witness:
  "\<exists>t' fr. trie_prefix_delete (trie_put (trie_put trie_create [97, 98] 3) [99] (2 :: nat)) [97] = (t', fr) \<and> trie_ok t'
    \<and> trie_map t' [97, 98] = None \<and> trie_map t' [99] = Some 2"
proof -
  let ?t = "trie_put (trie_put trie_create [97, 98] 3) [99] (2 :: nat)"
  have ok: "trie_ok ?t" and m: "trie_map ?t = [[97, 98] \<mapsto> 3, [99] \<mapsto> 2]"
    using trie_store.run_many [OF trie_create_ok(1), of "[Put [97, 98] 3, Put [99] (2 :: nat)]"]
    by (simp_all add: trie_create_ok(2))
  show ?thesis using trie_prefix_delete_removes [OF ok, of "[97]"] by (auto simp: m)
qed

text \<open>
  The nodes of a subtree with their paths in the order the callback sees them, and that order: a path comes after its extensions, and of two children the
  one with the smaller (signed) character first.
\<close>

fun walk :: "'d tnode \<Rightarrow> (u8 list \<times> 'd tnode) list"
  and walk_of :: "'d tnode list \<Rightarrow> (u8 list \<times> 'd tnode) list" where
  "walk (TNode c ch d) = walk_of ch @ [([], TNode c ch d)]"
| "walk_of [] = []"
| "walk_of (n # ns) = map (\<lambda>(k, m). (tn_chr n # k, m)) (walk n) @ walk_of ns"

fun visited_before :: "u8 list \<Rightarrow> u8 list \<Rightarrow> bool" where
  "visited_before [] l \<longleftrightarrow> False"
| "visited_before (a # k) [] \<longleftrightarrow> True"
| "visited_before (a # k) (b # l) \<longleftrightarrow> sint a < sint b \<or> a = b \<and> visited_before k l"

lemma walk_postorder:
  fixes n :: "'d tnode" and ns :: "'d tnode list"
  shows "map snd (walk n) = postorder n" and "map snd (walk_of ns) = postorder_of ns"
  by (induction n and ns rule: walk_walk_of.induct) (auto simp: split_beta comp_def)

lemma walk_of_hd: "(k, m) \<in> set (walk_of ns) \<Longrightarrow> \<exists>n \<in> set ns. \<exists>k'. k = tn_chr n # k'"
  by (induction ns) auto

lemma walk_find:
  fixes n :: "'d tnode" and ns :: "'d tnode list"
  shows "wf_tnode n \<Longrightarrow> (k, m) \<in> set (walk n) \<longleftrightarrow> trie_node_find n k = Some m"
    and "kids_ok ns \<Longrightarrow> \<forall>n \<in> set ns. wf_tnode n \<Longrightarrow>
      (k, m) \<in> set (walk_of ns) \<longleftrightarrow> (\<exists>c k' x. k = c # k' \<and> child ns c = Some x \<and> trie_node_find x k' = Some m)"
proof (induction n and ns arbitrary: k and k rule: walk_walk_of.induct)
  case (1 c ch d)
  then show ?case by (cases k) (auto simp: child_simps split: option.splits)
next
  case (3 n ns)
  have none: "child ns (tn_chr n) = None" using kids_ok_distinct [OF 3(3)] by (simp add: child_None)
  have kids: "kids_ok ns" "\<forall>n \<in> set ns. wf_tnode n" "wf_tnode n" using 3(3,4) by (simp_all add: kids_ok_Cons)
  show ?case
  proof (cases k)
    case Nil
    then show ?thesis using walk_of_hd [of "[]" m ns] by auto
  next
    case (Cons c k')
    have ns: "(c # k', m) \<in> set (walk_of ns) \<longleftrightarrow> (\<exists>x. child ns c = Some x \<and> trie_node_find x k' = Some m)"
      using 3(2) [OF kids(1,2), of "c # k'"] by simp
    have "(c # k', m) \<in> set (walk_of (n # ns)) \<longleftrightarrow> c = tn_chr n \<and> (k', m) \<in> set (walk n) \<or> (c # k', m) \<in> set (walk_of ns)" by auto
    also have "\<dots> \<longleftrightarrow> (\<exists>x. child (n # ns) c = Some x \<and> trie_node_find x k' = Some m)"
      unfolding ns 3(1) [OF kids(3)] using none by (auto simp: child_def)
    finally show ?thesis using Cons by simp
  qed
qed simp

lemma sorted_Cons_paths: "sorted_wrt visited_before (map ((#) a) ks) = sorted_wrt visited_before ks"
  by (simp add: sorted_wrt_map)

lemma walk_sorted:
  fixes n :: "'d tnode" and ns :: "'d tnode list"
  shows "wf_tnode n \<Longrightarrow> sorted_wrt visited_before (map fst (walk n))"
    and "kids_ok ns \<Longrightarrow> \<forall>n \<in> set ns. wf_tnode n \<Longrightarrow> sorted_wrt visited_before (map fst (walk_of ns))"
proof (induction n and ns rule: walk_walk_of.induct)
  case (1 c ch d)
  have "visited_before k []" if "k \<in> fst ` set (walk_of ch)" for k
    using that walk_of_hd by fastforce
  with 1 show ?case by (auto simp: sorted_wrt_append)
next
  case (3 n ns)
  have e: "map fst (map (\<lambda>(k, m). (tn_chr n # k, m)) (walk n)) = map ((#) (tn_chr n)) (map fst (walk n))"
    by (auto simp: split_beta)
  have s: "sorted_wrt visited_before (map ((#) (tn_chr n)) (map fst (walk n)))"
    using 3 by (simp add: sorted_Cons_paths kids_ok_Cons del: map_map)
  have "visited_before (tn_chr n # k) l" if "l \<in> fst ` set (walk_of ns)" for k l
    using that walk_of_hd [of l _ ns] 3(3) by (fastforce simp: kids_ok_Cons tn_val_def)
  then show ?case using 3(2-4) s unfolding walk_of.simps map_append e sorted_wrt_append by (auto simp: kids_ok_Cons)
qed simp

lemma visited_before_irrefl: "\<not> visited_before k k"
  by (induction k) auto

lemma visited_distinct: "sorted_wrt visited_before ks \<Longrightarrow> distinct ks"
  by (induction ks) (auto simp: visited_before_irrefl)

lemma find_append: "trie_node_find n (p @ k) = Option.bind (trie_node_find n p) (\<lambda>m. trie_node_find m k)"
  by (induction p arbitrary: n) (auto split: option.split)

lemma map_walk:
  assumes "trie_ok t" and "q = (case p of None \<Rightarrow> [] | Some q \<Rightarrow> q)"
    and "ps = (case trie_node_find (trie_root t) q of None \<Rightarrow> [] | Some m \<Rightarrow> walk m)"
  shows "trie_prefix_map_tuple t p f a = fold f (map snd ps) a
    \<and> (\<forall>k m. (k, m) \<in> set ps \<longleftrightarrow> trie_node_find (trie_root t) (q @ k) = Some m)
    \<and> sorted_wrt visited_before (map fst ps)
    \<and> (\<forall>k x. trie_map t (q @ k) = Some x \<longleftrightarrow> (\<exists>m. (k, m) \<in> set ps \<and> tn_data m = Some x))"
proof -
  have u: "trie_prefix_map_tuple t p f a = (case trie_node_find (trie_root t) q of None \<Rightarrow> a
      | Some node \<Rightarrow> trie_prefix_map_func2 node f a)"
    by (simp add: trie_prefix_map_tuple_def assms(2) split: option.split)
  note wf = trie_okD(1) [OF assms(1)]
  show ?thesis
  proof (cases "trie_node_find (trie_root t) q")
    case None
    then have "trie_map t (q @ k) = None" for k using find_prefix_None [OF wf] by (simp add: trie_map_def)
    then show ?thesis by (simp add: u None assms(3) find_append)
  next
    case (Some m)
    then have m: "wf_tnode m" "lookup m k = trie_map t (q @ k)" for k
      using find_prefix [OF wf] by (auto simp: trie_map_def)
    have "lookup m k = Some x \<longleftrightarrow> (\<exists>m'. trie_node_find m k = Some m' \<and> tn_data m' = Some x)" for k x
      using find_prefix [OF m(1), of k _ "[]"] find_prefix_None [OF m(1), of k "[]"] by (cases "trie_node_find m k") auto
    then show ?thesis
      by (simp add: u Some assms(3) find_append map_func_postorder walk_postorder walk_find(1) [OF m(1)] walk_sorted(1) [OF m(1)] m(2) [symmetric])
  qed
qed

text \<open>
  C22 (trie_prefix_map_visits): \<^verbatim>\<open>trie_prefix_map_tuple\<close> calls its callback once for every node at or below the prefix, whether it holds data or not: the visited
  nodes are listed with their paths below the prefix, these are exactly the paths that lead to a node, no path occurs twice, and they come in the order of
  \<open>visited_before\<close>, in which children come before their parent and smaller characters before greater ones. The keys with the prefix are the paths of the nodes that hold data. When
  nothing lies at the prefix, the callback is not called. With a null prefix the whole trie is visited.
\<close>

theorem trie_prefix_map_visits:
  assumes "trie_ok t" and "q = (case p of None \<Rightarrow> [] | Some q \<Rightarrow> q)"
  shows "\<exists>ps. trie_prefix_map_tuple t p f a = fold f (map snd ps) a
    \<and> (\<forall>k m. (k, m) \<in> set ps \<longleftrightarrow> trie_node_find (trie_root t) (q @ k) = Some m)
    \<and> distinct (map fst ps) \<and> sorted_wrt visited_before (map fst ps)
    \<and> (\<forall>k x. trie_map t (q @ k) = Some x \<longleftrightarrow> (\<exists>m. (k, m) \<in> set ps \<and> tn_data m = Some x))"
  using map_walk [OF assms refl, of f a] visited_distinct by blast

theorem trie_prefix_map_visits_witness:
  "\<exists>ps. trie_prefix_map_tuple (trie_put trie_create [97, 98] (5 :: nat)) (Some [97]) (\<lambda>n k. k * 2) (1 :: nat) = fold (\<lambda>n k. k * 2) (map snd ps) 1
    \<and> distinct (map fst ps) \<and> sorted_wrt visited_before (map fst ps)
    \<and> (\<forall>k x. trie_map (trie_put trie_create [97, 98] (5 :: nat)) ([97] @ k) = Some x \<longleftrightarrow> (\<exists>m. (k, m) \<in> set ps \<and> tn_data m = Some x))"
proof -
  have ok: "trie_ok (trie_put trie_create [97, 98] (5 :: nat))"
    using trie_store.run_one [OF trie_create_ok(1), of "Put [97, 98] (5 :: nat)"] by (simp add: trie_create_ok(2))
  show ?thesis using trie_prefix_map_visits [OF ok, of "[97]" "Some [97]" "\<lambda>n k. k * 2" "1 :: nat"] by fastforce
qed

text \<open>
  \<^verbatim>\<open>trie_release\<close> hands the value of every key of the trie to \<^verbatim>\<open>free\<close> exactly once, and
  nothing else.
\<close>

theorem trie_release_frees:
  assumes "trie_ok t"
  shows "mset (trie_release (Some t)) = image_mset (the \<circ> trie_map t) (mset_set (dom (trie_map t)))"
proof -
  note wf = trie_okD(1) [OF assms]
  have "mset (map snd (entries (trie_root t))) = image_mset (the \<circ> trie_map t) (mset_set (fst ` set (entries (trie_root t))))"
    by (rule mset_values) (simp_all add: entries_keys wf trie_map_def lookup_entries)
  then show ?thesis
    using node_free_spec(1) [of "trie_root t" "(trie_count t, [])"]
    by (simp add: trie_release_def trie_map_def dom_lookup [OF wf])
qed

theorem trie_release_frees_witness:
  "mset (trie_release (Some (trie_put trie_create [97] (5 :: nat)))) = {# 5 #}"
proof -
  have ok: "trie_ok (trie_put trie_create [97] (5 :: nat))"
    and m: "trie_map (trie_put trie_create [97] (5 :: nat)) = [[97] \<mapsto> 5]"
    using trie_store.run_one [OF trie_create_ok(1), of "Put [97] (5 :: nat)"] by (simp_all add: trie_create_ok(2))
  show ?thesis using trie_release_frees [OF ok] by (simp add: m)
qed

end
