(* ===== verification/Util.thy ===== *)
theory Util
  imports Sol_Prelude
begin

text \<open>
  \<^verbatim>\<open>src/sol/src/util.c\<close> and \<^verbatim>\<open>util.h\<close>: the length and the value of decimal numbers, removing a character
  from a string in place, appending to a string, the case-insensitive comparison \<^verbatim>\<open>STREQ\<close>, and the
  text a log line prints.

  A C string is a block with a terminating zero where its memory matters (\<^verbatim>\<open>remove_occur\<close>,
  \<^verbatim>\<open>append_string\<close>, \<^verbatim>\<open>sol_log\<close>) and the list of its bytes, without the zero, where only its
  characters are read.
\<close>

unbundle bit_operations_syntax

section \<open>Definitions\<close>

text \<open>The bytes of a string literal.\<close>

definition bytes :: "string \<Rightarrow> u8 list" where
  "bytes s = map of_char s"

function number_len_loop :: "nat \<Rightarrow> nat \<Rightarrow> nat" where
  "number_len_loop number len = (if number > 0 then number_len_loop (number div 10) (len + 1) else len)"
  by pat_completeness auto
termination
  by (relation "measure fst") auto

declare number_len_loop.simps [simp del]

definition number_len :: "u64 \<Rightarrow> nat" where
  "number_len number = number_len_loop (unat number) 1"

definition isdigit :: "u8 \<Rightarrow> bool" where
  "isdigit c \<longleftrightarrow> 48 \<le> c \<and> c \<le> 57"

text \<open>The accumulator is an \<^verbatim>\<open>int\<close>: a product or a sum outside its range is undefined.\<close>

fun parse_int_loop :: "u8 list \<Rightarrow> int \<Rightarrow> int res" where
  "parse_int_loop [] n = Inr n"
| "parse_int_loop (c # cs) n =
     (if c \<noteq> 0 \<and> isdigit c then
        let n' = n * 10 + uint (c - 48) in
        if in_int (n * 10) \<and> in_int n' then parse_int_loop cs n' else Inl Signed_overflow
      else Inr n)"

definition parse_int :: "u8 list \<Rightarrow> int res" where
  "parse_int s = parse_int_loop s 0"

text \<open>
  \<^verbatim>\<open>remove_occur\<close> reads through \<open>p\<close> and writes through \<open>pp\<close> in the same block.
\<close>

function remove_occur_loop :: "u8 \<Rightarrow> nat \<Rightarrow> nat \<Rightarrow> u8 list \<Rightarrow> u8 list res" where
  "remove_occur_loop c p pp str =
     (if p < length str then
        if str ! p = 0 then Inr (str[pp := 0])
        else let x = str ! p; str' = str[pp := x] in
             remove_occur_loop c (p + 1) (if x \<noteq> c then pp + 1 else pp) str'
      else Inl Over_read)"
  by pat_completeness auto
termination
  by (relation "measure (\<lambda>(c, p, pp, str). length str - p)") auto

declare remove_occur_loop.simps [simp del]

definition remove_occur :: "u8 list \<Rightarrow> u8 \<Rightarrow> u8 list res" where
  "remove_occur str c = remove_occur_loop c 0 0 str"

text \<open>The characters of a block up to its terminating zero.\<close>

definition str_of :: "u8 list \<Rightarrow> u8 list" where
  "str_of b = takeWhile (\<lambda>x. x \<noteq> 0) b"

definition append_string :: "block \<Rightarrow> block \<Rightarrow> nat \<Rightarrow> block res" where
  "append_string src chunk chunklen =
     rbind (strlen src) (\<lambda>srclen.
     rbind (read_cells src srclen) (\<lambda>s.
     rbind (read_cells chunk chunklen) (\<lambda>c. Inr (map Some s @ map Some c @ [Some 0]))))"

definition tolower :: "u8 \<Rightarrow> u8" where
  "tolower c = (if 65 \<le> c \<and> c \<le> 90 then c + 32 else c)"

text \<open>\<^verbatim>\<open>strncasecmp(s1, s2, n) == 0\<close> on strings without their terminating zero.\<close>

fun streq :: "u8 list \<Rightarrow> u8 list \<Rightarrow> nat \<Rightarrow> bool" where
  "streq s1 s2 0 = True"
| "streq [] [] (Suc n) = True"
| "streq [] (c # s2) (Suc n) = False"
| "streq (c # s1) [] (Suc n) = False"
| "streq (a # s1) (b # s2) (Suc n) = (tolower a = tolower b \<and> streq s1 s2 n)"

text \<open>
  \<^verbatim>\<open>sol_log\<close>: the message buffer has 123 bytes; \<^verbatim>\<open>vsnprintf\<close> stores at most 122 characters and a
  zero, then three dots and a zero are stored at 119 whatever the length was; \<^verbatim>\<open>%s\<close> prints it up
  to the first zero.
\<close>

abbreviation (input) MAX_LOG_SIZE :: nat where "MAX_LOG_SIZE \<equiv> 119"

definition log_buffer :: "u8 list \<Rightarrow> block" where
  "log_buffer m =
     (let n = min (length m) (MAX_LOG_SIZE + 3);
          b = map Some (take n m) @ [Some 0] @ replicate (MAX_LOG_SIZE + 4 - Suc n) None
      in take MAX_LOG_SIZE b @ map Some [46, 46, 46, 0])"

definition log_text :: "u8 list \<Rightarrow> u8 list res" where
  "log_text m = rbind (strlen (log_buffer m)) (read_cells (log_buffer m))"

section \<open>Decimal numbers\<close>

fun dec_digits :: "nat \<Rightarrow> u8 list" where
  "dec_digits n = (if n < 10 then [48 + of_nat n] else dec_digits (n div 10) @ [48 + of_nat (n mod 10)])"

declare dec_digits.simps [simp del]

lemma number_len_loop_digits:
  "number_len_loop n k = k + (if n = 0 then 0 else length (dec_digits n))"
proof (induction n k rule: number_len_loop.induct)
  case (1 n k)
  show ?case
  proof (cases "n < 10")
    case True
    then show ?thesis
      by (simp add: number_len_loop.simps [of n k] number_len_loop.simps [of 0] dec_digits.simps [of n])
  next
    case False
    then have "n div 10 \<noteq> 0" by simp
    with False 1 show ?thesis
      by (simp add: number_len_loop.simps [of n k] dec_digits.simps [of n])
  qed
qed

lemma isdigit_dec: "d < 10 \<Longrightarrow> isdigit (48 + of_nat d)"
  by (simp add: isdigit_def word_le_nat_alt unat_word_ariths unat_of_nat_small)

lemma dec_digit_value: "d < 10 \<Longrightarrow> uint (of_nat d :: u8) = int d"
  by (simp add: unsigned_of_nat take_bit_nat_eq_self)

lemma isdigit_nonzero: "isdigit c \<Longrightarrow> c \<noteq> 0"
  by (auto simp: isdigit_def)

lemma parse_int_digit:
  assumes "d < 10" and "0 \<le> a" and "a * 10 + int d \<le> int_max"
  shows "parse_int_loop ((48 + of_nat d) # cs) a = parse_int_loop cs (a * 10 + int d)"
proof -
  have "in_int (a * 10)" "in_int (a * 10 + int d)"
    using assms unfolding in_int_def int_max_def by linarith+
  with assms(1) show ?thesis
    by (simp add: isdigit_dec isdigit_nonzero Let_def dec_digit_value)
qed

lemma parse_int_loop_digits:
  "int n \<le> int_max \<Longrightarrow> parse_int_loop (dec_digits n @ rest) 0 = parse_int_loop rest (int n)"
proof (induction n arbitrary: rest rule: dec_digits.induct)
  case (1 n)
  show ?case
  proof (cases "n < 10")
    case True
    then show ?thesis
      using parse_int_digit [of n 0 rest] 1(2) by (simp add: dec_digits.simps [of n])
  next
    case False
    have split: "int (n div 10) * 10 + int (n mod 10) = int n" by presburger
    have "parse_int_loop (dec_digits n @ rest) 0 =
      parse_int_loop (dec_digits (n div 10) @ (48 + of_nat (n mod 10)) # rest) 0"
      using False by (simp add: dec_digits.simps [of n])
    also have "\<dots> = parse_int_loop ((48 + of_nat (n mod 10)) # rest) (int (n div 10))"
      using False 1(2) by (intro 1(1)) (simp_all add: int_max_def)
    also have "\<dots> = parse_int_loop rest (int n)"
      using parse_int_digit [of "n mod 10" "int (n div 10)" rest] 1(2) unfolding split by simp
    finally show ?thesis .
  qed
qed

lemma parse_int_stop: "rest = [] \<or> \<not> isdigit (hd rest) \<Longrightarrow> parse_int_loop rest n = Inr n"
  by (cases rest) auto

lemma dec_digits_isdigit: "c \<in> set (dec_digits n) \<Longrightarrow> isdigit c"
proof (induction n rule: dec_digits.induct)
  case (1 n)
  then show ?case
    by (cases "n < 10") (auto simp: dec_digits.simps [of n] isdigit_dec)
qed

lemma dec_digits_nonempty [simp]: "dec_digits n \<noteq> []"
  by (subst dec_digits.simps) simp

text \<open>
  \<^verbatim>\<open>parse_int\<close> reads back the decimal digits of every number up to
  \<^verbatim>\<open>INT_MAX\<close>, whatever text that does not start with a digit follows, without a signed overflow.
  \<^verbatim>\<open>number_len\<close> of a non-zero number is the number of its digits plus one, the room for the digits
  and a terminator; of zero it is one, the room for the digit alone.
\<close>

lemma parse_int_print:
  assumes "int n \<le> int_max" and "rest = [] \<or> \<not> isdigit (hd rest)"
  shows "parse_int (dec_digits n @ rest) = Inr (int n)
    \<and> number_len (of_nat n) = (if n = 0 then 1 else length (dec_digits n) + 1)"
proof -
  have "unat (of_nat n :: u64) = n"
    using assms(1) by (intro unat_of_nat_small) (simp add: int_max_def)
  then show ?thesis using assms
    by (simp add: parse_int_def parse_int_loop_digits parse_int_stop number_len_def number_len_loop_digits)
qed

section \<open>Strings\<close>

lemma remove_occur_loop_filter:
  assumes "drop p str = s @ 0 # t" and "zero_free s" and "pp \<le> p" and "p < length str"
  shows "\<exists>t'. remove_occur_loop c p pp str = Inr (take pp str @ filter (\<lambda>x. x \<noteq> c) s @ 0 # t')
    \<and> length (take pp str @ filter (\<lambda>x. x \<noteq> c) s @ 0 # t') = length str"
  using assms
proof (induction s arbitrary: p pp str)
  case Nil
  then have "str ! p = 0" by (metis append_Nil hd_drop_conv_nth list.sel(1))
  moreover have "str[pp := 0] = take pp str @ 0 # drop (Suc pp) str"
    using Nil.prems by (intro upd_conv_take_nth_drop) simp
  ultimately show ?case
    using Nil.prems by (auto simp: remove_occur_loop.simps [of c p pp str])
next
  case (Cons x s)
  have x: "str ! p = x" "x \<noteq> 0"
    using Cons.prems by (metis append_Cons hd_drop_conv_nth list.sel(1)) (use Cons.prems in simp)
  define str' where "str' = str[pp := x]"
  have upd: "str' = take pp str @ x # drop (Suc pp) str"
    unfolding str'_def using Cons.prems by (intro upd_conv_take_nth_drop) simp
  have "drop (Suc p) str = s @ 0 # t"
    using Cons.prems(1) by (metis append_Cons drop_Suc list.sel(3) tl_drop)
  then have d: "drop (Suc p) str' = s @ 0 # t"
    using Cons.prems(3) by (simp add: str'_def)
  then have lt: "Suc p < length str'"
    by (metis append_is_Nil_conv drop_eq_Nil linorder_not_less list.distinct(1))
  define pp' where "pp' = (if x \<noteq> c then pp + 1 else pp)"
  have tk: "take pp' str' = take pp str @ (if x \<noteq> c then [x] else [])"
    using Cons.prems(3,4) by (auto simp: upd pp'_def min_def)
  have "remove_occur_loop c p pp str = remove_occur_loop c (Suc p) pp' str'"
    using x Cons.prems(4) by (simp add: remove_occur_loop.simps [of c p pp str] str'_def pp'_def)
  moreover obtain t' where "remove_occur_loop c (Suc p) pp' str' =
      Inr (take pp' str' @ filter (\<lambda>x. x \<noteq> c) s @ 0 # t')"
    "length (take pp' str' @ filter (\<lambda>x. x \<noteq> c) s @ 0 # t') = length str'"
  proof -
    have "pp' \<le> Suc p" using Cons.prems(3) by (simp add: pp'_def)
    with Cons.IH [OF d _ this lt] Cons.prems(2) that show thesis by auto
  qed
  ultimately show ?case unfolding tk by (auto simp: str'_def)
qed

lemma remove_occur_str:
  assumes "zero_free s"
  shows "\<exists>b. remove_occur (s @ 0 # t) c = Inr b \<and> length b = length (s @ 0 # t)
    \<and> str_of b = filter (\<lambda>x. x \<noteq> c) s"
proof -
  have "drop 0 (s @ 0 # t) = s @ 0 # t" by simp
  from remove_occur_loop_filter [OF this assms, of 0 c] obtain t'
    where t': "remove_occur (s @ 0 # t) c = Inr (filter (\<lambda>x. x \<noteq> c) s @ 0 # t')"
      "length (filter (\<lambda>x. x \<noteq> c) s @ 0 # t') = length (s @ 0 # t)"
    by (auto simp: remove_occur_def)
  have "str_of (filter (\<lambda>x. x \<noteq> c) s @ 0 # t') = filter (\<lambda>x. x \<noteq> c) s"
    using assms unfolding str_of_def zero_free_def by (subst takeWhile_append2) auto
  with t' show ?thesis by blast
qed

lemma append_string_cstr:
  "zero_free s \<Longrightarrow> n \<le> length c \<Longrightarrow> append_string (cstr s) (cstr c) n = Inr (cstr (s @ take n c))"
  by (simp add: append_string_def read_cells_cstr)
     (simp add: cstr_def read_cells_def take_map)

lemma streq_prefix:
  "streq s1 s2 (length s2) \<longleftrightarrow> length s2 \<le> length s1 \<and> map tolower (take (length s2) s1) = map tolower s2"
  by (induction s1 s2 "length s2" rule: streq.induct) (auto simp: Suc_le_eq)

lemma streq_prefix_left:
  "streq s1 s2 (length s1) \<longleftrightarrow> length s1 \<le> length s2 \<and> map tolower (take (length s1) s2) = map tolower s1"
  by (induction s1 s2 "length s1" rule: streq.induct) auto

lemma log_buffer_short:
  "length m < 119 \<Longrightarrow> \<exists>t. log_buffer m = map Some m @ Some 0 # t"
  by (cases "119 - length m") (simp_all add: log_buffer_def Let_def)

lemma log_buffer_long:
  "119 \<le> length m \<Longrightarrow> log_buffer m = map Some (take 119 m @ [46, 46, 46]) @ [Some 0]"
  by (simp add: log_buffer_def Let_def take_map min_def)

section \<open>Properties\<close>

text \<open>
  \<^verbatim>\<open>remove_occur\<close>, which reads and writes the same buffer, stays inside it, ends,
  and leaves the string without every occurrence of the character, the other characters in order.
\<close>

theorem remove_occur_filter:
  assumes "zero_free s"
  shows "\<exists>b. remove_occur (s @ 0 # t) c = Inr b \<and> length b = length (s @ 0 # t)
    \<and> str_of b = filter (\<lambda>x. x \<noteq> c) s"
  by (rule remove_occur_str [OF assms])

theorem remove_occur_filter_witness:
  "\<exists>b. remove_occur ([97, 47, 35] @ 0 # []) 35 = Inr b \<and> length b = length ([97, 47, 35] @ (0 :: u8) # [])
    \<and> str_of b = filter (\<lambda>x. x \<noteq> 35) [97, 47, 35]"
  by (rule remove_occur_filter) simp

lemma log_text_cut:
  assumes "zero_free m"
  shows "log_text m = Inr (if length m < 119 then m else take 119 m @ [46, 46, 46])"
proof (cases "length m < 119")
  case True
  then obtain t where t: "log_buffer m = map Some m @ Some 0 # t" using log_buffer_short by blast
  then show ?thesis using True assms by (simp add: log_text_def strlen_prefix)
next
  case False
  then have b: "log_buffer m = cstr (take 119 m @ [46, 46, 46])"
    by (simp add: log_buffer_long cstr_def)
  moreover have "zero_free (take 119 m @ [46, 46, 46])"
    using assms set_take_subset [of 119 m] by (auto simp: zero_free_def)
  ultimately show ?thesis using False
    using strlen_cstr [of "take 119 m @ [46, 46, 46]"] read_cells_cstr [of "take 119 m @ [46, 46, 46]"]
    by (simp add: log_text_def)
qed

end
