(* ===== verification/Hashtable.thy ===== *)
theory Hashtable
  imports Util Map_Spec
begin

text \<open>
  \<^verbatim>\<open>src/sol/src/hashtable.c\<close>: an open-addressing hash table with linear probing over at most eight slots,
  which doubles itself when it is half full or when eight slots in a row are taken.

  \<^item> a key is the list of the bytes of a C string before its terminator; a slot that is not taken
    keeps whatever key and value it had, as in the code; a slot from \<^verbatim>\<open>calloc\<close> has the empty key.
  \<^item> \<open>'s\<close> is the memory that the destructor and the callbacks of \<^verbatim>\<open>hashtable_map\<close> change. \<open>can n\<close> says whether
    \<^verbatim>\<open>calloc\<close> of \<open>n\<close> slots succeeds; \<^verbatim>\<open>calloc\<close> is the one thing here that is not under src/.
  \<^item> \<^verbatim>\<open>hashtable_put\<close> and \<^verbatim>\<open>hashtable_rehash\<close> call each other, and \<^verbatim>\<open>hashtable_put\<close> loops until a rehash makes room:
    they take fuel, \<open>None\<close> means that it ran out, and a lemma shows that some fuel is enough for every
    table when \<^verbatim>\<open>calloc\<close> fails beyond some size.
  \<^item> \<^verbatim>\<open>hashtable_hash\<close> finds an index of 64 bits and returns it as an \<^verbatim>\<open>int\<close> of 32 bits: beyond \<open>2^31\<close> slots the result can be another index, \<^verbatim>\<open>-HASHTABLE_FULL\<close> by
    accident, or negative, and then \<^verbatim>\<open>hashtable_put\<close> writes outside the array, which is the status \<open>HT_OOB\<close> of the model.
\<close>

unbundle bit_operations_syntax

section \<open>Hashing\<close>

definition crc32_tab :: "u64 list" where
  "crc32_tab = [
    0x00000000, 0x77073096, 0xee0e612c, 0x990951ba, 0x076dc419, 0x706af48f, 0xe963a535, 0x9e6495a3,
    0x0edb8832, 0x79dcb8a4, 0xe0d5e91e, 0x97d2d988, 0x09b64c2b, 0x7eb17cbd, 0xe7b82d07, 0x90bf1d91,
    0x1db71064, 0x6ab020f2, 0xf3b97148, 0x84be41de, 0x1adad47d, 0x6ddde4eb, 0xf4d4b551, 0x83d385c7,
    0x136c9856, 0x646ba8c0, 0xfd62f97a, 0x8a65c9ec, 0x14015c4f, 0x63066cd9, 0xfa0f3d63, 0x8d080df5,
    0x3b6e20c8, 0x4c69105e, 0xd56041e4, 0xa2677172, 0x3c03e4d1, 0x4b04d447, 0xd20d85fd, 0xa50ab56b,
    0x35b5a8fa, 0x42b2986c, 0xdbbbc9d6, 0xacbcf940, 0x32d86ce3, 0x45df5c75, 0xdcd60dcf, 0xabd13d59,
    0x26d930ac, 0x51de003a, 0xc8d75180, 0xbfd06116, 0x21b4f4b5, 0x56b3c423, 0xcfba9599, 0xb8bda50f,
    0x2802b89e, 0x5f058808, 0xc60cd9b2, 0xb10be924, 0x2f6f7c87, 0x58684c11, 0xc1611dab, 0xb6662d3d,
    0x76dc4190, 0x01db7106, 0x98d220bc, 0xefd5102a, 0x71b18589, 0x06b6b51f, 0x9fbfe4a5, 0xe8b8d433,
    0x7807c9a2, 0x0f00f934, 0x9609a88e, 0xe10e9818, 0x7f6a0dbb, 0x086d3d2d, 0x91646c97, 0xe6635c01,
    0x6b6b51f4, 0x1c6c6162, 0x856530d8, 0xf262004e, 0x6c0695ed, 0x1b01a57b, 0x8208f4c1, 0xf50fc457,
    0x65b0d9c6, 0x12b7e950, 0x8bbeb8ea, 0xfcb9887c, 0x62dd1ddf, 0x15da2d49, 0x8cd37cf3, 0xfbd44c65,
    0x4db26158, 0x3ab551ce, 0xa3bc0074, 0xd4bb30e2, 0x4adfa541, 0x3dd895d7, 0xa4d1c46d, 0xd3d6f4fb,
    0x4369e96a, 0x346ed9fc, 0xad678846, 0xda60b8d0, 0x44042d73, 0x33031de5, 0xaa0a4c5f, 0xdd0d7cc9,
    0x5005713c, 0x270241aa, 0xbe0b1010, 0xc90c2086, 0x5768b525, 0x206f85b3, 0xb966d409, 0xce61e49f,
    0x5edef90e, 0x29d9c998, 0xb0d09822, 0xc7d7a8b4, 0x59b33d17, 0x2eb40d81, 0xb7bd5c3b, 0xc0ba6cad,
    0xedb88320, 0x9abfb3b6, 0x03b6e20c, 0x74b1d29a, 0xead54739, 0x9dd277af, 0x04db2615, 0x73dc1683,
    0xe3630b12, 0x94643b84, 0x0d6d6a3e, 0x7a6a5aa8, 0xe40ecf0b, 0x9309ff9d, 0x0a00ae27, 0x7d079eb1,
    0xf00f9344, 0x8708a3d2, 0x1e01f268, 0x6906c2fe, 0xf762575d, 0x806567cb, 0x196c3671, 0x6e6b06e7,
    0xfed41b76, 0x89d32be0, 0x10da7a5a, 0x67dd4acc, 0xf9b9df6f, 0x8ebeeff9, 0x17b7be43, 0x60b08ed5,
    0xd6d6a3e8, 0xa1d1937e, 0x38d8c2c4, 0x4fdff252, 0xd1bb67f1, 0xa6bc5767, 0x3fb506dd, 0x48b2364b,
    0xd80d2bda, 0xaf0a1b4c, 0x36034af6, 0x41047a60, 0xdf60efc3, 0xa867df55, 0x316e8eef, 0x4669be79,
    0xcb61b38c, 0xbc66831a, 0x256fd2a0, 0x5268e236, 0xcc0c7795, 0xbb0b4703, 0x220216b9, 0x5505262f,
    0xc5ba3bbe, 0xb2bd0b28, 0x2bb45a92, 0x5cb36a04, 0xc2d7ffa7, 0xb5d0cf31, 0x2cd99e8b, 0x5bdeae1d,
    0x9b64c2b0, 0xec63f226, 0x756aa39c, 0x026d930a, 0x9c0906a9, 0xeb0e363f, 0x72076785, 0x05005713,
    0x95bf4a82, 0xe2b87a14, 0x7bb12bae, 0x0cb61b38, 0x92d28e9b, 0xe5d5be0d, 0x7cdcefb7, 0x0bdbdf21,
    0x86d3d2d4, 0xf1d4e242, 0x68ddb3f8, 0x1fda836e, 0x81be16cd, 0xf6b9265b, 0x6fb077e1, 0x18b74777,
    0x88085ae6, 0xff0f6a70, 0x66063bca, 0x11010b5c, 0x8f659eff, 0xf862ae69, 0x616bffd3, 0x166ccf45,
    0xa00ae278, 0xd70dd2ee, 0x4e048354, 0x3903b3c2, 0xa7672661, 0xd06016f7, 0x4969474d, 0x3e6e77db,
    0xaed16a4a, 0xd9d65adc, 0x40df0b66, 0x37d83bf0, 0xa9bcae53, 0xdebb9ec5, 0x47b2cf7f, 0x30b5ffe9,
    0xbdbdf21c, 0xcabac28a, 0x53b39330, 0x24b4a3a6, 0xbad03605, 0xcdd70693, 0x54de5729, 0x23d967bf,
    0xb3667a2e, 0xc4614ab8, 0x5d681b02, 0x2a6f2b94, 0xb40bbe37, 0xc30c8ea1, 0x5a05df1b, 0x2d02ef8d]"

fun crc32_loop :: "u8 list \<Rightarrow> u64 \<Rightarrow> u64" where
  "crc32_loop [] crc32val = crc32val"
| "crc32_loop (b # s) crc32val =
     crc32_loop s (crc32_tab ! unat ((crc32val XOR ucast b) AND 0xff) XOR drop_bit 8 crc32val)"

definition crc32 :: "u8 list \<Rightarrow> u64" where
  "crc32 s = crc32_loop s 0"

abbreviation (input) KNUTH_PRIME :: u64 where "KNUTH_PRIME \<equiv> 2654435761"
abbreviation (input) INITIAL_SIZE :: nat where "INITIAL_SIZE \<equiv> 4"
abbreviation (input) HASHTABLE_FULL :: int where "HASHTABLE_FULL \<equiv> 3"
abbreviation (input) MAX_CHAIN_LENGTH :: nat where "MAX_CHAIN_LENGTH \<equiv> 8"

definition mix :: "u64 \<Rightarrow> u64" where
  "mix key0 =
     (let key = key0 + push_bit 12 key0;
          key = key XOR drop_bit 22 key;
          key = key + push_bit 4 key;
          key = key XOR drop_bit 9 key;
          key = key + push_bit 10 key;
          key = key XOR drop_bit 2 key;
          key = key + push_bit 7 key;
          key = key XOR drop_bit 12 key
      in drop_bit 3 key * KNUTH_PRIME)"

definition hash_int :: "u64 \<Rightarrow> u8 list \<Rightarrow> u64" where
  "hash_int table_size keystr = mix (crc32 keystr) mod table_size"

section \<open>The table\<close>

record 'v hentry =
  he_key :: "u8 list"
  he_val :: "'v option"
  he_taken :: bool

record ('v, 's) hashtable =
  ht_table_size :: u64
  ht_size :: u64
  ht_destructor :: "'v hentry \<Rightarrow> 's \<Rightarrow> int \<times> 's"
  ht_entries :: "'v hentry list"

definition empty_slot :: "'v hentry" where
  "empty_slot = \<lparr>he_key = [], he_val = None, he_taken = False\<rparr>"

definition slot :: "('v, 's) hashtable \<Rightarrow> u64 \<Rightarrow> 'v hentry" where
  "slot t i = ht_entries t ! unat i"

definition next_slot :: "('v, 's) hashtable \<Rightarrow> u64 \<Rightarrow> u64" where
  "next_slot t cur = (cur + 1) mod ht_table_size t"

definition hashtable_hash_int :: "('v, 's) hashtable \<Rightarrow> u8 list \<Rightarrow> u64" where
  "hashtable_hash_int m keystr = hash_int (ht_table_size m) keystr"

text \<open>The probing loops: \<open>n\<close> slots are left to look at.\<close>

fun hash_probe :: "nat \<Rightarrow> ('v, 's) hashtable \<Rightarrow> u8 list \<Rightarrow> u64 \<Rightarrow> u64 option" where
  "hash_probe 0 t key cur = None"
| "hash_probe (Suc n) t key cur =
     (if \<not> he_taken (slot t cur) then Some cur
      else if streq (he_key (slot t cur)) key (length (he_key (slot t cur))) then Some cur
      else hash_probe n t key (next_slot t cur))"

text \<open>The search of \<^verbatim>\<open>hashtable_hash\<close>; \<open>None\<close> where it returns \<^verbatim>\<open>-HASHTABLE_FULL\<close>.\<close>

definition hash_slot :: "('v, 's) hashtable \<Rightarrow> u8 list \<Rightarrow> u64 option" where
  "hash_slot t key =
     (if ht_size t \<ge> ht_table_size t div 2 then None
      else hash_probe MAX_CHAIN_LENGTH t key (hashtable_hash_int t key))"

text \<open>The conversion of a \<^verbatim>\<open>uint64_t\<close> to the return type \<^verbatim>\<open>int\<close>, modulo \<open>2^32\<close>.\<close>

definition to_int32 :: "u64 \<Rightarrow> int" where
  "to_int32 x = (let y = uint x mod 4294967296 in if y < 2147483648 then y else y - 4294967296)"

definition hashtable_hash :: "('v, 's) hashtable \<Rightarrow> u8 list \<Rightarrow> int" where
  "hashtable_hash t key = (case hash_slot t key of None \<Rightarrow> - HASHTABLE_FULL | Some i \<Rightarrow> to_int32 i)"

fun get_probe :: "nat \<Rightarrow> ('v, 's) hashtable \<Rightarrow> u8 list \<Rightarrow> u64 \<Rightarrow> u64 option" where
  "get_probe 0 t key cur = None"
| "get_probe (Suc n) t key cur =
     (if he_taken (slot t cur) \<and> streq (he_key (slot t cur)) key (length key) then Some cur
      else get_probe n t key (next_slot t cur))"

text \<open>\<open>HT_OOB\<close>: \<^verbatim>\<open>table->entries[index]\<close> with a negative \<^verbatim>\<open>index\<close>. (An index that is not negative is within the array: \<open>to_int32_le\<close>.)\<close>

datatype ht_status = HT_OK | HT_ERR | HT_OOB

text \<open>What \<^verbatim>\<open>hashtable_put\<close> stores at the index it found.\<close>

definition put_at :: "('v, 's) hashtable \<Rightarrow> u64 \<Rightarrow> u8 list \<Rightarrow> 'v option \<Rightarrow> ('v, 's) hashtable" where
  "put_at t i key val =
     t\<lparr>ht_entries := (ht_entries t)[unat i := \<lparr>he_key = key, he_val = val, he_taken = True\<rparr>],
       ht_size := (if he_taken (slot t i) then ht_size t else ht_size t + 1)\<rparr>"

definition grown :: "('v, 's) hashtable \<Rightarrow> ('v, 's) hashtable" where
  "grown t = t\<lparr>ht_entries := replicate (unat (2 * ht_table_size t)) empty_slot,
     ht_table_size := 2 * ht_table_size t, ht_size := 0\<rparr>"

text \<open>No object is larger than half the address space; below that \<open>can\<close> decides.\<close>

definition calloc_ok :: "(u64 \<Rightarrow> bool) \<Rightarrow> u64 \<Rightarrow> bool" where
  "calloc_ok can n \<longleftrightarrow> unat n < 2 ^ 63 \<and> can n"

fun hashtable_put :: "(u64 \<Rightarrow> bool) \<Rightarrow> nat \<Rightarrow> ('v, 's) hashtable \<Rightarrow> u8 list \<Rightarrow> 'v option
      \<Rightarrow> (('v, 's) hashtable \<times> ht_status) option"
  and hashtable_rehash :: "(u64 \<Rightarrow> bool) \<Rightarrow> nat \<Rightarrow> ('v, 's) hashtable
      \<Rightarrow> (('v, 's) hashtable \<times> ht_status) option"
  and rehash_loop :: "(u64 \<Rightarrow> bool) \<Rightarrow> nat \<Rightarrow> 'v hentry list \<Rightarrow> ('v, 's) hashtable
      \<Rightarrow> (('v, 's) hashtable \<times> ht_status) option" where
  "hashtable_put can 0 t key val = None"
| "hashtable_put can (Suc f) t key val =
     (if hashtable_hash t key = - HASHTABLE_FULL then
        (case hashtable_rehash can f t of
           None \<Rightarrow> None
         | Some (t', HT_ERR) \<Rightarrow> Some (t', HT_ERR)
         | Some (t', HT_OOB) \<Rightarrow> Some (t', HT_OOB)
         | Some (t', HT_OK) \<Rightarrow> hashtable_put can f t' key val)
      else if hashtable_hash t key < 0 then Some (t, HT_OOB)
      else Some (put_at t (of_int (hashtable_hash t key)) key val, HT_OK))"
| "hashtable_rehash can 0 t = None"
| "hashtable_rehash can (Suc f) t =
     (if calloc_ok can (2 * ht_table_size t) then rehash_loop can f (ht_entries t) (grown t)
      else Some (t, HT_ERR))"
| "rehash_loop can 0 es t = None"
| "rehash_loop can (Suc f) [] t = Some (t, HT_OK)"
| "rehash_loop can (Suc f) (e # es) t =
     (if \<not> he_taken e then rehash_loop can f es t
      else (case hashtable_put can f t (he_key e) (he_val e) of
              None \<Rightarrow> None
            | Some (t', HT_ERR) \<Rightarrow> Some (t', HT_ERR)
            | Some (t', HT_OOB) \<Rightarrow> Some (t', HT_OOB)
            | Some (t', HT_OK) \<Rightarrow> rehash_loop can f es t'))"

text \<open>
  The default destructor frees the key and the value: the memory is the list of what was freed.
\<close>

definition destroy_entry :: "'v hentry \<Rightarrow> (u8 list + 'v) list \<Rightarrow> int \<times> (u8 list + 'v) list" where
  "destroy_entry e m = (0, (case he_val e of None \<Rightarrow> [] | Some v \<Rightarrow> [Inr v]) @ Inl (he_key e) # m)"

text \<open>
  \<open>m1\<close> and \<open>m2\<close> say whether the two allocations succeed; a null destructor argument is \<open>destroy_entry\<close>. When the second fails, \<^verbatim>\<open>hashtable_release\<close> reads the size of
  the table before anything was stored in it.
\<close>

definition hashtable_create :: "bool \<Rightarrow> bool \<Rightarrow> ('v hentry \<Rightarrow> 's \<Rightarrow> int \<times> 's)
    \<Rightarrow> ('v, 's) hashtable option res" where
  "hashtable_create m1 m2 d =
     (if \<not> m1 then Inr None
      else if \<not> m2 then Inl Uninit_read
      else Inr (Some \<lparr>ht_table_size = of_nat INITIAL_SIZE, ht_size = 0, ht_destructor = d,
                 ht_entries = replicate INITIAL_SIZE empty_slot\<rparr>))"

definition hashtable_size :: "('v, 's) hashtable \<Rightarrow> u64" where
  "hashtable_size t = ht_size t"

definition hashtable_get :: "('v, 's) hashtable \<Rightarrow> u8 list \<Rightarrow> 'v option" where
  "hashtable_get t key =
     (case get_probe MAX_CHAIN_LENGTH t key (hashtable_hash_int t key) of
        None \<Rightarrow> None | Some i \<Rightarrow> he_val (slot t i))"

definition hashtable_exists :: "('v, 's) hashtable \<Rightarrow> u8 list \<Rightarrow> int" where
  "hashtable_exists t key = (if hashtable_get t key = None then 0 else 1)"

definition hashtable_del :: "('v, 's) hashtable \<Rightarrow> u8 list \<Rightarrow> 's \<Rightarrow> ('v, 's) hashtable \<times> 's \<times> ht_status" where
  "hashtable_del t key m =
     (case get_probe MAX_CHAIN_LENGTH t key (hashtable_hash_int t key) of
        None \<Rightarrow> (t, m, HT_ERR)
      | Some i \<Rightarrow>
          (let e = (slot t i)\<lparr>he_taken := False\<rparr> in
           (t\<lparr>ht_entries := (ht_entries t)[unat i := e], ht_size := ht_size t - 1\<rparr>,
            snd (ht_destructor t e m), HT_OK)))"

text \<open>The loop of \<^verbatim>\<open>hashtable_map\<close> and \<^verbatim>\<open>hashtable_map2\<close>: a callback that does not return 0 ends it.\<close>

fun map_loop :: "('v hentry \<Rightarrow> 's \<Rightarrow> int \<times> 's) \<Rightarrow> 'v hentry list \<Rightarrow> 's \<Rightarrow> int \<times> 's" where
  "map_loop func [] m = (0, m)"
| "map_loop func (e # es) m =
     (if he_taken e
      then (let (status, m') = func e m in if status \<noteq> 0 then (status, m') else map_loop func es m')
      else map_loop func es m)"

definition hashtable_map :: "('v, 's) hashtable option \<Rightarrow> ('v hentry \<Rightarrow> 's \<Rightarrow> int \<times> 's) option
    \<Rightarrow> 's \<Rightarrow> int \<times> 's" where
  "hashtable_map table func m =
     (case func of None \<Rightarrow> (- 1, m)
      | Some f \<Rightarrow>
        (case table of None \<Rightarrow> (- 1, m)
         | Some t \<Rightarrow> if ht_size t \<le> 0 then (- 1, m) else map_loop f (ht_entries t) m))"

definition hashtable_map2 :: "('v, 's) hashtable option \<Rightarrow> ('v hentry \<Rightarrow> 'p \<Rightarrow> 's \<Rightarrow> int \<times> 's) option \<Rightarrow> 'p
    \<Rightarrow> 's \<Rightarrow> (int \<times> 's) res" where
  "hashtable_map2 table func param m =
     (case func of None \<Rightarrow> Inl Assert_fail
      | Some f \<Rightarrow>
        (case table of None \<Rightarrow> Inr (- 1, m)
         | Some t \<Rightarrow> if ht_size t \<le> 0 then Inr (- 1, m)
                    else Inr (map_loop (\<lambda>e. f e param) (ht_entries t) m)))"

definition hashtable_release :: "('v, 's) hashtable option \<Rightarrow> 's \<Rightarrow> 's" where
  "hashtable_release table m =
     (case table of None \<Rightarrow> m | Some t \<Rightarrow> snd (hashtable_map table (Some (ht_destructor t)) m))"

section \<open>The checksum is a CRC\<close>

text \<open>
  The bitwise definition of the reflected CRC with the polynomial \<open>0xEDB88320\<close>: one step per bit,
  the lowest bit first.
\<close>

definition crc_bit :: "u64 \<Rightarrow> u64" where
  "crc_bit x = drop_bit 1 x XOR (if bit x 0 then 0xEDB88320 else 0)"

definition crc_byte :: "u64 \<Rightarrow> u64" where
  "crc_byte x = (crc_bit ^^ 8) x"

fun crc_bitwise :: "u8 list \<Rightarrow> u64 \<Rightarrow> u64" where
  "crc_bitwise [] c = c"
| "crc_bitwise (b # s) c = crc_bitwise s (crc_byte (c XOR ucast b))"

lemma crc_bit_xor: "crc_bit (x XOR y) = crc_bit x XOR crc_bit y"
  by (rule bit_word_eqI) (auto simp: crc_bit_def bit_simps)

lemma crc_bits_xor: "(crc_bit ^^ n) (x XOR y) = (crc_bit ^^ n) x XOR (crc_bit ^^ n) y"
  by (induction n) (simp_all add: crc_bit_xor)

lemma crc_bits_high: "take_bit n x = 0 \<Longrightarrow> (crc_bit ^^ n) x = drop_bit n x"
proof (induction n arbitrary: x)
  case (Suc n)
  have b: "\<not> bit x k" if "k < Suc n" for k
    using Suc.prems that bit_take_bit_iff [of "Suc n" x k] by simp
  then have "crc_bit x = drop_bit 1 x" using b [of 0] by (simp add: crc_bit_def)
  moreover have "take_bit n (drop_bit 1 x) = 0"
    using b by (intro bit_word_eqI) (auto simp: bit_simps)
  ultimately show ?case using Suc.IH [of "drop_bit 1 x"] by (simp add: funpow_swap1)
qed simp

text \<open>By linearity the table is built up by doubling from the entries of the eight powers of two.\<close>

definition ext_table :: "u64 list \<Rightarrow> u64 \<Rightarrow> u64 list" where
  "ext_table l b = l @ map (\<lambda>x. b XOR x) l"

definition table_upto :: "nat \<Rightarrow> u64 list \<Rightarrow> bool" where
  "table_upto n l \<longleftrightarrow> length l = 2 ^ n \<and> (\<forall>i < 2 ^ n. l ! i = crc_byte (of_nat i))"

lemma crc_byte_split: "n < 64 \<Longrightarrow> j < 2 ^ n \<Longrightarrow> crc_byte (of_nat (2 ^ n + j)) = crc_byte (2 ^ n) XOR crc_byte (of_nat j)"
proof -
  assume n: "n < 64" "j < 2 ^ n"
  have lo: "bit (of_nat j :: u64) k \<Longrightarrow> k < n" for k
    using n(2) by (auto simp: bit_simps) (metis bit_take_bit_iff take_bit_nat_eq_self)
  have "of_nat (2 ^ n + j) = (2 ^ n :: u64) + of_nat j" by simp
  also have "\<dots> = 2 ^ n XOR of_nat j"
    using lo by (intro disjunctive_add_eq_xor bit_word_eqI) (auto simp: bit_simps)
  finally show ?thesis by (simp add: crc_byte_def crc_bits_xor)
qed

lemma table_upto_ext:
  assumes "table_upto n l" and "n < 64" and "b = crc_byte (2 ^ n)"
  shows "table_upto (Suc n) (ext_table l b)"
proof -
  have "ext_table l b ! i = crc_byte (of_nat i)" if i: "i < 2 ^ Suc n" for i
  proof (cases "i < 2 ^ n")
    case True
    then show ?thesis using assms(1) by (simp add: ext_table_def table_upto_def nth_append)
  next
    case False
    then obtain j where j: "i = 2 ^ n + j" "j < 2 ^ n" using i by (metis le_Suc_ex linorder_not_less mult_2 nat_add_left_cancel_less power_Suc)
    then show ?thesis using assms crc_byte_split [of n j]
      by (simp add: ext_table_def table_upto_def nth_append)
  qed
  then show ?thesis using assms(1) by (simp add: table_upto_def ext_table_def)
qed

lemma crc_byte_steps:
  "crc_byte x = crc_bit (crc_bit (crc_bit (crc_bit (crc_bit (crc_bit (crc_bit (crc_bit x)))))))"
  by (simp add: crc_byte_def eval_nat_numeral)

lemma crc_byte_powers:
  "crc_byte (2 ^ 0) = 0x77073096" "crc_byte (2 ^ 1) = 0xee0e612c" "crc_byte (2 ^ 2) = 0x076dc419"
  "crc_byte (2 ^ 3) = 0x0edb8832" "crc_byte (2 ^ 4) = 0x1db71064" "crc_byte (2 ^ 5) = 0x3b6e20c8"
  "crc_byte (2 ^ 6) = 0x76dc4190" "crc_byte (2 ^ 7) = 0xedb88320"
  by (simp_all add: crc_byte_steps) (simp_all add: crc_bit_def)

lemma crc32_tab_halves:
  "take 2 crc32_tab = ext_table (take 1 crc32_tab) 0x77073096"
  "take 4 crc32_tab = ext_table (take 2 crc32_tab) 0xee0e612c"
  "take 8 crc32_tab = ext_table (take 4 crc32_tab) 0x076dc419"
  "take 16 crc32_tab = ext_table (take 8 crc32_tab) 0x0edb8832"
  "take 32 crc32_tab = ext_table (take 16 crc32_tab) 0x1db71064"
  "take 64 crc32_tab = ext_table (take 32 crc32_tab) 0x3b6e20c8"
  "take 128 crc32_tab = ext_table (take 64 crc32_tab) 0x76dc4190"
  "take 256 crc32_tab = ext_table (take 128 crc32_tab) 0xedb88320"
  by (simp_all add: ext_table_def crc32_tab_def)

lemma table_upto_step:
  assumes "table_upto n (take (2 ^ n) crc32_tab)" and "n < 64" and "m = Suc n"
    and "take (2 ^ m) crc32_tab = ext_table (take (2 ^ n) crc32_tab) (crc_byte (2 ^ n))"
  shows "table_upto m (take (2 ^ m) crc32_tab)"
  using table_upto_ext [OF assms(1,2) refl] assms(3,4) by simp

lemma crc_table: "i < 256 \<Longrightarrow> crc32_tab ! i = crc_byte (of_nat i)"
proof -
  note h = crc32_tab_halves [folded crc_byte_powers]
  have 0: "table_upto 0 (take (2 ^ 0) crc32_tab)"
    by (simp add: table_upto_def crc32_tab_def crc_byte_def crc_bit_def eval_nat_numeral)
  have 1: "table_upto 1 (take (2 ^ 1) crc32_tab)" by (rule table_upto_step [OF 0]) (use h(1) in simp_all)
  have 2: "table_upto 2 (take (2 ^ 2) crc32_tab)" by (rule table_upto_step [OF 1]) (use h(2) in simp_all)
  have 3: "table_upto 3 (take (2 ^ 3) crc32_tab)" by (rule table_upto_step [OF 2]) (use h(3) in simp_all)
  have 4: "table_upto 4 (take (2 ^ 4) crc32_tab)" by (rule table_upto_step [OF 3]) (use h(4) in simp_all)
  have 5: "table_upto 5 (take (2 ^ 5) crc32_tab)" by (rule table_upto_step [OF 4]) (use h(5) in simp_all)
  have 6: "table_upto 6 (take (2 ^ 6) crc32_tab)" by (rule table_upto_step [OF 5]) (use h(6) in simp_all)
  have 7: "table_upto 7 (take (2 ^ 7) crc32_tab)" by (rule table_upto_step [OF 6]) (use h(7) in simp_all)
  have 8: "table_upto 8 (take (2 ^ 8) crc32_tab)" by (rule table_upto_step [OF 7]) (use h(8) in simp_all)
  have "take 256 crc32_tab = crc32_tab" by (simp add: crc32_tab_def)
  then show "i < 256 \<Longrightarrow> crc32_tab ! i = crc_byte (of_nat i)" using 8 by (simp add: table_upto_def)
qed

lemma crc_byte_table: "crc_byte x = crc32_tab ! unat (x AND 0xff) XOR drop_bit 8 x"
proof -
  have m: "x AND 0xff = take_bit 8 x" by (simp add: take_bit_eq_mask mask_eq_exp_minus_1)
  have "unat (take_bit 8 x) < 2 ^ 8" unfolding unsigned_take_bit_eq by (rule take_bit_nat_less_exp)
  then have lo: "crc32_tab ! unat (x AND 0xff) = crc_byte (x AND 0xff)" by (simp add: m crc_table)
  have "take_bit 8 (push_bit 8 (drop_bit 8 x)) = 0" by (rule bit_word_eqI) (simp add: bit_simps)
  moreover have "bit x (8 + n) \<Longrightarrow> n < 56" for n using bit_imp_le_length [of x "8 + n"] by simp
  ultimately have "crc_byte (push_bit 8 (drop_bit 8 x)) = drop_bit 8 x"
    unfolding crc_byte_def by (subst crc_bits_high) (auto intro!: bit_word_eqI simp: bit_simps)
  moreover have "x = (x AND 0xff) XOR push_bit 8 (drop_bit 8 x)"
    unfolding m by (rule bit_word_eqI) (auto simp: bit_simps)
  then have "crc_byte x = crc_byte (x AND 0xff) XOR crc_byte (push_bit 8 (drop_bit 8 x))"
    unfolding crc_byte_def crc_bits_xor [symmetric] by (rule arg_cong)
  ultimately show ?thesis using lo by simp
qed

lemma crc32_loop_bitwise: "crc32_loop s c = crc_bitwise s c"
proof (induction s arbitrary: c)
  case (Cons b s)
  have "drop_bit 8 (c XOR ucast b) = drop_bit 8 c" by (rule bit_word_eqI) (auto simp: bit_simps dest: bit_imp_le_length)
  then show ?case using Cons by (simp add: crc_byte_table)
qed simp

section \<open>Probing\<close>

text \<open>Keys of one length in lower case, such as the textual UUIDs of closures: no key is a prefix of another.\<close>

definition plain_key :: "nat \<Rightarrow> u8 list \<Rightarrow> bool" where
  "plain_key L k \<longleftrightarrow> length k = L \<and> map tolower k = k"

lemma streq_plain: "plain_key L a \<Longrightarrow> plain_key L b \<Longrightarrow> streq a b (length a) \<longleftrightarrow> a = b"
  by (auto simp: streq_prefix_left plain_key_def)

definition probe :: "('v, 's) hashtable \<Rightarrow> u64 \<Rightarrow> nat \<Rightarrow> u64" where
  "probe t cur j = (next_slot t ^^ j) cur"

lemma probe_0 [simp]: "probe t cur 0 = cur" by (simp add: probe_def)

lemma probe_Suc: "probe t cur (Suc j) = probe t (next_slot t cur) j"
  by (simp add: probe_def funpow_swap1)

lemma get_probe_Some:
  "get_probe n t key cur = Some i \<Longrightarrow> \<exists>j < n. i = probe t cur j \<and> he_taken (slot t i) \<and> streq (he_key (slot t i)) key (length key)"
proof (induction n arbitrary: cur)
  case (Suc n)
  show ?case
  proof (cases "he_taken (slot t cur) \<and> streq (he_key (slot t cur)) key (length key)")
    case True
    then show ?thesis using Suc.prems by (intro exI [of _ 0]) (auto split: if_splits)
  next
    case False
    then have "get_probe n t key (next_slot t cur) = Some i" using Suc.prems by auto
    then show ?thesis using Suc.IH by (metis Suc_less_eq probe_Suc)
  qed
qed simp

lemma get_probe_None:
  "get_probe n t key cur = None \<Longrightarrow> j < n \<Longrightarrow>
     \<not> (he_taken (slot t (probe t cur j)) \<and> streq (he_key (slot t (probe t cur j))) key (length key))"
proof (induction n arbitrary: cur j)
  case (Suc n)
  then show ?case by (cases j) (auto simp: probe_Suc split: if_splits)
qed simp

lemma hash_probe_Some:
  "hash_probe n t key cur = Some i \<Longrightarrow> \<exists>j < n. i = probe t cur j
     \<and> (\<not> he_taken (slot t i) \<or> streq (he_key (slot t i)) key (length (he_key (slot t i))))"
proof (induction n arbitrary: cur)
  case (Suc n)
  show ?case
  proof (cases "\<not> he_taken (slot t cur) \<or> streq (he_key (slot t cur)) key (length (he_key (slot t cur)))")
    case True
    then show ?thesis using Suc.prems by (intro exI [of _ 0]) (auto split: if_splits)
  next
    case False
    then have "hash_probe n t key (next_slot t cur) = Some i" using Suc.prems by auto
    then show ?thesis using Suc.IH by (metis Suc_less_eq probe_Suc)
  qed
qed simp

lemma unat_next_slot:
  assumes "unat cur < unat (ht_table_size t)"
  shows "unat (next_slot t cur) = (unat cur + 1) mod unat (ht_table_size t)"
proof -
  have "unat (ht_table_size t) < 2 ^ 64" using unsigned_less [of "ht_table_size t"] by simp
  then have "unat (cur + 1) = unat cur + 1" using assms by (simp add: unat_word_ariths)
  then show ?thesis by (simp add: next_slot_def unat_mod_distrib)
qed

lemma unat_probe:
  "unat cur < unat (ht_table_size t) \<Longrightarrow> unat (probe t cur j) = (unat cur + j) mod unat (ht_table_size t)"
proof (induction j arbitrary: cur)
  case (Suc j)
  have "unat (next_slot t cur) < unat (ht_table_size t)"
    using unat_next_slot [OF Suc.prems] Suc.prems by simp
  from Suc.IH [OF this] show ?case
    by (simp add: probe_Suc unat_next_slot [OF Suc.prems] mod_simps)
qed simp

section \<open>The conversion of the index\<close>

lemma to_int32_le: "0 \<le> to_int32 i \<Longrightarrow> unat (of_int (to_int32 i) :: u64) \<le> unat i"
proof -
  assume "0 \<le> to_int32 i"
  then have e: "to_int32 i = uint i mod 4294967296" by (auto simp: to_int32_def Let_def split: if_splits)
  define m where "m = uint i mod 4294967296"
  have b: "0 \<le> m" "m < 4294967296" by (simp_all add: m_def)
  have "uint (of_int m :: u64) = m" using b by (simp add: uint_word_of_int)
  moreover have "m \<le> uint i" unfolding m_def by (rule zmod_le_nonneg_dividend) simp
  ultimately show ?thesis unfolding e m_def [symmetric] word_le_nat_alt [symmetric] word_le_def by simp
qed

lemma to_int32_id: "unat i < 2147483648 \<Longrightarrow> to_int32 i = uint i"
proof -
  assume "unat i < 2147483648"
  then have "int (unat i) < 2147483648" by linarith
  then have b: "uint i < 2147483648" by simp
  then have "uint i mod 4294967296 = uint i" by (intro mod_pos_pos_trivial) (simp, linarith)
  with b show ?thesis unfolding to_int32_def Let_def by presburger
qed

text \<open>The size up to which an index is what it seems.\<close>

definition fits :: "('v, 's) hashtable \<Rightarrow> bool" where
  "fits t \<longleftrightarrow> unat (ht_table_size t) \<le> 2 ^ 31"

lemma hash_slot_probe: "hash_slot t k = Some i \<Longrightarrow> \<exists>j. i = probe t (hashtable_hash_int t k) j"
  using hash_probe_Some by (fastforce simp: hash_slot_def split: if_splits)

lemma hash_slot_less:
  assumes "0 < unat (ht_table_size t)" "hash_slot t k = Some i"
  shows "unat i < unat (ht_table_size t)"
proof -
  have "unat (hashtable_hash_int t k) < unat (ht_table_size t)" using assms(1) by (simp add: hashtable_hash_int_def hash_int_def unat_mod_distrib)
  then show ?thesis using hash_slot_probe [OF assms(2)] unat_probe [of "hashtable_hash_int t k" t] assms(1) by auto
qed

lemma index_found:
  assumes "hashtable_hash t k \<noteq> - 3"
  obtains i where "hash_slot t k = Some i" "hashtable_hash t k = to_int32 i"
  using assms by (auto simp: hashtable_hash_def split: option.splits)

lemma index_fits:
  assumes "0 < unat (ht_table_size t)" "fits t" "hash_slot t k = Some i"
  shows "hashtable_hash t k = uint i" "(of_int (uint i) :: u64) = i"
  using hash_slot_less [OF assms(1,3)] assms(2) to_int32_id [of i] by (simp_all add: hashtable_hash_def assms(3) fits_def)

section \<open>The invariant\<close>

definition taken_of :: "'v hentry list \<Rightarrow> 'v hentry list" where
  "taken_of es = filter he_taken es"

definition content :: "'v hentry list \<Rightarrow> (u8 list \<times> 'v option) set" where
  "content es = (\<lambda>e. (he_key e, he_val e)) ` set (taken_of es)"

definition home :: "u64 \<Rightarrow> u8 list \<Rightarrow> nat" where
  "home ts k = unat (hash_int ts k)"

definition near_home :: "u64 \<Rightarrow> nat \<Rightarrow> u8 list \<Rightarrow> bool" where
  "near_home ts i k \<longleftrightarrow> (\<exists>j < 8. i = (home ts k + j) mod unat ts)"

definition ht_ok :: "nat \<Rightarrow> ('v, 's) hashtable \<Rightarrow> bool" where
  "ht_ok L t \<longleftrightarrow> 0 < unat (ht_table_size t) \<and> unat (ht_table_size t) < 2 ^ 63
     \<and> length (ht_entries t) = unat (ht_table_size t)
     \<and> unat (ht_size t) = length (taken_of (ht_entries t))
     \<and> distinct (map he_key (taken_of (ht_entries t)))
     \<and> (\<forall>i < length (ht_entries t). he_taken (ht_entries t ! i) \<longrightarrow>
          plain_key L (he_key (ht_entries t ! i)) \<and> near_home (ht_table_size t) i (he_key (ht_entries t ! i)))"

definition ht_view :: "('v, 's) hashtable \<Rightarrow> u8 list \<Rightarrow> 'v option" where
  "ht_view t k = (case List.find (\<lambda>e. he_key e = k) (taken_of (ht_entries t)) of None \<Rightarrow> None | Some e \<Rightarrow> he_val e)"

lemma home_less: "0 < unat ts \<Longrightarrow> home ts k < unat ts"
  by (simp add: home_def hash_int_def unat_mod_distrib)

lemma near_home_probe:
  assumes "0 < unat (ht_table_size t)"
  shows "near_home (ht_table_size t) i k \<longleftrightarrow> (\<exists>j < 8. i = unat (probe t (hashtable_hash_int t k) j))"
  using unat_probe [of "hashtable_hash_int t k" t] home_less [OF assms, of k]
  by (auto simp: near_home_def home_def hashtable_hash_int_def)

lemma taken_of_upd:
  assumes "i < length es"
  obtains xs ys where "taken_of es = xs @ (if he_taken (es ! i) then [es ! i] else []) @ ys"
    and "\<And>e. taken_of (es[i := e]) = xs @ (if he_taken e then [e] else []) @ ys"
proof
  have "taken_of es = taken_of (take i es @ es ! i # drop (Suc i) es)"
    using id_take_nth_drop [OF assms] by simp
  then show "taken_of es = taken_of (take i es) @ (if he_taken (es ! i) then [es ! i] else []) @ taken_of (drop (Suc i) es)"
    by (simp add: taken_of_def)
  show "taken_of (es[i := e]) = taken_of (take i es) @ (if he_taken e then [e] else []) @ taken_of (drop (Suc i) es)" for e
    using assms by (simp add: taken_of_def upd_conv_take_nth_drop)
qed

lemma find_key:
  "distinct (map he_key es) \<Longrightarrow> List.find (\<lambda>e. he_key e = k) es = Some e \<longleftrightarrow> e \<in> set es \<and> he_key e = k"
proof (induction es)
  case (Cons x es)
  then show ?case by (cases "he_key x = k"; cases "x = e") (fastforce simp: image_iff)+
qed simp

lemma ht_view_content:
  assumes "distinct (map he_key (taken_of (ht_entries t)))"
  shows "ht_view t k = Some v \<longleftrightarrow> (k, Some v) \<in> content (ht_entries t)"
proof -
  have "ht_view t k = Some v \<longleftrightarrow> (\<exists>e. List.find (\<lambda>e. he_key e = k) (taken_of (ht_entries t)) = Some e \<and> he_val e = Some v)"
    by (simp add: ht_view_def split: option.split)
  also have "\<dots> \<longleftrightarrow> (k, Some v) \<in> content (ht_entries t)"
    unfolding find_key [OF assms] by (force simp: content_def)
  finally show ?thesis .
qed

definition keys_of :: "'v hentry list \<Rightarrow> u8 list set" where
  "keys_of es = he_key ` set (taken_of es)"

lemma keys_content: "keys_of es = fst ` content es"
  by (simp add: keys_of_def content_def image_image)

lemma taken_nth: "i < length es \<Longrightarrow> he_taken (es ! i) \<Longrightarrow> es ! i \<in> set (taken_of es)"
  by (simp add: taken_of_def)

lemma taken_of_nth: "e \<in> set (taken_of es) \<Longrightarrow> \<exists>i < length es. e = es ! i \<and> he_taken (es ! i)"
  by (auto simp: taken_of_def in_set_conv_nth)

lemma ht_ok_plain: "ht_ok L t \<Longrightarrow> k \<in> keys_of (ht_entries t) \<Longrightarrow> plain_key L k"
  by (auto simp: keys_of_def ht_ok_def dest: taken_of_nth)

lemma probe_less: "ht_ok L t \<Longrightarrow> unat (probe t (hashtable_hash_int t k) j) < length (ht_entries t)"
  using unat_probe [of "hashtable_hash_int t k" t j] home_less [of "ht_table_size t" k]
  by (simp add: ht_ok_def home_def hashtable_hash_int_def)

text \<open>The lookup loop finds the entry of a plain key exactly when the table has one.\<close>

lemma get_probe_iff:
  assumes ok: "ht_ok L t" and k: "plain_key L k"
  shows "(get_probe 8 t k (hashtable_hash_int t k) = None \<longleftrightarrow> k \<notin> keys_of (ht_entries t))
    \<and> (get_probe 8 t k (hashtable_hash_int t k) = Some i \<longrightarrow>
         unat i < length (ht_entries t) \<and> he_taken (slot t i) \<and> he_key (slot t i) = k)"
proof -
  let ?h = "hashtable_hash_int t k"
  have st: "streq (he_key (ht_entries t ! i)) k (length k) \<longleftrightarrow> he_key (ht_entries t ! i) = k"
    if "i < length (ht_entries t)" "he_taken (ht_entries t ! i)" for i
    using that ok k streq_plain [of L "he_key (ht_entries t ! i)" k] by (auto simp: ht_ok_def plain_key_def)
  have some: "unat i < length (ht_entries t) \<and> he_taken (slot t i) \<and> he_key (slot t i) = k"
    if "get_probe 8 t k ?h = Some i" for i
    using get_probe_Some [OF that] probe_less [OF ok] st by (auto simp: slot_def)
  moreover have "k \<notin> keys_of (ht_entries t)" if "get_probe 8 t k ?h = None"
  proof
    assume "k \<in> keys_of (ht_entries t)"
    then obtain i where i: "i < length (ht_entries t)" "he_taken (ht_entries t ! i)" "he_key (ht_entries t ! i) = k"
      by (auto simp: keys_of_def dest: taken_of_nth)
    then have "near_home (ht_table_size t) i k" using ok by (auto simp: ht_ok_def)
    then obtain j where "j < 8" "i = unat (probe t ?h j)" using near_home_probe [of t i k] ok by (auto simp: ht_ok_def)
    then show False using get_probe_None [OF that, of j] i st [of i] by (simp add: slot_def)
  qed
  moreover have "k \<in> keys_of (ht_entries t)" if "get_probe 8 t k ?h = Some i" for i
    using some [OF that] taken_nth by (force simp: slot_def keys_of_def)
  ultimately show ?thesis by (cases "get_probe 8 t k ?h") auto
qed

lemma ht_view_nth:
  assumes ok: "ht_ok L t" and "i < length (ht_entries t)" "he_taken (ht_entries t ! i)"
  shows "ht_view t (he_key (ht_entries t ! i)) = he_val (ht_entries t ! i)"
proof -
  have d: "distinct (map he_key (taken_of (ht_entries t)))" using ok by (simp add: ht_ok_def)
  show ?thesis unfolding ht_view_def using find_key [OF d] taken_nth assms(2,3) by (metis option.simps(5))
qed

lemma ht_view_None: "k \<notin> keys_of (ht_entries t) \<Longrightarrow> ht_view t k = None"
  by (auto simp: ht_view_def keys_of_def find_None_iff find_Some_iff image_iff split: option.splits)

lemma hashtable_get_view:
  assumes "ht_ok L t" and "plain_key L k"
  shows "hashtable_get t k = ht_view t k"
proof (cases "get_probe 8 t k (hashtable_hash_int t k)")
  case None
  then show ?thesis using get_probe_iff [OF assms] ht_view_None [of k t] by (simp add: hashtable_get_def)
next
  case (Some i)
  then have "unat i < length (ht_entries t)" "he_taken (slot t i)" "he_key (slot t i) = k"
    using get_probe_iff [OF assms, of i] by auto
  then show ?thesis using ht_view_nth [OF assms(1), of "unat i"] Some by (simp add: hashtable_get_def slot_def)
qed

section \<open>Deleting\<close>

lemma option_eqI: "(\<And>v. a = Some v \<longleftrightarrow> b = Some v) \<Longrightarrow> a = b"
  by (cases a; cases b) auto


lemma hashtable_del_ok:
  assumes ok: "ht_ok L t" and k: "plain_key L k" and d: "hashtable_del t k m = (t', m', st)"
  shows "ht_ok L t' \<and> ht_view t' = (ht_view t)(k := None)
    \<and> (st = HT_OK \<longleftrightarrow> k \<in> keys_of (ht_entries t))"
proof (cases "get_probe 8 t k (hashtable_hash_int t k)")
  case None
  then show ?thesis using get_probe_iff [OF ok k] ht_view_None [of k t] d ok
    by (auto simp: hashtable_del_def fun_upd_idem)
next
  case (Some i)
  then have i: "unat i < length (ht_entries t)" "he_taken (slot t i)" "he_key (slot t i) = k"
    "k \<in> keys_of (ht_entries t)" using get_probe_iff [OF ok k, of i] by auto
  define e where "e = (slot t i)\<lparr>he_taken := False\<rparr>"
  have t': "t' = t\<lparr>ht_entries := (ht_entries t)[unat i := e], ht_size := ht_size t - 1\<rparr>" "st = HT_OK"
    using d Some by (simp_all add: hashtable_del_def e_def Let_def)
  obtain xs ys where u: "taken_of (ht_entries t) = xs @ (if he_taken (ht_entries t ! unat i) then [ht_entries t ! unat i] else []) @ ys"
    "taken_of ((ht_entries t)[unat i := e]) = xs @ (if he_taken e then [e] else []) @ ys"
    by (rule taken_of_upd [OF i(1)]) blast
  have tk: "taken_of (ht_entries t) = xs @ slot t i # ys" "taken_of (ht_entries t') = xs @ ys"
    using u i(2) by (simp_all add: slot_def t' e_def)
  have dist: "distinct (map he_key (xs @ slot t i # ys))" using ok tk(1) by (simp add: ht_ok_def)
  have sz: "unat (ht_size t) = Suc (length (xs @ ys))" using ok tk(1) by (simp add: ht_ok_def)
  then have "unat (ht_size t - 1) = length (xs @ ys)" by (simp add: unat_sub word_le_nat_alt)
  moreover have "\<forall>j < length (ht_entries t'). he_taken (ht_entries t' ! j) \<longrightarrow> ht_entries t' ! j = ht_entries t ! j"
    using i(1) by (simp add: t' nth_list_update e_def)
  ultimately have "ht_ok L t'" using ok tk(2) dist by (auto simp: ht_ok_def t')
  moreover have "ht_view t' x = ((ht_view t)(k := None)) x" for x
  proof (rule option_eqI)
    fix v
    have d: "distinct (map he_key (taken_of (ht_entries t)))" "distinct (map he_key (taken_of (ht_entries t')))"
      using dist by (simp_all add: tk)
    have "(x, Some v) \<in> content (ht_entries t') \<longleftrightarrow> x \<noteq> k \<and> (x, Some v) \<in> content (ht_entries t)"
      using dist i(3) by (auto simp: content_def tk) (metis image_eqI)+
    then show "ht_view t' x = Some v \<longleftrightarrow> ((ht_view t)(k := None)) x = Some v"
      using ht_view_content [OF d(1)] ht_view_content [OF d(2)] by simp
  qed
  ultimately show ?thesis using t'(2) i(4) by auto
qed

section \<open>Inserting and growing\<close>

lemma put_at_ok:
  assumes ok: "ht_ok L t" and k: "plain_key L k" and new: "k \<notin> keys_of (ht_entries t)"
    and h: "hash_slot t k = Some i"
  shows "ht_ok L (put_at t i k v) \<and> content (ht_entries (put_at t i k v)) = insert (k, v) (content (ht_entries t))"
proof -
  have hp: "hash_probe 8 t k (hashtable_hash_int t k) = Some i" and half: "ht_size t < ht_table_size t div 2"
    using h by (simp_all add: hash_slot_def not_le split: if_splits)
  from hash_probe_Some [OF hp] obtain j where j: "j < 8" "i = probe t (hashtable_hash_int t k) j"
    "\<not> he_taken (slot t i) \<or> streq (he_key (slot t i)) k (length (he_key (slot t i)))" by blast
  have lt: "unat i < length (ht_entries t)" using probe_less [OF ok] j(2) by simp
  have free: "\<not> he_taken (slot t i)"
  proof
    assume tk: "he_taken (slot t i)"
    then have in_keys: "he_key (slot t i) \<in> keys_of (ht_entries t)"
      using taken_nth lt by (auto simp: slot_def keys_of_def)
    then have "he_key (slot t i) = k" using j(3) tk streq_plain [OF ht_ok_plain [OF ok] k] by simp
    then show False using in_keys new by simp
  qed
  define e where "e = \<lparr>he_key = k, he_val = v, he_taken = True\<rparr>"
  have t': "put_at t i k v = t\<lparr>ht_entries := (ht_entries t)[unat i := e], ht_size := ht_size t + 1\<rparr>"
    using free by (simp add: put_at_def e_def)
  obtain xs ys where u: "taken_of (ht_entries t) = xs @ (if he_taken (ht_entries t ! unat i) then [ht_entries t ! unat i] else []) @ ys"
    "taken_of ((ht_entries t)[unat i := e]) = xs @ (if he_taken e then [e] else []) @ ys"
    by (rule taken_of_upd [OF lt]) blast
  have tk: "taken_of (ht_entries t) = xs @ ys" "taken_of ((ht_entries t)[unat i := e]) = xs @ e # ys"
    using u free by (simp_all add: slot_def e_def)
  have "k \<notin> he_key ` set (xs @ ys)" using new tk(1) by (simp add: keys_of_def)
  then have dist: "distinct (map he_key (xs @ e # ys))" using ok tk(1) by (auto simp: ht_ok_def e_def)
  have "unat (ht_size t) < 2 ^ 63" using half ok by (auto simp: word_less_nat_alt unat_div_distrib ht_ok_def)
  then have sz: "unat (ht_size t + 1) = length (xs @ e # ys)"
    using ok tk(1) by (simp add: ht_ok_def unat_word_ariths)
  have "near_home (ht_table_size t) (unat i) k"
    using near_home_probe [of t] ok j by (auto simp: ht_ok_def)
  then have pos: "\<forall>j < length (ht_entries t). he_taken ((ht_entries t)[unat i := e] ! j) \<longrightarrow>
      plain_key L (he_key ((ht_entries t)[unat i := e] ! j))
      \<and> near_home (ht_table_size t) j (he_key ((ht_entries t)[unat i := e] ! j))"
    using ok k lt by (auto simp: ht_ok_def nth_list_update e_def)
  have "ht_ok L (put_at t i k v)"
    using ok tk(2) dist sz pos by (simp add: ht_ok_def t')
  moreover have "content (ht_entries (put_at t i k v)) = insert (k, v) (content (ht_entries t))"
  proof -
    have "he_key e = k" "he_val e = v" by (simp_all add: e_def)
    then show ?thesis by (auto simp: content_def t' tk)
  qed
  ultimately show ?thesis by blast
qed

lemma taken_of_empty: "taken_of (replicate n empty_slot) = []"
  by (induction n) (simp_all add: taken_of_def empty_slot_def)

lemma empty_slot_free [simp]: "\<not> he_taken empty_slot"
  by (simp add: empty_slot_def)

lemma grown_ok:
  assumes "ht_ok L t" and "calloc_ok can (2 * ht_table_size t)"
  shows "ht_ok L (grown t)" "content (ht_entries (grown t)) = {}"
    and "unat (ht_table_size (grown t)) = 2 * unat (ht_table_size t)"
proof -
  have dbl: "unat (2 * ht_table_size t) = 2 * unat (ht_table_size t)"
    using assms(1) by (simp add: ht_ok_def unat_word_ariths)
  then show "unat (ht_table_size (grown t)) = 2 * unat (ht_table_size t)" by (simp add: grown_def)
  note none = taken_of_empty
  then show "content (ht_entries (grown t)) = {}" by (simp add: content_def grown_def)
  show "ht_ok L (grown t)"
    using assms dbl by (simp add: ht_ok_def grown_def calloc_ok_def none)
qed

definition sizes_ok :: "('v, 's) hashtable \<Rightarrow> bool" where
  "sizes_ok t \<longleftrightarrow> 0 < unat (ht_table_size t) \<and> unat (ht_table_size t) < 2 ^ 63"

lemma grown_size:
  "sizes_ok t \<Longrightarrow> calloc_ok can (2 * ht_table_size t) \<Longrightarrow>
     sizes_ok (grown t) \<and> unat (ht_table_size (grown t)) = 2 * unat (ht_table_size t)"
  by (simp add: sizes_ok_def grown_def calloc_ok_def unat_word_ariths)

lemma size_grows:
  "hashtable_put can f t key val = Some (t', st) \<Longrightarrow> sizes_ok t \<Longrightarrow>
     sizes_ok t' \<and> unat (ht_table_size t) \<le> unat (ht_table_size t')"
  "hashtable_rehash can f t = Some (t', st) \<Longrightarrow> sizes_ok t \<Longrightarrow>
     sizes_ok t' \<and> unat (ht_table_size t) \<le> unat (ht_table_size t') \<and> (st = HT_OK \<longrightarrow> unat (ht_table_size t) < unat (ht_table_size t'))"
  "rehash_loop can f es t = Some (t', st) \<Longrightarrow> sizes_ok t \<Longrightarrow>
     sizes_ok t' \<and> unat (ht_table_size t) \<le> unat (ht_table_size t')"
proof (induction can f t key val and can f t and can f es t arbitrary: t' st and t' st and t' st
    rule: hashtable_put_hashtable_rehash_rehash_loop.induct)
  case (2 can f t key val)
  show ?case
  proof (cases "hashtable_hash t key = - 3")
    case True
    with 2(3) obtain t1 st1 where r: "hashtable_rehash can f t = Some (t1, st1)" by (auto split: option.splits)
    note a = 2(1) [OF True r 2(4)]
    show ?thesis using 2(2) [OF True r refl] a 2(3) True r by (cases st1) force+
  next
    case False
    then show ?thesis using 2(3,4) by (auto simp: put_at_def sizes_ok_def split: if_splits)
  qed
next
  case (4 can f t)
  show ?case
  proof (cases "calloc_ok can (2 * ht_table_size t)")
    case True
    note g = grown_size [OF 4(3) True]
    have "rehash_loop can f (ht_entries t) (grown t) = Some (t', st)" using 4(2) True by simp
    from 4(1) [OF True this] g 4(3) show ?thesis by (auto simp: sizes_ok_def)
  qed (use 4 in auto)
next
  case (7 can f e es t)
  show ?case
  proof (cases "he_taken e")
    case True
    then have nn: "\<not> \<not> he_taken e" by simp
    with 7(4) obtain t1 st1 where r: "hashtable_put can f t (he_key e) (he_val e) = Some (t1, st1)"
      by (auto split: option.splits)
    note a = 7(2) [OF nn r 7(5)]
    show ?thesis using 7(3) [OF nn r refl] a 7(4) True r by (cases st1) force+
  next
    case False
    then show ?thesis using 7(1) [OF False _ 7(5)] 7(4) by simp
  qed
qed auto

lemma content_Cons: "content (e # es) = (if he_taken e then insert (he_key e, he_val e) (content es) else content es)"
  by (auto simp: content_def taken_of_def)

lemma ht_ok_sizes: "ht_ok L t \<Longrightarrow> sizes_ok t"
  by (simp add: ht_ok_def sizes_ok_def)

lemma put_rehash_ok:
  "ht_ok L t \<Longrightarrow> plain_key L key \<Longrightarrow> key \<notin> keys_of (ht_entries t) \<Longrightarrow>
     hashtable_put can f t key val = Some (t', HT_OK) \<Longrightarrow> fits t' \<Longrightarrow>
     ht_ok L t' \<and> content (ht_entries t') = insert (key, val) (content (ht_entries t))"
  "ht_ok L t \<Longrightarrow> hashtable_rehash can f t = Some (t', HT_OK) \<Longrightarrow> fits t' \<Longrightarrow>
     ht_ok L t' \<and> content (ht_entries t') = content (ht_entries t)"
  "ht_ok L t \<Longrightarrow> distinct (map he_key (taken_of es)) \<Longrightarrow> \<forall>k \<in> keys_of es. plain_key L k \<and> k \<notin> keys_of (ht_entries t) \<Longrightarrow>
     rehash_loop can f es t = Some (t', HT_OK) \<Longrightarrow> fits t' \<Longrightarrow>
     ht_ok L t' \<and> content (ht_entries t') = content (ht_entries t) \<union> content es"
proof (induction can f t key val and can f t and can f es t arbitrary: t' and t' and t'
    rule: hashtable_put_hashtable_rehash_rehash_loop.induct)
  case (2 can f t key val)
  show ?case
  proof (cases "hashtable_hash t key = - 3")
    case True
    then obtain t1 where r: "hashtable_rehash can f t = Some (t1, HT_OK)"
      and p: "hashtable_put can f t1 key val = Some (t', HT_OK)"
      using 2(6) by (auto split: option.splits ht_status.splits)
    have "sizes_ok t1" using size_grows(2) [OF r ht_ok_sizes [OF 2(3)]] by blast
    then have f1: "fits t1" using size_grows(1) [OF p] 2(7) by (auto simp: fits_def)
    have t1: "ht_ok L t1" "content (ht_entries t1) = content (ht_entries t)"
      using 2(1) [OF True 2(3) r f1] by auto
    have "key \<notin> keys_of (ht_entries t1)" using 2(5) t1(2) by (simp add: keys_content)
    from 2(2) [OF True r refl refl t1(1) 2(4) this p 2(7)] show ?thesis using t1(2) by simp
  next
    case False
    then obtain i where i: "hash_slot t key = Some i" by (rule index_found)
    have t': "t' = put_at t (of_int (hashtable_hash t key)) key val" using False 2(6) by (auto split: if_splits)
    then have "fits t" using 2(7) by (simp add: fits_def put_at_def)
    from index_fits [OF _ this i] 2(3) t' have "t' = put_at t i key val" by (simp add: ht_ok_def)
    then show ?thesis using put_at_ok [OF 2(3,4,5) i, of val] by auto
  qed
next
  case (4 can f t)
  then have c: "calloc_ok can (2 * ht_table_size t)" and l: "rehash_loop can f (ht_entries t) (grown t) = Some (t', HT_OK)"
    by (auto split: if_splits)
  note g = grown_ok [OF 4(2) c]
  have k: "\<forall>k \<in> keys_of (ht_entries t). plain_key L k \<and> k \<notin> keys_of (ht_entries (grown t))"
    using g(2) ht_ok_plain [OF 4(2)] by (simp add: keys_content)
  have d: "distinct (map he_key (taken_of (ht_entries t)))" using 4(2) by (simp add: ht_ok_def)
  from 4(1) [OF c g(1) d k l 4(4)] show ?case using g(2) by simp
next
  case (7 can f e es t)
  show ?case
  proof (cases "he_taken e")
    case False
    then show ?thesis using 7(1) [OF False 7(4)] 7(5-8) by (simp add: taken_of_def keys_of_def content_Cons)
  next
    case True
    then obtain t1 where p: "hashtable_put can f t (he_key e) (he_val e) = Some (t1, HT_OK)"
      and l: "rehash_loop can f es t1 = Some (t', HT_OK)"
      using 7(7) by (auto split: option.splits ht_status.splits)
    have ke: "keys_of (e # es) = insert (he_key e) (keys_of es)" and ne: "he_key e \<notin> keys_of es"
      and d: "distinct (map he_key (taken_of es))"
      using True 7(5) by (simp_all add: keys_of_def taken_of_def)
    have e: "plain_key L (he_key e)" "he_key e \<notin> keys_of (ht_entries t)" using 7(6) ke by auto
    from True have nn: "\<not> \<not> he_taken e" by simp
    have "sizes_ok t1" using size_grows(1) [OF p ht_ok_sizes [OF 7(4)]] by blast
    then have f1: "fits t1" using size_grows(3) [OF l] 7(8) by (auto simp: fits_def)
    have t1: "ht_ok L t1" "content (ht_entries t1) = insert (he_key e, he_val e) (content (ht_entries t))"
      using 7(2) [OF nn 7(4) e p f1] by auto
    have "\<forall>k \<in> keys_of es. plain_key L k \<and> k \<notin> keys_of (ht_entries t1)"
    proof
      fix k assume k: "k \<in> keys_of es"
      then have "plain_key L k \<and> k \<notin> keys_of (ht_entries t)" "k \<noteq> he_key e" using 7(6) ke ne by auto
      moreover have "keys_of (ht_entries t1) = insert (he_key e) (keys_of (ht_entries t))"
        by (simp add: keys_content t1(2))
      ultimately show "plain_key L k \<and> k \<notin> keys_of (ht_entries t1)" by simp
    qed
    from 7(3) [OF nn p refl refl t1(1) d this l 7(8)] show ?thesis using t1(2) True by (simp add: content_Cons)
  qed
qed (auto simp: content_def taken_of_def)

section \<open>Insertion returns\<close>

lemma fuel_mono:
  "hashtable_put can f t key val = Some r \<Longrightarrow> f \<le> g \<Longrightarrow> hashtable_put can g t key val = Some r"
  "hashtable_rehash can f t = Some r \<Longrightarrow> f \<le> g \<Longrightarrow> hashtable_rehash can g t = Some r"
  "rehash_loop can f es t = Some r \<Longrightarrow> f \<le> g \<Longrightarrow> rehash_loop can g es t = Some r"
proof (induction can f t key val and can f t and can f es t arbitrary: r g and r g and r g
    rule: hashtable_put_hashtable_rehash_rehash_loop.induct)
  case (2 can f t key val)
  from 2(4) obtain h where g: "g = Suc h" "f \<le> h" by (cases g) auto
  show ?case
  proof (cases "hashtable_hash t key = - 3")
    case True
    with 2(3) obtain t1 st where r: "hashtable_rehash can f t = Some (t1, st)" by (auto split: option.splits)
    from 2(1) [OF True r g(2)] have r': "hashtable_rehash can h t = Some (t1, st)" .
    show ?thesis using 2(2) [OF True r refl _ _ g(2)] 2(3) True r r' by (cases st) (auto simp: g(1))
  qed (use 2(3) in \<open>simp add: g(1)\<close>)
next
  case (4 can f t)
  from 4(3) obtain h where g: "g = Suc h" "f \<le> h" by (cases g) auto
  show ?case using 4(1) [OF _ _ g(2)] 4(2) by (simp add: g(1) split: if_splits)
next
  case (6 can f t)
  then show ?case by (cases g) auto
next
  case (7 can f e es t)
  from 7(5) obtain h where g: "g = Suc h" "f \<le> h" by (cases g) auto
  show ?case
  proof (cases "he_taken e")
    case True
    then have nn: "\<not> \<not> he_taken e" by simp
    with 7(4) obtain t1 st where r: "hashtable_put can f t (he_key e) (he_val e) = Some (t1, st)"
      by (auto split: option.splits)
    from 7(2) [OF nn r g(2)] have r': "hashtable_put can h t (he_key e) (he_val e) = Some (t1, st)" .
    show ?thesis using 7(3) [OF nn r refl _ _ g(2)] 7(4) True r r' by (cases st) (auto simp: g(1))
  next
    case False
    then show ?thesis using 7(1) [OF False _ g(2)] 7(4) by (simp add: g(1))
  qed
qed auto

lemma loop_returns:
  fixes t :: "('v, 's) hashtable"
  assumes "\<And>(t :: ('v, 's) hashtable) k v. sizes_ok t \<Longrightarrow> n \<le> unat (ht_table_size t) \<Longrightarrow> \<exists>f r. hashtable_put can f t k v = Some r"
  shows "sizes_ok t \<Longrightarrow> n \<le> unat (ht_table_size t) \<Longrightarrow> \<exists>f r. rehash_loop can f es t = Some r"
proof (induction es arbitrary: t)
  case Nil
  then show ?case by (intro exI [of _ "Suc 0"]) simp
next
  case (Cons e es)
  show ?case
  proof (cases "he_taken e")
    case False
    from Cons obtain f r where "rehash_loop can f es t = Some r" by blast
    then show ?thesis using False by (intro exI [of _ "Suc f"]) simp
  next
    case True
    obtain f t1 st where p: "hashtable_put can f t (he_key e) (he_val e) = Some (t1, st)"
      using assms [OF Cons.prems] by (metis surj_pair)
    from size_grows(1) [OF p Cons.prems(1)] Cons.prems(2)
    have "sizes_ok t1" "n \<le> unat (ht_table_size t1)" by auto
    from Cons.IH [OF this] obtain g r where l: "rehash_loop can g es t1 = Some r" by blast
    have "hashtable_put can (max f g) t (he_key e) (he_val e) = Some (t1, st)"
      "rehash_loop can (max f g) es t1 = Some r"
      using fuel_mono(1) [OF p] fuel_mono(3) [OF l] by simp_all
    then show ?thesis using True by (intro exI [of _ "Suc (max f g)"]) (cases st; simp)
  qed
qed

lemma put_returns:
  fixes t :: "('v, 's) hashtable"
  shows "sizes_ok t \<Longrightarrow> \<exists>f r. hashtable_put can f t k v = Some r"
proof (induction "2 ^ 63 - unat (ht_table_size t)" arbitrary: t k v rule: less_induct)
  case less
  show ?case
  proof (cases "hashtable_hash t k = - 3")
    case False
    then show ?thesis by (intro exI [of _ "Suc 0"]) simp
  next
    case None: True
    show ?thesis
    proof (cases "calloc_ok can (2 * ht_table_size t)")
      case False
      then show ?thesis using None by (intro exI [of _ "Suc (Suc 0)"]) simp
    next
      case True
      have big: "\<exists>f r. hashtable_put can f t' k' v' = Some r"
        if "sizes_ok t'" "Suc (unat (ht_table_size t)) \<le> unat (ht_table_size t')" for t' :: "('v, 's) hashtable" and k' v'
        using that less.prems by (intro less.hyps) (auto simp: sizes_ok_def)
      have "sizes_ok (grown t)" "Suc (unat (ht_table_size t)) \<le> unat (ht_table_size (grown t))"
        using grown_size [OF less.prems True] less.prems by (auto simp: sizes_ok_def)
      from loop_returns [OF big this] obtain f t1 st where l: "rehash_loop can f (ht_entries t) (grown t) = Some (t1, st)"
        by (metis surj_pair)
      then have r: "hashtable_rehash can (Suc f) t = Some (t1, st)" using True by simp
      show ?thesis
      proof (cases st)
        case HT_ERR
        then show ?thesis using None r by (intro exI [of _ "Suc (Suc f)"]) simp
      next
        case HT_OOB
        then show ?thesis using None r by (intro exI [of _ "Suc (Suc f)"]) simp
      next
        case HT_OK
        then have "sizes_ok t1" "Suc (unat (ht_table_size t)) \<le> unat (ht_table_size t1)"
          using size_grows(2) [OF r less.prems] by auto
        from big [OF this] obtain g r' where p: "hashtable_put can g t1 k v = Some r'" by blast
        have "hashtable_rehash can (max (Suc f) g) t = Some (t1, HT_OK)" "hashtable_put can (max (Suc f) g) t1 k v = Some r'"
          using fuel_mono(2) [OF r] fuel_mono(1) [OF p] HT_OK by simp_all
        then show ?thesis using None by (intro exI [of _ "Suc (max (Suc f) g)"]) simp
      qed
    qed
  qed
qed

text \<open>The write outside the array needs a table larger than \<open>2^31\<close> slots.\<close>

lemma oob_large:
  "hashtable_put can f t key val = Some (t', st) \<Longrightarrow> st = HT_OOB \<Longrightarrow> sizes_ok t \<Longrightarrow> \<not> fits t'"
  "hashtable_rehash can f t = Some (t', st) \<Longrightarrow> st = HT_OOB \<Longrightarrow> sizes_ok t \<Longrightarrow> \<not> fits t'"
  "rehash_loop can f es t = Some (t', st) \<Longrightarrow> st = HT_OOB \<Longrightarrow> sizes_ok t \<Longrightarrow> \<not> fits t'"
proof (induction can f t key val and can f t and can f es t arbitrary: t' st and t' st and t' st
    rule: hashtable_put_hashtable_rehash_rehash_loop.induct)
  case (2 can f t key val)
  show ?case
  proof (cases "hashtable_hash t key = - 3")
    case True
    with 2(3) obtain t1 st1 where r: "hashtable_rehash can f t = Some (t1, st1)" by (auto split: option.splits)
    then have s1: "sizes_ok t1" using size_grows(2) 2(5) by blast
    show ?thesis
    proof (cases st1)
      case HT_OK
      then have "hashtable_put can f t1 key val = Some (t', st)" using 2(3) True r by simp
      from 2(2) [OF True r refl HT_OK this 2(4) s1] show ?thesis .
    next
      case HT_OOB
      then have "t' = t1" using 2(3) True r by simp
      with 2(1) [OF True r HT_OOB 2(5)] show ?thesis by simp
    qed (use 2(3,4) True r in simp)
  next
    case False
    then obtain i where i: "hash_slot t key = Some i" by (rule index_found)
    have t: "t' = t" "hashtable_hash t key < 0" using False 2(3,4) by (auto split: if_splits)
    show ?thesis
    proof
      assume "fits t'"
      from index_fits(1) [OF _ this [unfolded t(1)] i] 2(5) t(2) show False by (simp add: sizes_ok_def)
    qed
  qed
next
  case (4 can f t)
  then show ?case using grown_size [OF 4(4)] by (auto split: if_splits)
next
  case (7 can f e es t)
  show ?case
  proof (cases "he_taken e")
    case True
    then have nn: "\<not> \<not> he_taken e" by simp
    with 7(4) obtain t1 st1 where r: "hashtable_put can f t (he_key e) (he_val e) = Some (t1, st1)"
      by (auto split: option.splits)
    then have s1: "sizes_ok t1" using size_grows(1) 7(6) by blast
    show ?thesis
    proof (cases st1)
      case HT_OK
      then have "rehash_loop can f es t1 = Some (t', st)" using 7(4) True r by simp
      from 7(3) [OF nn r refl HT_OK this 7(5) s1] show ?thesis .
    next
      case HT_OOB
      then have "t' = t1" using 7(4) True r by simp
      with 7(2) [OF nn r HT_OOB 7(6)] show ?thesis by simp
    qed (use 7(4,5) True r in simp)
  next
    case False
    then show ?thesis using 7(1) [OF False _ 7(5,6)] 7(4) by simp
  qed
qed auto

section \<open>The table as a store of plain keys\<close>

definition ht_store_ok :: "nat \<Rightarrow> ('v, 's) hashtable \<Rightarrow> bool" where
  "ht_store_ok L t \<longleftrightarrow> ht_ok L t \<and> (\<forall>k. (k, None) \<notin> content (ht_entries t))"

text \<open>An insertion that succeeds and leaves at most \<open>2^31\<close> slots.\<close>

definition ht_put :: "(u64 \<Rightarrow> bool) \<Rightarrow> nat \<Rightarrow> ('v, 's) hashtable \<Rightarrow> u8 list \<Rightarrow> 'v \<Rightarrow> ('v, 's) hashtable option" where
  "ht_put can f t k v = (case hashtable_put can f t k (Some v) of Some (t', HT_OK) \<Rightarrow> if fits t' then Some t' else None | _ \<Rightarrow> None)"

definition ht_del :: "'s \<Rightarrow> ('v, 's) hashtable \<Rightarrow> u8 list \<Rightarrow> ('v, 's) hashtable" where
  "ht_del m t k = fst (hashtable_del t k m)"

lemma ht_ok_distinct: "ht_ok L t \<Longrightarrow> distinct (map he_key (taken_of (ht_entries t)))"
  by (simp add: ht_ok_def)

lemma ht_store_view_None:
  assumes "ht_store_ok L t"
  shows "ht_view t k = None \<longleftrightarrow> k \<notin> keys_of (ht_entries t)"
proof
  assume "ht_view t k = None"
  then have "\<forall>v. (k, Some v) \<notin> content (ht_entries t)"
    using ht_view_content [OF ht_ok_distinct, of L t k] assms by (simp add: ht_store_ok_def)
  then have "(k, v) \<notin> content (ht_entries t)" for v using assms by (cases v) (auto simp: ht_store_ok_def)
  then show "k \<notin> keys_of (ht_entries t)" by (auto simp: keys_content)
qed (rule ht_view_None)

lemma ht_put_law:
  assumes ok: "ht_store_ok L t" and k: "plain_key L k" "ht_view t k = None" and p: "ht_put can f t k v = Some t'"
  shows "ht_store_ok L t' \<and> ht_view t' = (ht_view t)(k \<mapsto> v)"
proof -
  have new: "k \<notin> keys_of (ht_entries t)" using ht_store_view_None [OF ok] k(2) by simp
  from p have "hashtable_put can f t k (Some v) = Some (t', HT_OK)" "fits t'"
    by (auto simp: ht_put_def split: option.splits ht_status.splits if_splits)
  from put_rehash_ok(1) [OF _ k(1) new this] ok
  have r: "ht_ok L t'" "content (ht_entries t') = insert (k, Some v) (content (ht_entries t))"
    by (simp_all add: ht_store_ok_def)
  have "ht_view t' x = ((ht_view t)(k \<mapsto> v)) x" for x
  proof (rule option_eqI)
    fix w
    have "(k, Some w) \<notin> content (ht_entries t)" using new by (force simp: keys_content)
    then show "ht_view t' x = Some w \<longleftrightarrow> ((ht_view t)(k \<mapsto> v)) x = Some w"
      using ht_view_content [OF ht_ok_distinct [OF r(1)], of x w] ht_view_content [OF ht_ok_distinct, of L t x w] ok r(2)
      by (auto simp: ht_store_ok_def)
  qed
  then show ?thesis using r ok by (auto simp: ht_store_ok_def)
qed

lemma ht_del_content:
  assumes "ht_ok L t" "plain_key L k" "hashtable_del t k m = (t', m', st)"
  shows "content (ht_entries t') \<subseteq> content (ht_entries t)"
proof (cases "get_probe 8 t k (hashtable_hash_int t k)")
  case None
  then show ?thesis using assms(3) by (simp add: hashtable_del_def)
next
  case (Some i)
  then have i: "unat i < length (ht_entries t)" using get_probe_iff [OF assms(1,2), of i] by auto
  have "ht_entries t' = (ht_entries t)[unat i := (slot t i)\<lparr>he_taken := False\<rparr>]"
    using assms(3) Some by (auto simp: hashtable_del_def Let_def)
  then have "set (taken_of (ht_entries t')) \<subseteq> set (taken_of (ht_entries t))"
    using set_update_subset_insert [of "ht_entries t" "unat i" "(slot t i)\<lparr>he_taken := False\<rparr>"]
    by (auto simp: taken_of_def)
  then show ?thesis by (auto simp: content_def)
qed

interpretation ht_store: fresh_store "ht_store_ok L" ht_view "ht_del (m :: 's)" hashtable_get "plain_key L" "ht_put can f"
proof
  fix t :: "('v, 's) hashtable"
  assume ok: "ht_store_ok L t"
  have "dom (ht_view t) \<subseteq> keys_of (ht_entries t)" using ht_view_None [of _ t] by fastforce
  then show "finite (dom (ht_view t))" by (rule finite_subset) (simp add: keys_of_def)
  fix k :: "u8 list"
  assume k: "plain_key L k"
  show "hashtable_get t k = ht_view t k" using hashtable_get_view [of L t k] ok k by (simp add: ht_store_ok_def)
  obtain t' m' st where d: "hashtable_del t k m = (t', m', st)" by (metis prod_cases3)
  then show "ht_store_ok L (ht_del m t k) \<and> ht_view (ht_del m t k) = (ht_view t)(k := None)"
    using hashtable_del_ok [OF _ k d] ht_del_content [OF _ k d] ok by (auto simp: ht_store_ok_def ht_del_def)
qed (rule ht_put_law)

section \<open>Visiting\<close>

lemma map_loop_all:
  assumes "\<And>e m. fst (func e m) = 0"
  shows "map_loop func es m = (0, fold (\<lambda>e m. snd (func e m)) (taken_of es) m)"
proof (induction es arbitrary: m)
  case (Cons e es)
  then show ?case using assms [of e m] by (cases "func e m") (auto simp: taken_of_def)
qed (simp add: taken_of_def)

lemma fold_destroy: "fold (\<lambda>e m. snd (destroy_entry e m)) es m
    = concat (map (\<lambda>e. (case he_val e of None \<Rightarrow> [] | Some v \<Rightarrow> [Inr v]) @ [Inl (he_key e)]) (rev es)) @ m"
  by (induction es arbitrary: m) (simp_all add: destroy_entry_def)

section \<open>Properties\<close>

text \<open>
  C31 (crc32_bitwise): \<^verbatim>\<open>crc32\<close>, which uses a table of 256 words, computes the bitwise reflected CRC with
  polynomial \<open>0xEDB88320\<close>, start value 0 and no final complement: every entry of the table is right.
\<close>

theorem crc32_bitwise: "crc32 s = crc_bitwise s 0"
  by (simp add: crc32_def crc32_loop_bitwise)

text \<open>
  C24 (hashtable_put_returns): the loops of \<^verbatim>\<open>hashtable_put\<close> end for every table of
  a size from 1 to \<open>2^63 - 1\<close>, whatever \<^verbatim>\<open>calloc\<close> answers below that size, although it loops until a rehash
  makes room and every rehash calls it again; the result does not depend on the fuel. The table has not become smaller, and as long as it has at most \<open>2^31\<close> slots the call returns success or out of
  memory; only in a larger one can the index, which is converted to an \<^verbatim>\<open>int\<close>, be negative and the entry be written outside the array.
\<close>

theorem hashtable_put_returns:
  assumes "0 < unat (ht_table_size t)" and "unat (ht_table_size t) < 2 ^ 63"
  shows "\<exists>f0 t' st. (\<forall>f \<ge> f0. hashtable_put can f t k v = Some (t', st)) \<and> unat (ht_table_size t) \<le> unat (ht_table_size t')
    \<and> (unat (ht_table_size t') \<le> 2 ^ 31 \<longrightarrow> st = HT_OK \<or> st = HT_ERR)"
proof -
  have ok: "sizes_ok t" using assms by (simp add: sizes_ok_def)
  from put_returns [OF this, of can k v] obtain f t' st where p: "hashtable_put can f t k v = Some (t', st)" by (metis surj_pair)
  have "unat (ht_table_size t') \<le> 2 ^ 31 \<longrightarrow> st = HT_OK \<or> st = HT_ERR" using oob_large(1) [OF p _ ok] by (cases st) (auto simp: fits_def)
  then show ?thesis using fuel_mono(1) [OF p] size_grows(1) [OF p ok] by blast
qed

definition new_table :: "('v hentry \<Rightarrow> 's \<Rightarrow> int \<times> 's) \<Rightarrow> ('v, 's) hashtable" where
  "new_table d = \<lparr>ht_table_size = 4, ht_size = 0, ht_destructor = d, ht_entries = replicate 4 empty_slot\<rparr>"

lemma hashtable_create_new: "hashtable_create True True d = Inr (Some (new_table d))"
  by (simp add: hashtable_create_def new_table_def)

lemma new_table_ok: "ht_store_ok L (new_table d)" "ht_view (new_table d) = (\<lambda>_. None)"
  by (simp_all add: ht_store_ok_def ht_ok_def new_table_def content_def ht_view_def fun_eq_iff taken_of_empty)

lemma new_slots: "replicate 4 x = [x, x, x, x]"
  by (simp add: numeral_eq_Suc)

lemma one_mod_four: "(1 :: u64) mod 4 = 1" by code_simp

text \<open>Evaluation of the probing loops and of an insertion at a literal number of steps.\<close>

lemmas probe_steps = hash_probe.simps(2) [of "pred_numeral n" for n, folded numeral_eq_Suc]
  get_probe.simps(2) [of "pred_numeral n" for n, folded numeral_eq_Suc]
  hashtable_put.simps(2) [of _ "pred_numeral n" for n, folded numeral_eq_Suc]

theorem hashtable_put_returns_witness:
  "\<exists>f0 t' st. (\<forall>f \<ge> f0. hashtable_put (\<lambda>n. n < 1024) f (new_table destroy_entry) [99] (Some (7 :: nat)) = Some (t', st))
    \<and> 4 \<le> unat (ht_table_size t') \<and> (unat (ht_table_size t') \<le> 2 ^ 31 \<longrightarrow> st = HT_OK \<or> st = HT_ERR)"
  using hashtable_put_returns [of "new_table destroy_entry" "\<lambda>n. n < 1024" "[99]" "Some (7 :: nat)"] by (simp add: new_table_def)

text \<open>
  C23 (hashtable_fresh_keys): keys of one length in lower case (such as the textual UUIDs the server uses for closures):
  from a new table, inserting distinct keys, growing as needed up to \<open>2^31\<close> slots, the range of the index, and then deleting one of them leaves
  a table that finds every other inserted key with its value, and no other key of this kind.
\<close>

theorem hashtable_fresh_keys:
  assumes "\<forall>(k, v) \<in> set kvs. plain_key L k" and "distinct (map fst kvs)"
    and "fold_opt (\<lambda>t (k, v). ht_put can f t k v) kvs (new_table d) = Some t"
    and "plain_key L k" and "plain_key L k'"
  shows "hashtable_get t k = map_of kvs k
    \<and> hashtable_get (fst (hashtable_del t k m)) k' = (if k' = k then None else map_of kvs k')"
proof -
  have "\<forall>(k, v) \<in> set kvs. plain_key L k \<and> ht_view (new_table d) k = None"
    using assms(1) by (auto simp: new_table_ok)
  from ht_store.put_new_many [OF new_table_ok(1) this assms(2,3)]
  have t: "ht_store_ok L t" "ht_view t = map_of kvs" by (simp_all add: new_table_ok)
  have d: "ht_store_ok L (ht_del m t k)" "ht_view (ht_del m t k) = (ht_view t)(k := None)"
    using ht_store.del_law [OF t(1) assms(4)] by auto
  show ?thesis
    using ht_store.get_law [OF t(1) assms(4)] ht_store.get_law [OF d(1) assms(5)] t(2) d(2)
    by (simp add: ht_del_def [symmetric])
qed

lemma put_now: "hashtable_hash t k = i \<Longrightarrow> 0 \<le> i \<Longrightarrow> 0 < f \<Longrightarrow> hashtable_put can f t k v = Some (put_at t (of_int i) k v, HT_OK)"
  by (cases f) simp_all

lemma small_tables [simp]: "fits (new_table d)" "fits (put_at t i k v) = fits t"
  by (simp_all add: fits_def new_table_def put_at_def)

text \<open>The keys \<^verbatim>\<open>"c"\<close> and \<^verbatim>\<open>"d"\<close> collide in a new table.\<close>

lemma home_c_d: "hash_int 4 [99] = 0" "hash_int 4 [100] = 0"
  by (simp_all add: hash_int_def mix_def crc32_def crc32_tab_def Let_def)

lemma four_div_two: "(4 :: u64) div 2 = 2" "\<not> (2 :: u64) \<le> 1"
  by code_simp+

lemmas ht_eval = hashtable_hash_def hash_slot_def to_int32_def hashtable_hash_int_def home_c_d slot_def empty_slot_def put_at_def
  probe_steps next_slot_def tolower_def new_slots one_mod_four four_div_two new_table_def

lemma hash_c: "hashtable_hash (new_table d) [99] = 0"
  by (simp add: ht_eval)

lemma hash_d: "hashtable_hash (put_at (new_table d) 0 [99] x) [100] = 1"
  by (simp add: ht_eval)

theorem hashtable_fresh_keys_witness:
  "\<exists>t. fold_opt (\<lambda>t (k, v). ht_put (\<lambda>_. True) 9 t k v) [([99], 1), ([100], 2 :: nat)] (new_table destroy_entry) = Some t
    \<and> hashtable_get t [100] = Some 2
    \<and> hashtable_get (fst (hashtable_del t [99] [])) [100] = Some 2"
proof -
  obtain t where t: "fold_opt (\<lambda>t (k, v). ht_put (\<lambda>_. True) 9 t k v) [([99], 1), ([100], 2 :: nat)] (new_table destroy_entry) = Some t"
    by (simp add: ht_put_def put_now [OF hash_c] put_now [OF hash_d] del: hashtable_put.simps)
  have p: "plain_key 1 [99]" "plain_key 1 [100]" by (simp_all add: plain_key_def tolower_def)
  show ?thesis
    using hashtable_fresh_keys [OF _ _ t p(2) p(2), of "[]"] hashtable_fresh_keys [OF _ _ t p(1) p(2), of "[]"] t p
    by auto
qed

text \<open>
  With the default destructor, \<^verbatim>\<open>hashtable_release\<close> of a non-empty table frees the key and the
  non-null value of every taken slot, each once and in the order of the slots, and nothing else.
\<close>

theorem hashtable_release_frees:
  assumes "ht_destructor t = destroy_entry" and "0 < ht_size t"
  shows "rev (hashtable_release (Some t) []) = concat (map (\<lambda>e. Inl (he_key e) #
      (case he_val e of None \<Rightarrow> [] | Some v \<Rightarrow> [Inr v])) (filter he_taken (ht_entries t)))"
proof -
  have z: "fst (destroy_entry e m) = 0" for e :: "'a hentry" and m by (simp add: destroy_entry_def)
  have c: "rev (concat (map g (rev es))) = concat (map (rev \<circ> g) es)" for g :: "'a hentry \<Rightarrow> (u8 list + 'a) list" and es
    by (induction es) auto
  have "rev \<circ> (\<lambda>e. (case he_val e of None \<Rightarrow> [] | Some v \<Rightarrow> [Inr v]) @ [Inl (he_key e)])
      = (\<lambda>e :: 'a hentry. Inl (he_key e) # (case he_val e of None \<Rightarrow> [] | Some v \<Rightarrow> [Inr v]))"
    by (auto simp: fun_eq_iff split: option.split)
  moreover have "ht_size t \<noteq> 0" using assms(2) by auto
  ultimately show ?thesis
    using assms(1) map_loop_all [of destroy_entry "ht_entries t" "[]", OF z]
    by (simp add: hashtable_release_def hashtable_map_def fold_destroy c taken_of_def word_le_0_iff)
qed

theorem hashtable_release_frees_witness:
  "rev (hashtable_release (Some (put_at (new_table destroy_entry) 2 [97] (Some (5 :: nat)))) []) = [Inl [97], Inr 5]"
  using hashtable_release_frees [of "put_at (new_table destroy_entry) 2 [97] (Some (5 :: nat))"]
  by (simp add: put_at_def new_table_def slot_def new_slots empty_slot_def)

text \<open>
  Overwriting a key after a deletion can leave two slots for it, because the insertion
  stops at the first free slot: the keys \<^verbatim>\<open>"c"\<close> and \<^verbatim>\<open>"d"\<close> collide in a new table; after inserting both, deleting
  \<^verbatim>\<open>"c"\<close>, inserting \<^verbatim>\<open>"d"\<close> again and deleting \<^verbatim>\<open>"d"\<close>, the table still finds \<^verbatim>\<open>"d"\<close>, with its first value.
\<close>

definition stale_run :: "(nat, 's) hashtable \<Rightarrow> 's \<Rightarrow> (nat, 's) hashtable" where
  "stale_run t m = fold (op_run (\<lambda>t k v. fst (the (hashtable_put (\<lambda>_. True) 1 t k (Some v)))) (ht_del m))
     [Put [99] 1, Put [100] 2, Del [99], Put [100] 3, Del [100]] t"

lemma hash_free: "hashtable_hash (ht_del m (put_at (put_at (new_table d) 0 [99] x) 1 [100] y) [99]) [100] = 0"
  by (simp add: ht_eval ht_del_def hashtable_del_def Let_def)

lemmas stale_steps = put_now [OF hash_c] put_now [OF hash_d] put_now [OF hash_free]

theorem hashtable_stale_value: "hashtable_get (stale_run (new_table destroy_entry) []) [100] = Some 2"
  by (simp add: stale_run_def stale_steps del: hashtable_put.simps)
     (simp add: ht_eval ht_del_def hashtable_del_def hashtable_get_def Let_def)

end
