(* ===== verification/Pack.thy ===== *)
theory Pack
  imports Sol_Prelude
begin

text \<open>
  \<^verbatim>\<open>src/sol/src/pack.c\<close>: reading integers and strings from a byte buffer and writing them to one,
  and the \<^verbatim>\<open>bytestring\<close> buffers that carry replies.

  A read cursor \<^verbatim>\<open>const uint8_t **buf\<close> is the list of bytes from the cursor to the end of the
  object it points into; a write cursor is the block it points into with an offset. Reading or
  writing outside the object is a fault. Multi-byte integers go through memory in host order
  (little endian) and are swapped by \<^verbatim>\<open>htons\<close>, \<^verbatim>\<open>htonl\<close> and their inverses, as in the source; the
  lemmas show that the two steps together are the big-endian wire format.

  The locale \<open>codec\<close> is the contract of a pair of write and read functions: what was written is
  read back and nothing more is consumed. It is interpreted on the pairs of this file here and on
  the remaining-length field in \<open>Mqtt\<close>.
\<close>

unbundle bit_operations_syntax

section \<open>Reading\<close>

type_synonym 'a reader = "u8 list \<Rightarrow> ('a \<times> u8 list) res"

definition read_mem :: "nat \<Rightarrow> u8 list reader" where
  "read_mem n buf = (if n \<le> length buf then Inr (take n buf, drop n buf) else Inl Over_read)"

text \<open>
  The value of 2 or 4 bytes of memory on a little-endian host, the bytes of a value, and the byte
  swaps \<^verbatim>\<open>htons\<close>/\<^verbatim>\<open>ntohs\<close> and \<^verbatim>\<open>htonl\<close>/\<^verbatim>\<open>ntohl\<close>, which reverse the bytes in memory.
\<close>

definition host16 :: "u8 list \<Rightarrow> u16" where
  "host16 bs = ucast (bs ! 0) OR push_bit 8 (ucast (bs ! 1))"

definition host32 :: "u8 list \<Rightarrow> u32" where
  "host32 bs = ucast (bs ! 0) OR push_bit 8 (ucast (bs ! 1)) OR push_bit 16 (ucast (bs ! 2))
     OR push_bit 24 (ucast (bs ! 3))"

definition mem16 :: "u16 \<Rightarrow> u8 list" where
  "mem16 w = [ucast w, ucast (drop_bit 8 w)]"

definition mem32 :: "u32 \<Rightarrow> u8 list" where
  "mem32 w = [ucast w, ucast (drop_bit 8 w), ucast (drop_bit 16 w), ucast (drop_bit 24 w)]"

definition swap16 :: "u16 \<Rightarrow> u16" where
  "swap16 w = host16 (rev (mem16 w))"

definition swap32 :: "u32 \<Rightarrow> u32" where
  "swap32 w = host32 (rev (mem32 w))"

definition unpack_u8 :: "u8 reader" where
  "unpack_u8 buf = (case buf of [] \<Rightarrow> Inl Over_read | b # bs \<Rightarrow> Inr (b, bs))"

definition unpack_u16 :: "u16 reader" where
  "unpack_u16 buf = rbind (read_mem 2 buf) (\<lambda>(m, buf'). Inr (swap16 (host16 m), buf'))"

definition unpack_u32 :: "u32 reader" where
  "unpack_u32 buf = rbind (read_mem 4 buf) (\<lambda>(m, buf'). Inr (swap32 (host32 m), buf'))"

text \<open>
  \<^verbatim>\<open>unpack_bytes\<close> copies \<open>len\<close> bytes to \<open>str\<close> and writes a zero after them, so \<open>str\<close> must have room
  for \<open>len + 1\<close> bytes.
\<close>

definition unpack_bytes :: "nat \<Rightarrow> block \<Rightarrow> block reader" where
  "unpack_bytes len str buf = rbind (read_mem len buf) (\<lambda>(m, buf').
     if len < length str then Inr (map Some m @ Some 0 # drop (Suc len) str, buf')
     else Inl Over_write)"

definition unpack_string16 :: "(u16 \<times> block) reader" where
  "unpack_string16 buf = rbind (unpack_u16 buf) (\<lambda>(len, buf1).
     rbind (unpack_bytes (unat len) (malloc (unat len + 1)) buf1) (\<lambda>(dest, buf2).
       Inr ((len, dest), buf2)))"

section \<open>Writing\<close>

type_synonym wptr = "block \<times> nat"

definition write_mem :: "wptr \<Rightarrow> u8 list \<Rightarrow> wptr res" where
  "write_mem p bs = (case p of (b, off) \<Rightarrow>
     if off + length bs \<le> length b
     then Inr (take off b @ map Some bs @ drop (off + length bs) b, off + length bs)
     else Inl Over_write)"

definition pack_u8 :: "wptr \<Rightarrow> u8 \<Rightarrow> wptr res" where
  "pack_u8 p val = write_mem p [val]"

definition pack_u16 :: "wptr \<Rightarrow> u16 \<Rightarrow> wptr res" where
  "pack_u16 p val = write_mem p (mem16 (swap16 val))"

definition pack_u32 :: "wptr \<Rightarrow> u32 \<Rightarrow> wptr res" where
  "pack_u32 p val = write_mem p (mem32 (swap32 val))"

definition pack_bytes :: "wptr \<Rightarrow> block \<Rightarrow> wptr res" where
  "pack_bytes p str = rbind (strlen str) (\<lambda>len.
     rbind (read_cells str len) (\<lambda>bs. write_mem p bs))"

section \<open>Byte strings\<close>

record bytestring =
  bs_size :: nat
  bs_last :: nat
  bs_data :: block

definition bytestring_reset :: "bytestring \<Rightarrow> bytestring" where
  "bytestring_reset s = s\<lparr>bs_last := 0, bs_data := replicate (bs_size s) (Some 0)\<rparr>"

definition bytestring_init :: "bytestring \<Rightarrow> nat \<Rightarrow> bytestring" where
  "bytestring_init s n = bytestring_reset (s\<lparr>bs_size := n, bs_data := malloc n\<rparr>)"

definition bytestring_create :: "nat \<Rightarrow> bytestring" where
  "bytestring_create n = bytestring_init \<lparr>bs_size = 0, bs_last = 0, bs_data = []\<rparr> n"

text \<open>The blocks handed to \<^verbatim>\<open>free\<close>; a null pointer releases nothing.\<close>

definition bytestring_release :: "bytestring option \<Rightarrow> block list" where
  "bytestring_release s = (case s of None \<Rightarrow> [] | Some s \<Rightarrow> [bs_data s])"

text \<open>\<^verbatim>\<open>memcpy(cb->payload->data, p, n)\<close>: copy the first \<open>n\<close> cells of a packed packet.\<close>

definition bytestring_fill :: "bytestring \<Rightarrow> block \<Rightarrow> nat \<Rightarrow> bytestring res" where
  "bytestring_fill s p n =
     (if length p < n then Inl Over_read
      else if length (bs_data s) < n then Inl Over_write
      else Inr (s\<lparr>bs_data := take n p @ drop n (bs_data s)\<rparr>))"

lemma bytestring_create_simps [simp]:
  "bs_size (bytestring_create n) = n" "bs_last (bytestring_create n) = 0"
  "bs_data (bytestring_create n) = replicate n (Some 0)"
  by (simp_all add: bytestring_create_def bytestring_init_def bytestring_reset_def)

lemma bytestring_fill_create:
  "length p = n \<Longrightarrow> bytestring_fill (bytestring_create n) p n = Inr (bytestring_create n\<lparr>bs_data := p\<rparr>)"
  by (simp add: bytestring_fill_def)

section \<open>The wire format of integers\<close>

definition be16 :: "u16 \<Rightarrow> u8 list" where
  "be16 w = [ucast (drop_bit 8 w), ucast w]"

definition be32 :: "u32 \<Rightarrow> u8 list" where
  "be32 w = [ucast (drop_bit 24 w), ucast (drop_bit 16 w), ucast (drop_bit 8 w), ucast w]"

lemma length_be [simp]: "length (be16 w) = 2" "length (be32 v) = 4"
  by (simp_all add: be16_def be32_def)

lemma mem16_host16: "mem16 (host16 [a, b]) = [a, b]"
  by (auto simp: mem16_def host16_def bit_eq_iff bit_simps dest: bit_imp_le_length)

lemma mem32_host32: "mem32 (host32 [a, b, c, d]) = [a, b, c, d]"
  by (auto simp: mem32_def host32_def bit_eq_iff bit_simps dest: bit_imp_le_length)

lemma host16_mem16: "host16 (mem16 w) = w"
  by (rule bit_word_eqI) (auto simp: mem16_def host16_def bit_simps)

lemma host32_mem32: "host32 (mem32 w) = w"
proof (rule bit_word_eqI)
  fix n assume "n < LENGTH(32)"
  then consider "n < 8" | "8 \<le> n" "n < 16" | "16 \<le> n" "n < 24" | "24 \<le> n" "n < 32"
    by fastforce
  then show "bit (host32 (mem32 w)) n \<longleftrightarrow> bit w n"
    by cases (auto simp: mem32_def host32_def bit_simps)
qed

lemma mem16_swap16: "mem16 (swap16 w) = be16 w"
  by (simp add: mem16_def [of w] swap16_def mem16_host16 be16_def)

lemma mem32_swap32: "mem32 (swap32 w) = be32 w"
  by (simp add: mem32_def [of w] swap32_def mem32_host32 be32_def)

lemma swap16_host16_be16: "swap16 (host16 (be16 w)) = w"
  by (simp add: swap16_def be16_def mem16_host16 host16_mem16 [unfolded mem16_def])

lemma swap32_host32_be32: "swap32 (host32 (be32 w)) = w"
  by (simp add: swap32_def be32_def mem32_host32 host32_mem32 [unfolded mem32_def])

lemma pack_u16_be: "pack_u16 p v = write_mem p (be16 v)"
  by (simp add: pack_u16_def mem16_swap16)

lemma pack_u32_be: "pack_u32 p v = write_mem p (be32 v)"
  by (simp add: pack_u32_def mem32_swap32)

section \<open>Readers and writers on concrete bytes\<close>

lemma read_mem_append [simp]: "length m = n \<Longrightarrow> read_mem n (m @ rest) = Inr (m, rest)"
  by (auto simp: read_mem_def)

lemma unpack_u8_Cons [simp]: "unpack_u8 (b # rest) = Inr (b, rest)"
  by (simp add: unpack_u8_def)

lemma unpack_u16_be16 [simp]: "unpack_u16 (be16 w @ rest) = Inr (w, rest)"
  by (simp add: unpack_u16_def swap16_host16_be16)

lemma unpack_u32_be32 [simp]: "unpack_u32 (be32 w @ rest) = Inr (w, rest)"
  by (simp add: unpack_u32_def swap32_host32_be32)

lemma unpack_bytes_append [simp]:
  "length s = n \<Longrightarrow> unpack_bytes n (malloc (Suc n)) (s @ rest) = Inr (cstr s, rest)"
  by (simp add: unpack_bytes_def cstr_def malloc_def)

lemma unpack_string16_append [simp]:
  "length s < 65536 \<Longrightarrow>
     unpack_string16 (be16 (of_nat (length s)) @ s @ rest) = Inr ((of_nat (length s), cstr s), rest)"
  by (simp add: unpack_string16_def unat_of_nat)

text \<open>Consumption: a reader that succeeds leaves a proper or equal suffix of its input.\<close>

lemma unpack_u8_length: "unpack_u8 buf = Inr (v, rest) \<Longrightarrow> length buf = length rest + 1"
  by (auto simp: unpack_u8_def split: list.splits)

lemma unpack_u16_length: "unpack_u16 buf = Inr (v, rest) \<Longrightarrow> length buf = length rest + 2"
  by (auto simp: unpack_u16_def read_mem_def split: if_splits)

lemma unpack_bytes_length:
  "unpack_bytes n d buf = Inr (v, rest) \<Longrightarrow> length buf = length rest + n"
  by (auto simp: unpack_bytes_def read_mem_def split: if_splits)

lemma unpack_string16_length:
  assumes "unpack_string16 buf = Inr ((len, dest), rest)"
  shows "length buf = length rest + 2 + unat len"
proof -
  from assms obtain buf1 where "unpack_u16 buf = Inr (len, buf1)"
    and "unpack_bytes (unat len) (malloc (unat len + 1)) buf1 = Inr (dest, rest)"
    by (auto simp: unpack_string16_def)
  then show ?thesis by (auto dest!: unpack_u16_length unpack_bytes_length)
qed

lemmas unpack_lengths =
  unpack_u8_length unpack_u16_length unpack_bytes_length unpack_string16_length

text \<open>Consecutive writes are one write of the concatenation.\<close>

lemma write_mem_Nil: "off \<le> length b \<Longrightarrow> write_mem (b, off) [] = Inr (b, off)"
  by (simp add: write_mem_def)

lemma write_mem_append [simp]:
  "rbind (write_mem p xs) (\<lambda>q. write_mem q ys) = write_mem p (xs @ ys)"
proof (cases p)
  case (Pair b off)
  show ?thesis
  proof (cases "off + length xs \<le> length b")
    case True
    then have "min (length b) off = off" by simp
    with Pair True show ?thesis by (simp add: write_mem_def add_ac)
  next
    case False
    with Pair show ?thesis by (simp add: write_mem_def)
  qed
qed

lemma write_mem_append_bind [simp]:
  "rbind (write_mem p xs) (\<lambda>q. rbind (write_mem q ys) f) = rbind (write_mem p (xs @ ys)) f"
  by (simp flip: rbind_assoc)

lemma write_mem_malloc:
  "write_mem (malloc n, 0) bs =
     (if length bs \<le> n then Inr (map Some bs @ replicate (n - length bs) None, length bs)
      else Inl Over_write)"
  by (simp add: write_mem_def malloc_def)

lemma write_mem_malloc_exact [simp]:
  "length bs = n \<Longrightarrow> write_mem (malloc n, 0) bs = Inr (map Some bs, n)"
  by (simp add: write_mem_malloc)

lemma pack_bytes_cstr [simp]: "zero_free s \<Longrightarrow> pack_bytes p (cstr s) = write_mem p s"
  by (simp add: pack_bytes_def read_cells_cstr)

section \<open>The contract of an encoder and a decoder\<close>

text \<open>Reading \<open>n\<close> values one after the other.\<close>

fun read_many :: "'a reader \<Rightarrow> nat \<Rightarrow> 'a list reader" where
  "read_many dec 0 buf = Inr ([], buf)"
| "read_many dec (Suc n) buf = rbind (dec buf) (\<lambda>(x, buf').
     rbind (read_many dec n buf') (\<lambda>(xs, buf''). Inr (x # xs, buf'')))"

locale codec =
  fixes enc :: "'a \<Rightarrow> u8 list"
    and dec :: "'a reader"
    and valid :: "'a \<Rightarrow> bool"
  assumes dec_enc: "valid x \<Longrightarrow> dec (enc x @ rest) = Inr (x, rest)"
begin

lemma enc_unique:
  assumes "valid x" and "valid y" and "enc x @ r = enc y @ r'"
  shows "x = y \<and> r = r'"
proof -
  have "Inr (x, r) = dec (enc y @ r')"
    using assms(1,3) by (metis dec_enc)
  with assms(2) show ?thesis by (simp add: dec_enc)
qed

lemma read_many_concat:
  "list_all valid xs \<Longrightarrow>
     read_many dec (length xs) (concat (map enc xs) @ rest) = Inr (xs, rest)"
  by (induction xs) (simp_all add: dec_enc)

lemma concat_enc_inj:
  assumes "list_all valid xs" and "list_all valid ys" and "length xs = length ys"
    and "concat (map enc xs) @ r = concat (map enc ys) @ r'"
  shows "xs = ys \<and> r = r'"
proof -
  have "Inr (xs, r) = read_many dec (length ys) (concat (map enc ys) @ r')"
    using read_many_concat [OF assms(1), of r] assms(3,4) by simp
  then show ?thesis using read_many_concat [OF assms(2), of r'] by simp
qed

end

interpretation u8c: codec "\<lambda>b. [b]" unpack_u8 "\<lambda>_. True"
  by unfold_locales simp

interpretation u16c: codec be16 unpack_u16 "\<lambda>_. True"
  by unfold_locales simp

interpretation u32c: codec be32 unpack_u32 "\<lambda>_. True"
  by unfold_locales simp

text \<open>A length-prefixed string as \<^verbatim>\<open>unpack_string16\<close> returns it: the length and the block.\<close>

definition enc_string16 :: "u16 \<times> block \<Rightarrow> u8 list" where
  "enc_string16 p = be16 (fst p) @ map the (butlast (snd p))"

definition is_string16 :: "u16 \<times> block \<Rightarrow> bool" where
  "is_string16 p \<longleftrightarrow> (case p of (len, b) \<Rightarrow>
     length b = unat len + 1 \<and> None \<notin> set (butlast b) \<and> last b = Some 0)"

lemma is_string16_cstr:
  "is_string16 (len, b) \<longleftrightarrow> (\<exists>s. b = cstr s \<and> length s = unat len)"
proof
  assume a: "is_string16 (len, b)"
  then have "b \<noteq> []" by (auto simp: is_string16_def)
  then have "b = butlast b @ [last b]" by simp
  moreover from a have "butlast b = map Some (map the (butlast b))"
    by (simp add: is_string16_def map_idI)
       (metis (no_types, lifting) map_idI o_apply option.collapse)
  ultimately have "b = cstr (map the (butlast b))"
    using a by (simp add: is_string16_def cstr_def)
  moreover have "length (map the (butlast b)) = unat len"
    using a by (simp add: is_string16_def)
  ultimately show "\<exists>s. b = cstr s \<and> length s = unat len" by blast
next
  assume "\<exists>s. b = cstr s \<and> length s = unat len"
  then show "is_string16 (len, b)"
    by (auto simp: is_string16_def cstr_def butlast_append)
qed

interpretation str16c: codec enc_string16 unpack_string16 is_string16
proof unfold_locales
  fix x :: "u16 \<times> block" and rest
  assume v: "is_string16 x"
  obtain len b where x: "x = (len, b)" by (cases x)
  with v obtain s where s: "b = cstr s" "length s = unat len"
    by (auto simp: is_string16_cstr)
  have "unpack_string16 (be16 len @ s @ rest) = Inr ((len, cstr s), rest)"
    using s(2) by (simp add: unpack_string16_def)
  then show "unpack_string16 (enc_string16 x @ rest) = Inr (x, rest)"
    using x s by (simp add: enc_string16_def cstr_def butlast_append comp_def)
qed

end
