(* ===== verification/Core.thy ===== *)
theory Core
  imports Clist Trie Hashtable Pack
begin

text \<open>
  \<^verbatim>\<open>src/sol/src/core.c\<close> and \<^verbatim>\<open>core.h\<close>, and the structures of the server that point to one another: clients, topics,
  subscribers and closures.

  \<^item> objects live in a store \<open>omem\<close>, one partial map per type and one counter for new addresses; \<open>None\<close> at an address is memory
    that was freed or never allocated, and reading it is \<open>Use_after_free\<close>. Pointers are \<open>nat option\<close>, \<open>None\<close> is the null pointer.
  \<^item> a subscriber list is the list of its data pointers from the head on. The theory of the linked list justifies this: \<open>list_push\<close>
    puts a pointer in front, and the lemma \<open>walk_chain\<close> below shows that a loop over \<^verbatim>\<open>cur = cur->next\<close> meets exactly these pointers in order.
  \<^item> \<^verbatim>\<open>malloc\<close> is taken to succeed here (the code does not test it); the tables' \<^verbatim>\<open>calloc\<close> is a parameter of the hash table.
\<close>

section \<open>Objects\<close>

record subscriber =
  su_qos :: u32
  su_client :: "nat option"

record topic =
  tp_name :: "u8 list"
  tp_subs :: "nat list"

text \<open>\<open>sc_subscriptions\<close> is \<open>None\<close> where the code never stored a list.\<close>

record sol_client =
  sc_client_id :: "u8 list"
  sc_fd :: int
  sc_subscriptions :: "nat list option"

datatype callback = On_read | On_write | On_accept | Publish_stats

record closure =
  cb_fd :: int
  cb_obj :: "nat option"
  cb_args :: nat
  cb_closure_id :: "u8 list"
  cb_payload :: "bytestring option"
  cb_call :: callback

record omem =
  om_clients :: "nat \<Rightarrow> sol_client option"
  om_topics :: "nat \<Rightarrow> topic option"
  om_subs :: "nat \<Rightarrow> subscriber option"
  om_closures :: "nat \<Rightarrow> closure option"
  om_next :: nat
  om_bad :: bool

text \<open>The broker: two tables of pointers and the trie of topics.\<close>

record sol =
  sol_clients :: "(nat, omem) hashtable"
  sol_closures :: "(nat, omem) hashtable"
  sol_topics :: "nat trie"

definition deref_at :: "(nat \<Rightarrow> 'o option) \<Rightarrow> nat option \<Rightarrow> 'o res" where
  "deref_at h p = (case p of None \<Rightarrow> Inl Null_deref
     | Some a \<Rightarrow> (case h a of None \<Rightarrow> Inl Use_after_free | Some x \<Rightarrow> Inr x))"

lemma deref_at_simps [simp, res_simps]:
  "deref_at h None = Inl Null_deref"
  "h a = Some x \<Longrightarrow> deref_at h (Some a) = Inr x"
  "h a = None \<Longrightarrow> deref_at h (Some a) = Inl Use_after_free"
  by (simp_all add: deref_at_def)

lemma deref_at_Inr [simp]: "deref_at h p = Inr x \<longleftrightarrow> (\<exists>a. p = Some a \<and> h a = Some x)"
  by (auto simp: deref_at_def split: option.splits)

definition set_topic :: "nat \<Rightarrow> topic \<Rightarrow> omem \<Rightarrow> omem" where
  "set_topic a t m = m\<lparr>om_topics := (om_topics m)(a \<mapsto> t)\<rparr>"

definition set_client :: "nat \<Rightarrow> sol_client \<Rightarrow> omem \<Rightarrow> omem" where
  "set_client a c m = m\<lparr>om_clients := (om_clients m)(a \<mapsto> c)\<rparr>"

definition set_closure :: "nat \<Rightarrow> closure \<Rightarrow> omem \<Rightarrow> omem" where
  "set_closure a c m = m\<lparr>om_closures := (om_closures m)(a \<mapsto> c)\<rparr>"

section \<open>Topics\<close>

definition topic_init :: "u8 list \<Rightarrow> topic" where
  "topic_init name = \<lparr>tp_name = name, tp_subs = []\<rparr>"

definition topic_create :: "u8 list \<Rightarrow> omem \<Rightarrow> nat \<times> omem" where
  "topic_create name m =
     (let a = om_next m in (a, (set_topic a (topic_init name) m)\<lparr>om_next := Suc a\<rparr>))"

text \<open>\<^verbatim>\<open>malloc\<close> of a subscriber.\<close>

definition new_subscriber :: "nat option \<Rightarrow> u32 \<Rightarrow> omem \<Rightarrow> nat \<times> omem" where
  "new_subscriber client qos m =
     (let a = om_next m in (a, m\<lparr>om_subs := (om_subs m)(a \<mapsto> \<lparr>su_qos = qos, su_client = client\<rparr>), om_next := Suc a\<rparr>))"

text \<open>\<^verbatim>\<open>t->subscribers = list_push(t->subscribers, s)\<close>\<close>

definition push_subscriber :: "nat option \<Rightarrow> nat \<Rightarrow> omem \<Rightarrow> omem res" where
  "push_subscriber t s m =
     rbind (deref_at (om_topics m) t) (\<lambda>tp. Inr (set_topic (the t) (tp\<lparr>tp_subs := s # tp_subs tp\<rparr>) m))"

definition topic_add_subscriber :: "nat option \<Rightarrow> nat option \<Rightarrow> u32 \<Rightarrow> bool \<Rightarrow> omem \<Rightarrow> omem res" where
  "topic_add_subscriber t client qos cleansession m =
     (let (sub, m) = new_subscriber client qos m in
      rbind (push_subscriber t sub m) (\<lambda>m.
        if \<not> cleansession then
          rbind (deref_at (om_clients m) client) (\<lambda>c.
            case sc_subscriptions c of None \<Rightarrow> Inl Uninit_read
            | Some ts \<Rightarrow> Inr (set_client (the client) (c\<lparr>sc_subscriptions := Some (the t # ts)\<rparr>) m))
        else Inr m))"

text \<open>
  \<^verbatim>\<open>compare_cid\<close> takes two untyped pointers and reads both as subscribers, whatever they point to. A pointer is modelled with the type of the object behind it; reading
  an object of another type as a subscriber is a fault.
\<close>

datatype object_ptr =
    To_subscriber "nat option"
  | To_client "nat option"
  | To_list_node nat

definition as_subscriber :: "omem \<Rightarrow> object_ptr \<Rightarrow> subscriber res" where
  "as_subscriber m p = (case p of To_subscriber s \<Rightarrow> deref_at (om_subs m) s | _ \<Rightarrow> Inl Type_confusion)"

text \<open>The C library fixes the sign of \<^verbatim>\<open>strcmp\<close> only, and the bytes compare as unsigned.\<close>

fun strcmp :: "u8 list \<Rightarrow> u8 list \<Rightarrow> int" where
  "strcmp [] [] = 0"
| "strcmp [] (b # bs) = - 1"
| "strcmp (a # as) [] = 1"
| "strcmp (a # as) (b # bs) = (if a = b then strcmp as bs else if a < b then - 1 else 1)"

definition compare_cid :: "omem \<Rightarrow> object_ptr \<Rightarrow> object_ptr \<Rightarrow> int res" where
  "compare_cid m c1 c2 =
     rbind (as_subscriber m c1) (\<lambda>s1. rbind (deref_at (om_clients m) (su_client s1)) (\<lambda>d1.
     rbind (as_subscriber m c2) (\<lambda>s2. rbind (deref_at (om_clients m) (su_client s2)) (\<lambda>d2.
       Inr (strcmp (sc_client_id d1) (sc_client_id d2))))))"

text \<open>
  \<^verbatim>\<open>list_remove_node\<close> over the data pointers of a list: the nodes are compared from the head on until one matches. The first node taken out is still the head of the list and the others are
  lost (\<open>list_remove_node_head\<close>); an inner node is unlinked (\<open>list_remove_node_inner\<close>).
\<close>

fun find_node :: "('d \<Rightarrow> int res) \<Rightarrow> 'd list \<Rightarrow> nat option res" where
  "find_node cmp [] = Inr None"
| "find_node cmp (d # ds) =
     rbind (cmp d) (\<lambda>c. if c = 0 then Inr (Some 0) else rbind (find_node cmp ds) (\<lambda>i. Inr (map_option Suc i)))"

definition take_out :: "nat \<Rightarrow> 'd list \<Rightarrow> 'd list" where
  "take_out i ds = (if i = 0 then take 1 ds else take i ds @ drop (Suc i) ds)"

text \<open>The comparison is called with the list node, not with its data, as its first argument and with the client as its second.\<close>

definition topic_del_subscriber :: "nat option \<Rightarrow> nat option \<Rightarrow> bool \<Rightarrow> omem \<Rightarrow> omem res" where
  "topic_del_subscriber t client cleansession m =
     rbind (deref_at (om_topics m) t) (\<lambda>tp.
     rbind (find_node (\<lambda>d. compare_cid m (To_list_node d) (To_client client)) (tp_subs tp)) (\<lambda>found.
       Inr (case found of None \<Rightarrow> m
            | Some i \<Rightarrow> set_topic (the t) (tp\<lparr>tp_subs := take_out i (tp_subs tp)\<rparr>) m)))"

lemma strcmp_zero [simp]: "strcmp as bs = 0 \<longleftrightarrow> as = bs"
  by (induction as bs rule: strcmp.induct) auto

lemma strcmp_swap: "strcmp bs as = - strcmp as bs"
  by (induction as bs rule: strcmp.induct) auto

lemma compare_cid_subscribers:
  assumes "om_subs m a = Some x" "su_client x = Some c" "om_clients m c = Some d"
    and "om_subs m b = Some y" "su_client y = Some e" "om_clients m e = Some f"
  shows "compare_cid m (To_subscriber (Some a)) (To_subscriber (Some b)) = Inr (strcmp (sc_client_id d) (sc_client_id f))"
  using assms by (simp add: compare_cid_def as_subscriber_def)

text \<open>So nothing is ever deleted: an empty list stays as it is, and on any other list the first comparison already goes wrong.\<close>

lemma topic_del_subscriber_cases:
  assumes "om_topics m a = Some tp"
  shows "topic_del_subscriber (Some a) client cs m = (if tp_subs tp = [] then Inr m else Inl Type_confusion)"
  using assms by (cases "tp_subs tp") (simp_all add: topic_del_subscriber_def compare_cid_def as_subscriber_def)

definition sol_topic_put :: "sol \<Rightarrow> nat option \<Rightarrow> omem \<Rightarrow> sol res" where
  "sol_topic_put s t m =
     rbind (deref_at (om_topics m) t) (\<lambda>tp. Inr (s\<lparr>sol_topics := trie_insert (sol_topics s) (tp_name tp) t\<rparr>))"

text \<open>The topic structures that \<^verbatim>\<open>trie_delete\<close> frees are gone from the store.\<close>

definition sol_topic_del :: "sol \<Rightarrow> u8 list \<Rightarrow> omem \<Rightarrow> sol \<times> omem" where
  "sol_topic_del s name m =
     (let (t, fr, found) = trie_delete (sol_topics s) name
      in (s\<lparr>sol_topics := t\<rparr>, m\<lparr>om_topics := (\<lambda>a. if a \<in> set fr then None else om_topics m a)\<rparr>))"

definition sol_topic_get :: "sol \<Rightarrow> u8 list \<Rightarrow> nat option" where
  "sol_topic_get s name = snd (trie_find (sol_topics s) name)"

section \<open>Subscriber lists are chains\<close>

text \<open>\<^verbatim>\<open>for (cur = head; cur; cur = cur->next)\<close> over the nodes of a list; \<open>n\<close> steps at most.\<close>

fun walk :: "'a heap \<Rightarrow> nat \<Rightarrow> addr option \<Rightarrow> 'a option list res" where
  "walk h n None = Inr []"
| "walk h 0 (Some a) = Inl Out_of_fuel"
| "walk h (Suc n) (Some a) =
     rbind (read_node h (Some a)) (\<lambda>nd. rbind (walk h n (ln_next nd)) (\<lambda>ds. Inr (ln_data nd # ds)))"

lemma walk_chain: "chain h p as \<Longrightarrow> length as \<le> n \<Longrightarrow> walk h n p = Inr (datas h as)"
proof (induction as arbitrary: p n)
  case Nil
  then show ?case by (cases p) (simp_all add: datas_def)
next
  case (Cons a as)
  then obtain nd k where "p = Some a" "n = Suc k" "read_node h (Some a) = Inr nd" "chain h (ln_next nd) as" "data_of h a = ln_data nd"
    by (cases n; cases p) (auto simp: read_node_def data_of_def split: option.splits)
  then show ?case using Cons by (simp add: datas_def)
qed

end
