(* ===== verification/Mqtt.thy ===== *)
theory Mqtt
  imports Pack
begin

text \<open>
  \<^verbatim>\<open>src/sol/src/mqtt.h\<close> and \<^verbatim>\<open>mqtt.c\<close>: the packets of MQTT 3.1.1 as the broker stores them, the
  remaining-length field, one unpack function per packet a client sends, one pack function per
  packet the broker sends, the two dispatch tables, the constructors and \<^verbatim>\<open>mqtt_packet_release\<close>.

  \<^item> \<^verbatim>\<open>union mqtt_header\<close> is its byte; the bit-field members are functions of the byte (low bit first,
    as the target lays them out). Each \<^verbatim>\<open>struct\<close> is a record, \<^verbatim>\<open>union mqtt_packet\<close> a datatype with one
    constructor per member.
  \<^item> an unpack function takes the bytes from its \<^verbatim>\<open>buf\<close> argument to the end of the receive buffer
    and the header byte, and returns what the C function returns together with the packet it stores
    through \<^verbatim>\<open>pkt\<close>. Lengths are \<^verbatim>\<open>size_t\<close> and \<^verbatim>\<open>unsigned short\<close> words, so their wrap-around is the
    program's.
  \<^item> a pack function returns the block it allocated.
\<close>

unbundle bit_operations_syntax

section \<open>Constants\<close>

abbreviation (input) CONNECT :: nat where "CONNECT \<equiv> 1"
abbreviation (input) CONNACK :: nat where "CONNACK \<equiv> 2"
abbreviation (input) PUBLISH :: nat where "PUBLISH \<equiv> 3"
abbreviation (input) PUBACK :: nat where "PUBACK \<equiv> 4"
abbreviation (input) PUBREC :: nat where "PUBREC \<equiv> 5"
abbreviation (input) PUBREL :: nat where "PUBREL \<equiv> 6"
abbreviation (input) PUBCOMP :: nat where "PUBCOMP \<equiv> 7"
abbreviation (input) SUBSCRIBE :: nat where "SUBSCRIBE \<equiv> 8"
abbreviation (input) SUBACK :: nat where "SUBACK \<equiv> 9"
abbreviation (input) UNSUBSCRIBE :: nat where "UNSUBSCRIBE \<equiv> 10"
abbreviation (input) UNSUBACK :: nat where "UNSUBACK \<equiv> 11"
abbreviation (input) PINGREQ :: nat where "PINGREQ \<equiv> 12"
abbreviation (input) PINGRESP :: nat where "PINGRESP \<equiv> 13"
abbreviation (input) DISCONNECT :: nat where "DISCONNECT \<equiv> 14"

abbreviation (input) MQTT_HEADER_LEN :: nat where "MQTT_HEADER_LEN \<equiv> 2"
abbreviation (input) MQTT_ACK_LEN :: nat where "MQTT_ACK_LEN \<equiv> 4"
abbreviation (input) MAX_LEN_BYTES :: nat where "MAX_LEN_BYTES \<equiv> 4"

abbreviation (input) CONNACK_BYTE :: u8 where "CONNACK_BYTE \<equiv> 0x20"
abbreviation (input) PUBLISH_BYTE :: u8 where "PUBLISH_BYTE \<equiv> 0x30"
abbreviation (input) PUBACK_BYTE :: u8 where "PUBACK_BYTE \<equiv> 0x40"
abbreviation (input) PUBREC_BYTE :: u8 where "PUBREC_BYTE \<equiv> 0x50"
abbreviation (input) SUBACK_BYTE :: u8 where "SUBACK_BYTE \<equiv> 0x90"
abbreviation (input) UNSUBACK_BYTE :: u8 where "UNSUBACK_BYTE \<equiv> 0xB0"

abbreviation (input) AT_MOST_ONCE :: u8 where "AT_MOST_ONCE \<equiv> 0"
abbreviation (input) AT_LEAST_ONCE :: u8 where "AT_LEAST_ONCE \<equiv> 1"
abbreviation (input) EXACTLY_ONCE :: u8 where "EXACTLY_ONCE \<equiv> 2"

section \<open>Packets\<close>

type_synonym mqtt_header = u8

definition hdr_retain :: "mqtt_header \<Rightarrow> u8" where "hdr_retain h = h AND 1"
definition hdr_qos :: "mqtt_header \<Rightarrow> u8" where "hdr_qos h = drop_bit 1 h AND 3"
definition hdr_dup :: "mqtt_header \<Rightarrow> u8" where "hdr_dup h = drop_bit 3 h AND 1"
definition hdr_type :: "mqtt_header \<Rightarrow> u8" where "hdr_type h = drop_bit 4 h"

definition set_hdr_qos :: "u32 \<Rightarrow> mqtt_header \<Rightarrow> mqtt_header" where
  "set_hdr_qos q h = (h AND 0xF9) OR push_bit 1 (ucast q AND 3)"

record mqtt_connect =
  con_header :: mqtt_header
  con_byte :: u8
  con_keepalive :: u16
  con_client_id :: ptr
  con_username :: ptr
  con_password :: ptr
  con_will_topic :: ptr
  con_will_message :: ptr

definition con_clean_session :: "u8 \<Rightarrow> bool" where "con_clean_session b = bit b 1"
definition con_will :: "u8 \<Rightarrow> bool" where "con_will b = bit b 2"
definition con_password_flag :: "u8 \<Rightarrow> bool" where "con_password_flag b = bit b 6"
definition con_username_flag :: "u8 \<Rightarrow> bool" where "con_username_flag b = bit b 7"

record mqtt_connack =
  cack_header :: mqtt_header
  cack_byte :: u8
  cack_rc :: u8

record sub_tuple =
  st_topic_len :: u16
  st_topic :: ptr
  st_qos :: u32

record mqtt_subscribe =
  sub_header :: mqtt_header
  sub_pkt_id :: u16
  sub_tuples_len :: u16
  sub_tuples :: "sub_tuple list"

record unsub_tuple =
  ut_topic_len :: u16
  ut_topic :: ptr

record mqtt_unsubscribe =
  unsub_header :: mqtt_header
  unsub_pkt_id :: u16
  unsub_tuples_len :: u16
  unsub_tuples :: "unsub_tuple list"

record mqtt_suback =
  sack_header :: mqtt_header
  sack_pkt_id :: u16
  sack_rcslen :: u16
  sack_rcs :: "u8 list"

record mqtt_publish =
  pub_header :: mqtt_header
  pub_pkt_id :: u16
  pub_topiclen :: u16
  pub_topic :: ptr
  pub_payloadlen :: u16
  pub_payload :: ptr

record mqtt_ack =
  ack_header :: mqtt_header
  ack_pkt_id :: u16

datatype mqtt_packet =
    Pkt_ack mqtt_ack
  | Pkt_header mqtt_header
  | Pkt_connect mqtt_connect
  | Pkt_connack mqtt_connack
  | Pkt_suback mqtt_suback
  | Pkt_publish mqtt_publish
  | Pkt_subscribe mqtt_subscribe
  | Pkt_unsubscribe mqtt_unsubscribe

section \<open>The remaining-length field\<close>

function encode_loop :: "nat \<Rightarrow> u64 \<Rightarrow> u8 list" where
  "encode_loop bytes len =
     (if bytes + 1 > MAX_LEN_BYTES then []
      else let d = len mod 128; len' = len div 128;
               d' = (if len' > 0 then d OR 128 else d)
           in ucast d' # (if len' > 0 then encode_loop (bytes + 1) len' else []))"
  by pat_completeness auto
termination
  by (relation "measure (\<lambda>(bytes, len). MAX_LEN_BYTES - bytes)") auto

declare encode_loop.simps [simp del]

text \<open>
  The caller's pointer is not moved; the number of bytes written is returned.
\<close>

definition mqtt_encode_length :: "wptr \<Rightarrow> u64 \<Rightarrow> (nat \<times> wptr) res" where
  "mqtt_encode_length p len = rbind (write_mem p (encode_loop 0 len)) (\<lambda>(b, _).
     Inr (length (encode_loop 0 len), (b, snd p)))"

text \<open>
  The multiplier is an \<^verbatim>\<open>int\<close>: both products of an iteration are checked for signed overflow.
\<close>

fun decode_loop :: "u8 list \<Rightarrow> int \<Rightarrow> u64 \<Rightarrow> (u64 \<times> u8 list) res" where
  "decode_loop [] multiplier value = Inl Over_read"
| "decode_loop (c # buf) multiplier value =
     (let t = uint (c AND 127) * multiplier; m' = multiplier * 128 in
      if \<not> in_int t \<or> \<not> in_int m' then Inl Signed_overflow
      else if c AND 128 \<noteq> 0 then decode_loop buf m' (value + word_of_int t)
      else Inr (value + word_of_int t, buf))"

definition mqtt_decode_length :: "u64 reader" where
  "mqtt_decode_length buf = decode_loop buf 1 0"

section \<open>Unpacking\<close>

definition unpack_ptr16 :: "ptr reader" where
  "unpack_ptr16 buf = rbind (unpack_string16 buf) (\<lambda>((_, b), buf'). Inr (Some b, buf'))"

definition unpack_ptr16_if :: "bool \<Rightarrow> ptr reader" where
  "unpack_ptr16_if c buf = (if c then unpack_ptr16 buf else Inr (None, buf))"

definition unpack_mqtt_connect :: "u8 list \<Rightarrow> mqtt_header \<Rightarrow> (u64 \<times> mqtt_packet) res" where
  "unpack_mqtt_connect init hdr =
     rbind (mqtt_decode_length init) (\<lambda>(len, _).
     rbind (read_mem 8 init) (\<lambda>(_, buf).
     rbind (unpack_u8 buf) (\<lambda>(byte, buf).
     rbind (unpack_u16 buf) (\<lambda>(keepalive, buf).
     rbind (unpack_u16 buf) (\<lambda>(cid_len, buf).
     rbind (if cid_len > 0
            then rbind (unpack_bytes (unat cid_len) (malloc (unat cid_len + 1)) buf)
                   (\<lambda>(b, buf). Inr (Some b, buf))
            else Inr (None, buf)) (\<lambda>(client_id, buf).
     rbind (unpack_ptr16_if (con_will byte) buf) (\<lambda>(will_topic, buf).
     rbind (unpack_ptr16_if (con_will byte) buf) (\<lambda>(will_message, buf).
     rbind (unpack_ptr16_if (con_username_flag byte) buf) (\<lambda>(username, buf).
     rbind (unpack_ptr16_if (con_password_flag byte) buf) (\<lambda>(password, buf).
       Inr (len, Pkt_connect \<lparr>con_header = hdr, con_byte = byte, con_keepalive = keepalive,
              con_client_id = client_id, con_username = username, con_password = password,
              con_will_topic = will_topic, con_will_message = will_message\<rparr>)))))))))))"

definition unpack_mqtt_publish :: "u8 list \<Rightarrow> mqtt_header \<Rightarrow> (u64 \<times> mqtt_packet) res" where
  "unpack_mqtt_publish buf hdr =
     rbind (mqtt_decode_length buf) (\<lambda>(len, buf).
     rbind (unpack_string16 buf) (\<lambda>((topiclen, topic), buf).
     let message_len = ucast len :: u16 in
     rbind (if hdr_qos hdr > AT_MOST_ONCE
            then rbind (unpack_u16 buf) (\<lambda>(id, buf). Inr (id, message_len - 2, buf))
            else Inr (0, message_len, buf)) (\<lambda>(pkt_id, message_len, buf).
     let message_len = message_len - (2 + topiclen) in
     rbind (unpack_bytes (unat message_len) (malloc (unat message_len + 1)) buf) (\<lambda>(payload, buf).
       Inr (len, Pkt_publish \<lparr>pub_header = hdr, pub_pkt_id = pkt_id, pub_topiclen = topiclen,
              pub_topic = Some topic, pub_payloadlen = message_len, pub_payload = Some payload\<rparr>)))))"

function subscribe_loop ::
  "u64 \<Rightarrow> u64 \<Rightarrow> u8 list \<Rightarrow> (sub_tuple list \<times> u64 \<times> u8 list) res" where
  "subscribe_loop remaining_bytes len buf =
     (if remaining_bytes > 0 then
        rbind (unpack_string16 buf) (\<lambda>(str, buf1). case str of (topic_len, topic) \<Rightarrow>
        rbind (unpack_u8 buf1) (\<lambda>(qos, buf2).
        rbind (subscribe_loop (remaining_bytes - 2 - ucast topic_len) (len - 1) buf2)
          (\<lambda>(ts, len', buf').
             Inr (\<lparr>st_topic_len = topic_len, st_topic = Some topic, st_qos = ucast qos\<rparr> # ts,
                  len', buf'))))
      else Inr ([], len, buf))"
  by pat_completeness auto
termination
  by (relation "measure (\<lambda>(r, l, buf). length buf)") (auto dest!: unpack_lengths)

declare subscribe_loop.simps [simp del]

definition unpack_mqtt_subscribe :: "u8 list \<Rightarrow> mqtt_header \<Rightarrow> (u64 \<times> mqtt_packet) res" where
  "unpack_mqtt_subscribe buf hdr =
     rbind (mqtt_decode_length buf) (\<lambda>(len, buf).
     rbind (unpack_u16 buf) (\<lambda>(pkt_id, buf).
     rbind (subscribe_loop (len - 2) len buf) (\<lambda>(tuples, len, buf).
       Inr (len, Pkt_subscribe \<lparr>sub_header = hdr, sub_pkt_id = pkt_id,
              sub_tuples_len = of_nat (length tuples), sub_tuples = tuples\<rparr>))))"

function unsubscribe_loop :: "u64 \<Rightarrow> u8 list \<Rightarrow> (unsub_tuple list \<times> u8 list) res" where
  "unsubscribe_loop remaining_bytes buf =
     (if remaining_bytes > 0 then
        rbind (unpack_string16 buf) (\<lambda>(str, buf1). case str of (topic_len, topic) \<Rightarrow>
        rbind (unsubscribe_loop (remaining_bytes - 2 - ucast topic_len) buf1) (\<lambda>(ts, buf').
          Inr (\<lparr>ut_topic_len = topic_len, ut_topic = Some topic\<rparr> # ts, buf')))
      else Inr ([], buf))"
  by pat_completeness auto
termination
  by (relation "measure (\<lambda>(r, buf). length buf)") (auto dest!: unpack_lengths)

declare unsubscribe_loop.simps [simp del]

definition unpack_mqtt_unsubscribe :: "u8 list \<Rightarrow> mqtt_header \<Rightarrow> (u64 \<times> mqtt_packet) res" where
  "unpack_mqtt_unsubscribe buf hdr =
     rbind (mqtt_decode_length buf) (\<lambda>(len, buf).
     rbind (unpack_u16 buf) (\<lambda>(pkt_id, buf).
     rbind (unsubscribe_loop (len - 2) buf) (\<lambda>(tuples, buf).
       Inr (len, Pkt_unsubscribe \<lparr>unsub_header = hdr, unsub_pkt_id = pkt_id,
              unsub_tuples_len = of_nat (length tuples), unsub_tuples = tuples\<rparr>))))"

definition unpack_mqtt_ack :: "u8 list \<Rightarrow> mqtt_header \<Rightarrow> (u64 \<times> mqtt_packet) res" where
  "unpack_mqtt_ack buf hdr =
     rbind (mqtt_decode_length buf) (\<lambda>(len, buf).
     rbind (unpack_u16 buf) (\<lambda>(pkt_id, buf).
       Inr (len, Pkt_ack \<lparr>ack_header = hdr, ack_pkt_id = pkt_id\<rparr>)))"

text \<open>
  The table has eleven entries; a null entry is called through, an index past the end reads outside
  the array.
\<close>

definition unpack_handlers :: "(u8 list \<Rightarrow> mqtt_header \<Rightarrow> (u64 \<times> mqtt_packet) res) option list" where
  "unpack_handlers =
     [None, Some unpack_mqtt_connect, None, Some unpack_mqtt_publish, Some unpack_mqtt_ack,
      Some unpack_mqtt_ack, Some unpack_mqtt_ack, Some unpack_mqtt_ack, Some unpack_mqtt_subscribe,
      None, Some unpack_mqtt_unsubscribe]"

definition call_table :: "'f option list \<Rightarrow> nat \<Rightarrow> 'f res" where
  "call_table tab i = (if i < length tab then (case tab ! i of None \<Rightarrow> Inl Null_call | Some f \<Rightarrow> Inr f)
     else Inl Index_range)"

definition unpack_mqtt_packet :: "u8 list \<Rightarrow> (int \<times> mqtt_packet) res" where
  "unpack_mqtt_packet buf =
     rbind (unpack_u8 buf) (\<lambda>(header, buf').
       let type = unat (hdr_type header) in
       if type = DISCONNECT \<or> type = PINGREQ \<or> type = PINGRESP then Inr (0, Pkt_header header)
       else rbind (call_table unpack_handlers type) (\<lambda>f.
              rbind (f buf' header) (\<lambda>(rc, pkt). Inr (sint (ucast rc :: u32), pkt))))"

section \<open>Constructors and release\<close>

definition mqtt_packet_header :: "u8 \<Rightarrow> mqtt_header" where
  "mqtt_packet_header byte = byte"

definition mqtt_packet_ack :: "u8 \<Rightarrow> u16 \<Rightarrow> mqtt_ack" where
  "mqtt_packet_ack byte pkt_id = \<lparr>ack_header = byte, ack_pkt_id = pkt_id\<rparr>"

definition mqtt_packet_connack :: "u8 \<Rightarrow> u8 \<Rightarrow> u8 \<Rightarrow> mqtt_connack" where
  "mqtt_packet_connack byte cflags rc = \<lparr>cack_header = byte, cack_byte = cflags, cack_rc = rc\<rparr>"

definition mqtt_packet_suback :: "u8 \<Rightarrow> u16 \<Rightarrow> u8 list \<Rightarrow> u16 \<Rightarrow> mqtt_suback res" where
  "mqtt_packet_suback byte pkt_id rcs rcslen =
     rbind (read_mem (unat rcslen) rcs) (\<lambda>(copy, _).
       Inr \<lparr>sack_header = byte, sack_pkt_id = pkt_id, sack_rcslen = rcslen, sack_rcs = copy\<rparr>)"

definition mqtt_packet_publish :: "u8 \<Rightarrow> u16 \<Rightarrow> u64 \<Rightarrow> ptr \<Rightarrow> u64 \<Rightarrow> ptr \<Rightarrow> mqtt_publish" where
  "mqtt_packet_publish byte pkt_id topiclen topic payloadlen payload =
     \<lparr>pub_header = byte, pub_pkt_id = pkt_id, pub_topiclen = ucast topiclen, pub_topic = topic,
      pub_payloadlen = ucast payloadlen, pub_payload = payload\<rparr>"

text \<open>
  \<^verbatim>\<open>mqtt_packet_release\<close> as the list of its \<^verbatim>\<open>free\<close> calls, in order: a string field, or the array of
  tuples, or the return codes. For \<^verbatim>\<open>UNSUBSCRIBE\<close> the loop walks the array with the element type of
  \<^verbatim>\<open>subscribe.tuples\<close>, whose size is 24 bytes, over elements of 16: the second element it looks at is
  not one.
\<close>

datatype freed = Free_ptr ptr | Free_tuples | Free_rcs

definition mqtt_packet_release :: "mqtt_packet \<Rightarrow> nat \<Rightarrow> freed list res" where
  "mqtt_packet_release pkt type =
     (if type = CONNECT then (case pkt of
        Pkt_connect c \<Rightarrow> Inr ([Free_ptr (con_client_id c)]
          @ (if con_username_flag (con_byte c) then [Free_ptr (con_username c)] else [])
          @ (if con_password_flag (con_byte c) then [Free_ptr (con_password c)] else [])
          @ (if con_will (con_byte c)
             then [Free_ptr (con_will_message c), Free_ptr (con_will_topic c)] else []))
      | _ \<Rightarrow> Inl Type_confusion)
      else if type = SUBSCRIBE \<or> type = UNSUBSCRIBE then (case pkt of
        Pkt_subscribe s \<Rightarrow>
          if unat (sub_tuples_len s) \<le> length (sub_tuples s)
          then Inr (map (Free_ptr \<circ> st_topic) (take (unat (sub_tuples_len s)) (sub_tuples s)) @ [Free_tuples])
          else Inl Over_read
      | Pkt_unsubscribe u \<Rightarrow>
          if unat (unsub_tuples_len u) > 1 then Inl Type_confusion
          else if unat (unsub_tuples_len u) \<le> length (unsub_tuples u)
          then Inr (map (Free_ptr \<circ> ut_topic) (take (unat (unsub_tuples_len u)) (unsub_tuples u)) @ [Free_tuples])
          else Inl Over_read
      | _ \<Rightarrow> Inl Type_confusion)
      else if type = SUBACK then (case pkt of Pkt_suback s \<Rightarrow> Inr [Free_rcs] | _ \<Rightarrow> Inl Type_confusion)
      else if type = PUBLISH then (case pkt of
        Pkt_publish p \<Rightarrow> Inr [Free_ptr (pub_topic p), Free_ptr (pub_payload p)]
      | _ \<Rightarrow> Inl Type_confusion)
      else Inr [])"

section \<open>Packing\<close>

definition pack_mqtt_header :: "mqtt_header \<Rightarrow> block res" where
  "pack_mqtt_header hdr =
     rbind (pack_u8 (malloc MQTT_HEADER_LEN, 0) hdr) (\<lambda>ptr.
     rbind (mqtt_encode_length ptr 0) (\<lambda>(_, ptr). Inr (fst ptr)))"

definition pack_mqtt_ack :: "mqtt_packet \<Rightarrow> block res" where
  "pack_mqtt_ack pkt = (case pkt of Pkt_ack a \<Rightarrow>
     rbind (pack_u8 (malloc MQTT_ACK_LEN, 0) (ack_header a)) (\<lambda>ptr.
     rbind (mqtt_encode_length ptr (of_nat MQTT_HEADER_LEN)) (\<lambda>(_, b, off).
     rbind (pack_u16 (b, off + 1) (ack_pkt_id a)) (\<lambda>ptr. Inr (fst ptr))))
   | _ \<Rightarrow> Inl Type_confusion)"

definition pack_mqtt_connack :: "mqtt_packet \<Rightarrow> block res" where
  "pack_mqtt_connack pkt = (case pkt of Pkt_connack c \<Rightarrow>
     rbind (pack_u8 (malloc MQTT_ACK_LEN, 0) (cack_header c)) (\<lambda>ptr.
     rbind (mqtt_encode_length ptr (of_nat MQTT_HEADER_LEN)) (\<lambda>(_, b, off).
     rbind (pack_u8 (b, off + 1) (cack_byte c)) (\<lambda>ptr.
     rbind (pack_u8 ptr (cack_rc c)) (\<lambda>ptr. Inr (fst ptr)))))
   | _ \<Rightarrow> Inl Type_confusion)"

fun pack_rcs :: "wptr \<Rightarrow> u8 list \<Rightarrow> nat \<Rightarrow> wptr res" where
  "pack_rcs p rcs 0 = Inr p"
| "pack_rcs p [] (Suc n) = Inl Over_read"
| "pack_rcs p (r # rcs) (Suc n) = rbind (pack_u8 p r) (\<lambda>p. pack_rcs p rcs n)"

definition pack_mqtt_suback :: "mqtt_packet \<Rightarrow> block res" where
  "pack_mqtt_suback pkt = (case pkt of Pkt_suback s \<Rightarrow>
     let pktlen = MQTT_HEADER_LEN + 2 + unat (sack_rcslen s) in
     rbind (pack_u8 (malloc pktlen, 0) (sack_header s)) (\<lambda>ptr.
     let len = 2 + ucast (sack_rcslen s) in
     rbind (mqtt_encode_length ptr len) (\<lambda>(step, b, off).
     rbind (pack_u16 (b, off + step) (sack_pkt_id s)) (\<lambda>ptr.
     rbind (pack_rcs ptr (sack_rcs s) (unat (sack_rcslen s))) (\<lambda>ptr. Inr (fst ptr)))))
   | _ \<Rightarrow> Inl Type_confusion)"

text \<open>The extra bytes the remaining length takes, from the packet length computed with one.\<close>

definition remaininglen_offset :: "u64 \<Rightarrow> u64" where
  "remaininglen_offset pktlen =
     (if pktlen - 1 > 0x200000 then 3
      else if pktlen - 1 > 0x4000 then 2
      else if pktlen - 1 > 0x80 then 1 else 0)"

definition deref :: "ptr \<Rightarrow> block res" where
  "deref p = (case p of None \<Rightarrow> Inl Null_deref | Some b \<Rightarrow> Inr b)"

text \<open>The packet length \<^verbatim>\<open>pack_mqtt_publish\<close>, \<^verbatim>\<open>publish_handler\<close> and \<^verbatim>\<open>publish_message\<close> each compute.\<close>

definition publish_base_len :: "mqtt_publish \<Rightarrow> u64" where
  "publish_base_len p =
     (let pktlen = of_nat MQTT_HEADER_LEN + 2 + ucast (pub_topiclen p) + ucast (pub_payloadlen p)
      in if hdr_qos (pub_header p) > AT_MOST_ONCE then pktlen + 2 else pktlen)"

definition pack_mqtt_publish :: "mqtt_packet \<Rightarrow> block res" where
  "pack_mqtt_publish pkt = (case pkt of Pkt_publish p \<Rightarrow>
     let pktlen = publish_base_len p;
         off = remaininglen_offset pktlen;
         pktlen = pktlen + off in
     rbind (pack_u8 (malloc (unat pktlen), 0) (pub_header p)) (\<lambda>ptr.
     let len = pktlen - of_nat MQTT_HEADER_LEN - off in
     rbind (mqtt_encode_length ptr len) (\<lambda>(step, b, pos).
     rbind (pack_u16 (b, pos + step) (pub_topiclen p)) (\<lambda>ptr.
     rbind (deref (pub_topic p)) (\<lambda>topic.
     rbind (pack_bytes ptr topic) (\<lambda>ptr.
     rbind (if hdr_qos (pub_header p) > AT_MOST_ONCE then pack_u16 ptr (pub_pkt_id p) else Inr ptr)
       (\<lambda>ptr.
     rbind (deref (pub_payload p)) (\<lambda>payload.
     rbind (pack_bytes ptr payload) (\<lambda>ptr. Inr (fst ptr)))))))))
   | _ \<Rightarrow> Inl Type_confusion)"

definition pack_handlers :: "(mqtt_packet \<Rightarrow> block res) option list" where
  "pack_handlers =
     [None, None, Some pack_mqtt_connack, Some pack_mqtt_publish, Some pack_mqtt_ack,
      Some pack_mqtt_ack, Some pack_mqtt_ack, Some pack_mqtt_ack, None, Some pack_mqtt_suback,
      None, Some pack_mqtt_ack, None]"

text \<open>The \<^verbatim>\<open>header\<close> member of the union, which every other member starts with.\<close>

fun packet_header :: "mqtt_packet \<Rightarrow> mqtt_header" where
  "packet_header (Pkt_ack a) = ack_header a"
| "packet_header (Pkt_header h) = h"
| "packet_header (Pkt_connect c) = con_header c"
| "packet_header (Pkt_connack c) = cack_header c"
| "packet_header (Pkt_suback s) = sack_header s"
| "packet_header (Pkt_publish p) = pub_header p"
| "packet_header (Pkt_subscribe s) = sub_header s"
| "packet_header (Pkt_unsubscribe u) = unsub_header u"

definition pack_mqtt_packet :: "mqtt_packet \<Rightarrow> nat \<Rightarrow> block res" where
  "pack_mqtt_packet pkt type =
     (if type = PINGREQ \<or> type = PINGRESP then pack_mqtt_header (packet_header pkt)
      else rbind (call_table pack_handlers type) (\<lambda>f. f pkt))"

end
