(* ===== verification/Mqtt_Wire.thy ===== *)
theory Mqtt_Wire
  imports Mqtt
begin

text \<open>
  What the functions of \<open>Mqtt\<close> do on packets of the wire format: the remaining-length field is a
  codec, every pack function writes exactly the bytes of its packet, every unpack function recovers
  the fields of a well-formed packet, and where the code departs from the format.
\<close>

unbundle bit_operations_syntax

section \<open>Remaining length: encoding and decoding\<close>

lemma enc_byte_more:
  "(ucast (len mod 128 OR 128 :: u64) :: u8) AND 127 = ucast (len mod 128)"
  unfolding mod_128_take_bit and_127_take_bit
  by (rule bit_word_eqI) (auto simp: bit_simps bit_128)

lemma enc_byte_more_flag: "(ucast (len mod 128 OR 128 :: u64) :: u8) AND 128 \<noteq> 0"
  unfolding mod_128_take_bit and_128_eq_0 by (auto simp: bit_simps bit_128)

lemma enc_byte_last: "(ucast (len mod 128 :: u64) :: u8) AND 127 = ucast (len mod 128)"
  unfolding mod_128_take_bit and_127_take_bit
  by (rule bit_word_eqI) (auto simp: bit_simps bit_128)

lemma enc_byte_last_flag: "(ucast (len mod 128 :: u64) :: u8) AND 128 = 0"
  unfolding mod_128_take_bit and_128_eq_0 by (auto simp: bit_simps bit_128)

lemma uint_enc_byte: "uint (ucast (len mod 128 :: u64) :: u8) = uint len mod 128"
  by (simp add: unsigned_ucast_eq take_bit_eq_mod uint_mod)

lemmas enc_byte = enc_byte_more enc_byte_more_flag enc_byte_last enc_byte_last_flag uint_enc_byte

lemma power_128_le: "k \<le> 3 \<Longrightarrow> (128::int) ^ k \<le> 2097152"
  using power_increasing [of k 3 "128::int"] by simp

lemma in_int_step:
  assumes k: "k \<le> 3" and x: "0 \<le> x" "x < 128"
  shows "in_int (x * 128 ^ k)" and "in_int (128 ^ k * 128)"
proof -
  have a: "x * 128 ^ k \<le> 127 * 2097152"
    using power_128_le [OF k] x by (intro mult_mono) auto
  have b: "0 \<le> x * 128 ^ k" using x by simp
  have c: "128 ^ k * (128::int) \<le> 2097152 * 128" using power_128_le [OF k] by simp
  have d: "0 \<le> (128::int) ^ k" by simp
  show "in_int (x * 128 ^ k)" using a b unfolding in_int_def int_max_def by linarith
  show "in_int (128 ^ k * 128)" using c d unfolding in_int_def int_max_def by linarith
qed

text \<open>The value of a number from its lowest base-128 digit and the rest.\<close>

lemma base_128_step:
  "(word_of_int (uint (len :: u64) mod 128 * 128 ^ k) :: u64)
     + word_of_int (uint (len div 128) * 128 ^ (k + 1)) = word_of_int (uint len * 128 ^ k)"
proof -
  have "uint len = uint len mod 128 + 128 * uint (len div 128)" by (simp add: uint_div)
  then have "uint len * 128 ^ k = (uint len mod 128 + 128 * uint (len div 128)) * 128 ^ k"
    by (rule arg_cong)
  also have "\<dots> = uint len mod 128 * 128 ^ k + uint (len div 128) * 128 ^ (k + 1)"
    by (simp add: distrib_right)
  finally show ?thesis by simp
qed

lemma decode_encode_loop:
  "k \<le> 3 \<Longrightarrow> uint len < 128 ^ (4 - k) \<Longrightarrow>
   decode_loop (encode_loop k len @ rest) (128 ^ k) v =
     Inr (v + word_of_int (uint len * 128 ^ k), rest)"
proof (induction k len arbitrary: v rule: encode_loop.induct)
  case (1 k len)
  let ?q = "len div 128"
  have "0 \<le> uint len mod 128" "uint len mod 128 < 128" by auto
  note inr = in_int_step [OF 1(2) this]
  show ?case
  proof (cases "?q > 0")
    case False
    then have "uint len < 128" by (simp add: word_div_pos word_le_def)
    then have "uint len mod 128 = uint len" by simp
    with False 1(2) inr show ?thesis
      by (simp add: encode_loop.simps [of k len] enc_byte)
  next
    case True
    then have ge: "\<not> uint len < 128" by (simp add: word_div_pos word_le_def)
    then have "k \<noteq> 3" using 1(3) by auto
    then have k3: "k < 3" using 1(2) by simp
    then have k4: "4 - k = Suc (4 - (k + 1))" by simp
    have "uint len < 128 ^ (4 - (k + 1)) * 128" using 1(3) by (simp add: k4)
    then have lt: "uint ?q < 128 ^ (4 - (k + 1))"
      by (simp add: uint_div div_less_iff_less_mult mult.commute)
    let ?v = "v + word_of_int (uint len mod 128 * 128 ^ k)"
    have "decode_loop (encode_loop k len @ rest) (128 ^ k) v
        = decode_loop (encode_loop (k + 1) ?q @ rest) (128 ^ (k + 1)) ?v"
      using True 1(2) inr by (simp add: encode_loop.simps [of k len] enc_byte mult.commute)
    also have "\<dots> = Inr (?v + word_of_int (uint ?q * 128 ^ (k + 1)), rest)"
      using 1(1) [OF _ refl refl refl True, of ?v] k3 lt 1(2) by simp
    finally show ?thesis using base_128_step [of len k] by (simp add: add.assoc)
  qed
qed

interpretation lenc: codec "encode_loop 0" mqtt_decode_length "\<lambda>len. len < 0x10000000"
proof unfold_locales
  fix len :: u64 and rest
  assume "len < 0x10000000"
  then have "uint len < 128 ^ (4 - 0)" by (simp add: word_less_def)
  from decode_encode_loop [OF _ this, of rest 0]
  show "mqtt_decode_length (encode_loop 0 len @ rest) = Inr (len, rest)"
    by (simp add: mqtt_decode_length_def)
qed

lemma length_encode_step:
  "k \<le> 3 \<Longrightarrow> length (encode_loop k len) =
     (if len < 128 \<or> k = 3 then 1 else Suc (length (encode_loop (k + 1) (len div 128))))"
  by (auto simp: encode_loop.simps [of k len] encode_loop.simps [of 4 "len div 128"] Let_def
      word_div_pos not_less)

lemma word_div_less: "0 < n \<Longrightarrow> (w :: u64) div n < m \<longleftrightarrow> uint w div uint n < uint m"
  by (simp add: word_less_def uint_div)

definition length_bytes :: "nat \<Rightarrow> nat" where
  "length_bytes n = (if n < 128 then 1 else if n < 16384 then 2 else if n < 2097152 then 3 else 4)"

lemma unat_div_128: "unat ((len :: u64) div 128) = unat len div 128"
  by (simp add: unat_div)

lemma length_encode_loop: "length (encode_loop 0 len) = length_bytes (unat len)"
  by (auto simp: length_encode_step length_bytes_def word_less_nat_alt unat_div_128 div_mult2_eq
      less_mult_imp_div_less)

text \<open>A length that does not fit in four bytes loses its high digits and ends in a set top bit.\<close>

lemma decode_loop_more:
  assumes "k \<le> 3" and "bit c 7"
  shows "decode_loop (c # buf) (128 ^ k) v =
    decode_loop buf (128 ^ (k + 1)) (v + word_of_int (uint (c AND 127) * 128 ^ k))"
proof -
  have "0 \<le> uint (c AND 127)" "uint (c AND 127) < 128"
    unfolding and_127_take_bit by (simp_all add: take_bit_eq_mod uint_mod)
  from in_int_step [OF assms(1) this] show ?thesis
    using assms(2) by (simp add: and_128_eq_0 mult.commute)
qed

lemma decode_loop_five:
  assumes "bit c0 7" "bit c1 7" "bit c2 7" "bit c3 7"
  shows "mqtt_decode_length (c0 # c1 # c2 # c3 # rest) =
    Inl (if rest = [] then Over_read else Signed_overflow)"
proof -
  have "\<exists>v. mqtt_decode_length (c0 # c1 # c2 # c3 # rest) = decode_loop rest (128 ^ 4) v"
    using decode_loop_more [OF _ assms(1), of 0] decode_loop_more [OF _ assms(2), of 1]
      decode_loop_more [OF _ assms(3), of 2] decode_loop_more [OF _ assms(4), of 3]
    by (auto simp: mqtt_decode_length_def simp del: decode_loop.simps)
  moreover have "\<not> in_int (128 ^ 4 * 128)" by (simp add: in_int_def int_max_def)
  ultimately show ?thesis by (cases rest) (auto simp: Let_def)
qed

lemma decode_loop_consumes:
  "decode_loop buf m v = Inr (w, rest) \<Longrightarrow> length rest < length buf"
  by (induction buf arbitrary: m v) (force simp: Let_def split: if_splits)+

section \<open>Packed packets\<close>

lemma encode_small [simp]: "len < 128 \<Longrightarrow> encode_loop 0 len = [ucast len]"
proof -
  assume "len < 128"
  then have "\<not> 0 < len div 128" by (simp add: word_div_pos)
  with \<open>len < 128\<close> show ?thesis
    by (simp add: encode_loop.simps [of 0 len] mod_word_less)
qed

lemma encode_then_write [simp]:
  "rbind (mqtt_encode_length p len) (\<lambda>(step, b, off). rbind (write_mem (b, off + step) ys) g)
     = rbind (write_mem p (encode_loop 0 len @ ys)) g"
proof -
  have "rbind (mqtt_encode_length p len) (\<lambda>(step, b, off). rbind (write_mem (b, off + step) ys) g)
      = rbind (write_mem p (encode_loop 0 len)) (\<lambda>q. rbind (write_mem q ys) g)"
    by (cases p) (auto simp: mqtt_encode_length_def write_mem_def)
  then show ?thesis by simp
qed

lemma pack_mqtt_header_eq: "pack_mqtt_header h = Inr [Some h, Some 0]"
  by (simp add: pack_mqtt_header_def pack_u8_def mqtt_encode_length_def write_mem_def malloc_def)

lemma pack_mqtt_ack_eq:
  "pack_mqtt_ack (Pkt_ack a) = Inr (map Some (ack_header a # 2 # be16 (ack_pkt_id a)))"
  by (simp add: pack_mqtt_ack_def pack_u8_def pack_u16_be mqtt_encode_length_def write_mem_def
      malloc_def be16_def)

lemma pack_mqtt_connack_eq:
  "pack_mqtt_connack (Pkt_connack c) = Inr (map Some [cack_header c, 2, cack_byte c, cack_rc c])"
  by (simp add: pack_mqtt_connack_def pack_u8_def mqtt_encode_length_def write_mem_def malloc_def)

lemma pack_rcs_write:
  "n \<le> length rcs \<Longrightarrow> rbind (write_mem p xs) (\<lambda>q. rbind (pack_rcs q rcs n) g)
     = rbind (write_mem p (xs @ take n rcs)) g"
proof (induction rcs arbitrary: xs n)
  case Nil
  then show ?case by simp
next
  case (Cons r rcs)
  show ?case
  proof (cases n)
    case 0
    then show ?thesis by simp
  next
    case (Suc m)
    then have "rbind (write_mem p xs) (\<lambda>q. rbind (pack_rcs q (r # rcs) n) g)
      = rbind (write_mem p (xs @ [r])) (\<lambda>q. rbind (pack_rcs q rcs m) g)"
      by (simp add: pack_u8_def rbind_assoc)
    also have "\<dots> = rbind (write_mem p ((xs @ [r]) @ take m rcs)) g"
      using Cons Suc by simp
    finally show ?thesis using Suc by simp
  qed
qed

lemma length_bytes_bounds: "1 \<le> length_bytes n" "length_bytes n \<le> 4"
  by (simp_all add: length_bytes_def)

text \<open>The wire format of the packets the broker sends.\<close>

definition wire_suback :: "mqtt_header \<Rightarrow> u16 \<Rightarrow> u8 list \<Rightarrow> u8 list" where
  "wire_suback h pid rcs = h # encode_loop 0 (of_nat (2 + length rcs)) @ be16 pid @ rcs"

definition publish_body :: "mqtt_header \<Rightarrow> u8 list \<Rightarrow> u16 \<Rightarrow> u8 list \<Rightarrow> u8 list" where
  "publish_body h topic pid payload = be16 (of_nat (length topic)) @ topic
     @ (if hdr_qos h > AT_MOST_ONCE then be16 pid else []) @ payload"

definition wire_publish :: "mqtt_header \<Rightarrow> u8 list \<Rightarrow> u16 \<Rightarrow> u8 list \<Rightarrow> u8 list" where
  "wire_publish h topic pid payload = h #
     encode_loop 0 (of_nat (length (publish_body h topic pid payload))) @ publish_body h topic pid payload"

lemma pack_mqtt_suback_write:
  assumes len: "sack_rcslen s = of_nat (length (sack_rcs s))" "length (sack_rcs s) < 65536"
  shows "pack_mqtt_suback (Pkt_suback s) =
    rbind (write_mem (malloc (4 + length (sack_rcs s)), 0)
      (wire_suback (sack_header s) (sack_pkt_id s) (sack_rcs s))) (\<lambda>ptr. Inr (fst ptr))"
proof -
  have u: "unat (sack_rcslen s) = length (sack_rcs s)"
    using len by (simp add: unat_of_nat_small)
  have "(ucast (sack_rcslen s) :: u64) = of_nat (length (sack_rcs s))"
    by (rule word_unat_eq_iff [THEN iffD2]) (use len in \<open>simp add: unat_ucast_up unat_of_nat_small u\<close>)
  then show ?thesis
    by (simp add: pack_mqtt_suback_def pack_u8_def pack_u16_be pack_rcs_write wire_suback_def u Let_def
        rbind_assoc)
qed

lemma length_wire_suback:
  "length rcs < 65536 \<Longrightarrow>
     length (wire_suback h pid rcs) = 3 + length rcs + length_bytes (2 + length rcs)"
  by (simp add: wire_suback_def length_encode_loop unat_of_nat_small unat_word_ariths)

lemma unat_add_small:
  "unat (a :: u64) + unat b < 18446744073709551616 \<Longrightarrow> unat (a + b) = unat a + unat b"
  by (simp add: unat_word_ariths)

lemma publish_base_len_unat:
  "unat (publish_base_len p) = 4 + unat (pub_topiclen p) + unat (pub_payloadlen p)
     + (if hdr_qos (pub_header p) > 0 then 2 else 0)"
proof -
  have "unat (pub_topiclen p) < 65536" "unat (pub_payloadlen p) < 65536"
    using unsigned_less [of "pub_topiclen p"] unsigned_less [of "pub_payloadlen p"] by simp_all
  then show ?thesis
    by (simp add: publish_base_len_def unat_ucast_up unat_word_ariths)
qed

lemma remaininglen_offset_unat:
  "4 \<le> unat n \<Longrightarrow> unat (remaininglen_offset n) = length_bytes (unat n - 2) - 1"
proof -
  assume n: "4 \<le> unat n"
  then have "unat (n - 1) = unat n - 1" by (simp add: unat_sub word_le_nat_alt)
  then show ?thesis
    using n by (auto simp: remaininglen_offset_def length_bytes_def word_less_nat_alt)
qed

lemma length_publish_body:
  "length (publish_body h topic pid payload) =
     2 + length topic + length payload + (if hdr_qos h > 0 then 2 else 0)"
  by (simp add: publish_body_def)

definition publish_of :: "mqtt_header \<Rightarrow> u8 list \<Rightarrow> u16 \<Rightarrow> u8 list \<Rightarrow> mqtt_publish" where
  "publish_of h topic pid payload =
     \<lparr>pub_header = h, pub_pkt_id = pid, pub_topiclen = of_nat (length topic),
      pub_topic = Some (cstr topic), pub_payloadlen = of_nat (length payload),
      pub_payload = Some (cstr payload)\<rparr>"

lemma publish_sizes:
  assumes len: "length topic < 65536" "length payload < 65536"
    and n_def: "n = publish_base_len (publish_of h topic pid payload)"
  shows "unat (n + remaininglen_offset n) = length (wire_publish h topic pid payload)"
    and "n + remaininglen_offset n - 2 - remaininglen_offset n
      = of_nat (length (publish_body h topic pid payload))"
proof -
  define m where "m = length (publish_body h topic pid payload)"
  have n: "unat n = m + 2"
    using len by (simp add: n_def m_def publish_base_len_unat publish_of_def length_publish_body
        unat_of_nat_small)
  have m: "2 \<le> m" "m < 200000" using len by (simp_all add: m_def length_publish_body)
  then have "n = of_nat (m + 2)"
    by (intro word_unat_eq_iff [THEN iffD2]) (simp add: n unat_of_nat_small unat_word_ariths)
  then show "n + remaininglen_offset n - 2 - remaininglen_offset n
      = of_nat (length (publish_body h topic pid payload))"
    by (simp add: m_def)
  from m n have off: "unat (remaininglen_offset n) = length_bytes m - 1"
    by (simp add: remaininglen_offset_unat)
  then have "unat (n + remaininglen_offset n) = m + 1 + length_bytes m"
    using n m length_bytes_bounds [of m] by (simp add: unat_add_small)
  also have "\<dots> = length (wire_publish h topic pid payload)"
    using m by (simp add: wire_publish_def length_encode_loop unat_of_nat_small m_def [symmetric])
  finally show "unat (n + remaininglen_offset n) = length (wire_publish h topic pid payload)" .
qed

lemma pack_mqtt_publish_write:
  assumes "pub_topic p = Some (cstr topic)" "pub_payload p = Some (cstr payload)"
    and "zero_free topic" "zero_free payload" and "n = publish_base_len p"
  shows "pack_mqtt_publish (Pkt_publish p) =
    rbind (write_mem (malloc (unat (n + remaininglen_offset n)), 0)
      (pub_header p # encode_loop 0 (n + remaininglen_offset n - 2 - remaininglen_offset n)
        @ be16 (pub_topiclen p) @ topic
        @ (if hdr_qos (pub_header p) > 0 then be16 (pub_pkt_id p) else []) @ payload))
      (\<lambda>ptr. Inr (fst ptr))"
  by (cases "hdr_qos (pub_header p) > 0")
     (simp_all add: pack_mqtt_publish_def Let_def assms pack_u8_def pack_u16_be deref_def)

lemma pack_mqtt_publish_eq:
  assumes len: "length topic < 65536" "length payload < 65536"
    and "zero_free topic" "zero_free payload"
  shows "pack_mqtt_publish (Pkt_publish (publish_of h topic pid payload)) =
    Inr (map Some (wire_publish h topic pid payload))"
proof -
  let ?p = "publish_of h topic pid payload" and ?w = "wire_publish h topic pid payload"
  define n where "n = publish_base_len ?p"
  have "pack_mqtt_publish (Pkt_publish ?p) =
    rbind (write_mem (malloc (unat (n + remaininglen_offset n)), 0)
      (h # encode_loop 0 (n + remaininglen_offset n - 2 - remaininglen_offset n)
        @ publish_body h topic pid payload)) (\<lambda>ptr. Inr (fst ptr))"
    using pack_mqtt_publish_write [of ?p topic payload, OF _ _ assms(3,4) n_def]
    by (simp add: publish_of_def publish_body_def)
  also have "\<dots> = rbind (write_mem (malloc (length ?w), 0) ?w) (\<lambda>ptr. Inr (fst ptr))"
    unfolding publish_sizes [OF len n_def] by (simp only: wire_publish_def append_Cons append_Nil)
  finally show ?thesis by simp
qed

section \<open>Unpacking well-formed packets\<close>

lemma hdr_qos_pos: "hdr_qos h > 0 \<longleftrightarrow> hdr_qos h \<noteq> 0"
  by (simp add: word_gt_0)

lemma unpack_mqtt_publish_body:
  assumes topic: "length topic < 65536"
    and len: "length (publish_body h topic pid payload) < 0x10000000"
    and pid: "hdr_qos h = 0 \<Longrightarrow> pid = 0"
  shows "unpack_mqtt_publish (tl (wire_publish h topic pid payload) @ rest) h =
    Inr (of_nat (length (publish_body h topic pid payload)),
      Pkt_publish (publish_of h topic pid (take (length payload mod 65536) payload)))"
proof -
  define b where "b = publish_body h topic pid payload"
  define n where "n = (of_nat (length b) :: u64)"
  define m where "m = length payload mod 65536"
  have "n < 0x10000000"
    using len by (simp add: n_def b_def word_less_nat_alt unat_of_nat_small)
  then have dec: "mqtt_decode_length (encode_loop 0 n @ b @ rest) = Inr (n, b @ rest)"
    by (rule lenc.dec_enc)
  have wire: "tl (wire_publish h topic pid payload) @ rest = encode_loop 0 n @ b @ rest"
    by (simp add: wire_publish_def b_def n_def)
  have n16: "(ucast n :: u16) = of_nat (length b)"
    by (simp add: n_def ucast_of_nat_down)
  have m: "m \<le> length payload" "(of_nat (length payload) :: u16) = of_nat m" "m < 65536"
    by (simp_all add: m_def unat_word_ariths word_unat_eq_iff unat_of_nat take_bit_eq_mod)
  have bytes: "unpack_bytes m (malloc (Suc m)) (payload @ rest) =
    Inr (cstr (take m payload), drop m payload @ rest)"
    using unpack_bytes_append [of "take m payload" m "drop m payload @ rest"] m(1)
    by (simp flip: append_assoc)
  show ?thesis
  proof (cases "hdr_qos h = 0")
    case True
    then have "(of_nat (length b) :: u16) - (2 + of_nat (length topic)) = of_nat m"
      by (simp add: b_def length_publish_body m(2))
    with True pid topic m bytes show ?thesis
      unfolding unpack_mqtt_publish_def wire dec
      by (simp add: n16 b_def [symmetric] n_def [symmetric] m_def [symmetric] Let_def)
         (simp add: n_def b_def publish_body_def publish_of_def unat_of_nat_small)
  next
    case False
    then have "(of_nat (length b) :: u16) - 2 - (2 + of_nat (length topic)) = of_nat m"
      by (simp add: b_def length_publish_body hdr_qos_pos m(2))
    with False topic m bytes show ?thesis
      unfolding unpack_mqtt_publish_def wire dec
      by (simp add: n16 b_def [symmetric] n_def [symmetric] m_def [symmetric] Let_def hdr_qos_pos)
         (simp add: n_def b_def publish_body_def publish_of_def unat_of_nat_small hdr_qos_pos)
  qed
qed

text \<open>Requests: a packet is a header byte, the length of the body, and the body.\<close>

definition wire_packet :: "mqtt_header \<Rightarrow> u8 list \<Rightarrow> u8 list" where
  "wire_packet h body = h # encode_loop 0 (of_nat (length body)) @ body"

lemma decode_body:
  "length body < 0x10000000 \<Longrightarrow>
     mqtt_decode_length (encode_loop 0 (of_nat (length body)) @ body @ rest)
       = Inr (of_nat (length body), body @ rest)"
  by (rule lenc.dec_enc) (simp add: word_less_nat_alt unat_of_nat_small)

definition topic_filter :: "u8 list \<Rightarrow> u8 list" where
  "topic_filter t = be16 (of_nat (length t)) @ t"

definition unsubscribe_body :: "u16 \<Rightarrow> u8 list list \<Rightarrow> u8 list" where
  "unsubscribe_body pid topics = be16 pid @ concat (map topic_filter topics)"

definition unsub_of :: "u8 list \<Rightarrow> unsub_tuple" where
  "unsub_of t = \<lparr>ut_topic_len = of_nat (length t), ut_topic = Some (cstr t)\<rparr>"

lemma length_topic_filter [simp]: "length (topic_filter t) = 2 + length t"
  by (simp add: topic_filter_def)

lemma unsubscribe_loop_topics:
  assumes "list_all (\<lambda>t. length t < 65536) topics"
    and "length (concat (map topic_filter topics)) < 0x10000000"
  shows "unsubscribe_loop (of_nat (length (concat (map topic_filter topics))))
      (concat (map topic_filter topics) @ rest) = Inr (map unsub_of topics, rest)"
  using assms
proof (induction topics)
  case Nil
  then show ?case by (simp add: unsubscribe_loop.simps)
next
  case (Cons t topics)
  define c where "c = concat (map topic_filter topics)"
  define r where "r = (of_nat (2 + length t + length c) :: u64)"
  have len: "length t < 65536" "2 + length t + length c < 0x10000000"
    using Cons.prems by (simp_all add: c_def)
  have pos: "r > 0" unfolding r_def by (rule of_nat_word_pos) (use len in auto)
  have rem: "r - 2 - ucast (of_nat (length t) :: u16) = of_nat (length c)"
    using len by (simp add: r_def ucast_of_nat_up)
  have str: "unpack_string16 ((topic_filter t @ c) @ rest)
      = Inr ((of_nat (length t), cstr t), c @ rest)"
    using len by (simp add: topic_filter_def)
  have IH: "unsubscribe_loop (of_nat (length c)) (c @ rest) = Inr (map unsub_of topics, rest)"
    using Cons by (simp add: c_def)
  have "unsubscribe_loop r ((topic_filter t @ c) @ rest) = Inr (map unsub_of (t # topics), rest)"
    unfolding unsubscribe_loop.simps [of r "(topic_filter t @ c) @ rest"]
    using pos str rem IH by (simp add: unsub_of_def)
  then show ?case by (simp add: r_def c_def)
qed

lemma unpack_mqtt_unsubscribe_wire:
  assumes "list_all (\<lambda>t. length t < 65536) topics"
    and len: "length (unsubscribe_body pid topics) < 0x10000000"
  shows "unpack_mqtt_unsubscribe (tl (wire_packet h (unsubscribe_body pid topics)) @ rest) h =
    Inr (of_nat (length (unsubscribe_body pid topics)), Pkt_unsubscribe
      \<lparr>unsub_header = h, unsub_pkt_id = pid, unsub_tuples_len = of_nat (length topics),
       unsub_tuples = map unsub_of topics\<rparr>)"
proof -
  define c where "c = concat (map topic_filter topics)"
  have dec: "mqtt_decode_length (tl (wire_packet h (unsubscribe_body pid topics)) @ rest) =
    Inr (of_nat (2 + length c), be16 pid @ c @ rest)"
    using decode_body [OF len, of rest] by (simp add: wire_packet_def unsubscribe_body_def c_def)
  have loop: "unsubscribe_loop (of_nat (length c)) (c @ rest) = Inr (map unsub_of topics, rest)"
    unfolding c_def using assms by (intro unsubscribe_loop_topics) (simp_all add: unsubscribe_body_def)
  have l: "length (unsubscribe_body pid topics) = 2 + length c"
    by (simp add: unsubscribe_body_def c_def)
  show ?thesis
    unfolding unpack_mqtt_unsubscribe_def dec l using loop by simp
qed

text \<open>Subscribe requests: the loop does not count the QoS byte of a tuple as consumed.\<close>

definition sub_filter :: "u8 list \<times> u8 \<Rightarrow> u8 list" where
  "sub_filter tq = topic_filter (fst tq) @ [snd tq]"

definition subscribe_body :: "u16 \<Rightarrow> (u8 list \<times> u8) list \<Rightarrow> u8 list" where
  "subscribe_body pid subs = be16 pid @ concat (map sub_filter subs)"

definition sub_of :: "u8 list \<times> u8 \<Rightarrow> sub_tuple" where
  "sub_of tq = \<lparr>st_topic_len = of_nat (length (fst tq)), st_topic = Some (cstr (fst tq)),
     st_qos = ucast (snd tq)\<rparr>"

lemma length_sub_filter [simp]: "length (sub_filter tq) = 3 + length (fst tq)"
  by (simp add: sub_filter_def)

lemma unpack_u16_fault: "unpack_u16 buf = Inl e \<Longrightarrow> e = Over_read"
  by (simp add: unpack_u16_def read_mem_def split: if_splits)

lemma unpack_string16_fault: "unpack_string16 buf = Inl e \<Longrightarrow> e = Over_read"
  by (auto simp: unpack_string16_def unpack_bytes_def read_mem_def rbind_def
      dest: unpack_u16_fault split: sum.splits if_splits prod.splits)

lemma unpack_u8_fault: "unpack_u8 buf = Inl e \<Longrightarrow> e = Over_read"
  by (simp add: unpack_u8_def split: list.splits)

lemma subscribe_loop_cases:
  assumes "r > 0"
  obtains (fault) "subscribe_loop r l buf = Inl Over_read"
  | (step) tl t buf2 and q :: u8 where
      "length buf = length buf2 + 3 + unat tl"
      "subscribe_loop r l buf = rbind (subscribe_loop (r - 2 - ucast tl) (l - 1) buf2)
        (\<lambda>(ts, len', buf').
           Inr (\<lparr>st_topic_len = tl, st_topic = Some t, st_qos = ucast q\<rparr> # ts, len', buf'))"
proof (cases "unpack_string16 buf")
  case (Inl e)
  with assms have "subscribe_loop r l buf = Inl Over_read"
    by (simp add: subscribe_loop.simps [of r l buf] unpack_string16_fault [OF Inl])
  then show ?thesis by (rule fault)
next
  case (Inr x)
  then obtain tl t buf1 where s: "unpack_string16 buf = Inr ((tl, t), buf1)"
    by (metis prod.exhaust)
  show ?thesis
  proof (cases "unpack_u8 buf1")
    case (Inl e)
    with assms s have "subscribe_loop r l buf = Inl Over_read"
      by (simp add: subscribe_loop.simps [of r l buf] unpack_u8_fault [OF Inl])
    then show ?thesis by (rule fault)
  next
    case (Inr y)
    then obtain q buf2 where u: "unpack_u8 buf1 = Inr (q, buf2)" by (cases y) simp
    from s u have "length buf = length buf2 + 3 + unat tl"
      by (auto dest!: unpack_lengths)
    then show ?thesis
      by (rule step [where tl = tl and t = t and q = q])
         (use assms s u in \<open>simp add: subscribe_loop.simps [of r l buf]\<close>)
  qed
qed

text \<open>A count that exceeds what the buffer holds is never reached: the reads leave the buffer.\<close>

lemma subscribe_loop_overrun:
  "length buf < unat r \<Longrightarrow> subscribe_loop r l buf = Inl Over_read"
proof (induction "length buf" arbitrary: buf r l rule: less_induct)
  case less
  then have "r > 0" by (simp add: word_less_nat_alt)
  then show ?case
  proof (cases rule: subscribe_loop_cases [where l = l and buf = buf])
    case fault
    then show ?thesis .
  next
    case (step tl t buf2 q)
    have "unat (r - 2 - ucast tl) = unat r - 2 - unat tl"
      using less.prems step(1) by (simp add: unat_sub word_le_nat_alt unat_ucast_up)
    then have "subscribe_loop (r - 2 - ucast tl) (l - 1) buf2 = Inl Over_read"
      using less step(1) by simp
    with step(2) show ?thesis by simp
  qed
qed

text \<open>The loop reads the tuples of a well-formed request and is then left with one byte per tuple.\<close>

lemma subscribe_loop_tuples:
  assumes "list_all (\<lambda>tq. length (fst tq) < 65536) subs"
    and "length (concat (map sub_filter subs)) + k < 0x10000000"
  shows "subscribe_loop (of_nat (length (concat (map sub_filter subs)) + k)) l
      (concat (map sub_filter subs) @ rest) =
    rbind (subscribe_loop (of_nat (length subs + k)) (l - of_nat (length subs)) rest)
      (\<lambda>(ts, len', buf'). Inr (map sub_of subs @ ts, len', buf'))"
  using assms
proof (induction subs arbitrary: k l)
  case Nil
  then show ?case
    by (cases "subscribe_loop (of_nat k) l rest") auto
next
  case (Cons tq subs)
  define c where "c = concat (map sub_filter subs)"
  define r where "r = (of_nat (length (sub_filter tq @ c) + k) :: u64)"
  obtain t q where tq: "tq = (t, q)" by (cases tq)
  have len: "length t < 65536" "3 + length t + length c + k < 0x10000000"
    using Cons.prems by (simp_all add: c_def tq)
  have pos: "r > 0" unfolding r_def
    by (rule of_nat_word_pos) (use len in \<open>auto simp: tq\<close>)
  have rem: "r - 2 - ucast (of_nat (length t) :: u16) = of_nat (length c + (k + 1))"
    using len by (simp add: r_def ucast_of_nat_up tq)
  have str: "unpack_string16 ((sub_filter tq @ c) @ rest)
      = Inr ((of_nat (length t), cstr t), q # c @ rest)"
    using len by (simp add: sub_filter_def topic_filter_def tq)
  have IH: "subscribe_loop (of_nat (length c + (k + 1))) (l - 1) (c @ rest) =
    rbind (subscribe_loop (of_nat (length subs + (k + 1))) (l - 1 - of_nat (length subs)) rest)
      (\<lambda>(ts, len', buf'). Inr (map sub_of subs @ ts, len', buf'))"
    unfolding c_def using Cons.prems(1) len by (intro Cons.IH) (simp_all add: c_def)
  have "subscribe_loop r l ((sub_filter tq @ c) @ rest) =
    rbind (subscribe_loop (of_nat (length subs + (k + 1))) (l - 1 - of_nat (length subs)) rest)
      (\<lambda>(ts, len', buf'). Inr (map sub_of (tq # subs) @ ts, len', buf'))"
  proof -
    have "subscribe_loop r l ((sub_filter tq @ c) @ rest) =
      rbind (subscribe_loop (r - 2 - ucast (of_nat (length t) :: u16)) (l - 1) (c @ rest))
        (\<lambda>(ts, len', buf'). Inr (sub_of tq # ts, len', buf'))"
      unfolding subscribe_loop.simps [of r l "(sub_filter tq @ c) @ rest"]
      using pos str by (simp add: sub_of_def tq)
    then show ?thesis unfolding rem IH by (simp add: rbind_assoc case_prod_beta')
  qed
  then show ?case by (simp add: r_def c_def algebra_simps case_prod_beta')
qed

lemma unpack_mqtt_subscribe_wire:
  assumes subs: "list_all (\<lambda>tq. length (fst tq) < 65536) subs"
    and len: "length (subscribe_body pid subs) < 0x10000000"
  shows "unpack_mqtt_subscribe (tl (wire_packet h (subscribe_body pid subs)) @ rest) h =
    rbind (subscribe_loop (of_nat (length subs))
        (of_nat (length (subscribe_body pid subs)) - of_nat (length subs)) rest)
      (\<lambda>(ts, len', buf'). Inr (len', Pkt_subscribe
         \<lparr>sub_header = h, sub_pkt_id = pid, sub_tuples_len = of_nat (length subs + length ts),
          sub_tuples = map sub_of subs @ ts\<rparr>))"
proof -
  define c where "c = concat (map sub_filter subs)"
  have l: "length (subscribe_body pid subs) = 2 + length c"
    by (simp add: subscribe_body_def c_def)
  have dec: "mqtt_decode_length (tl (wire_packet h (subscribe_body pid subs)) @ rest) =
    Inr (of_nat (2 + length c), be16 pid @ c @ rest)"
    using decode_body [OF len, of rest] by (simp add: wire_packet_def subscribe_body_def c_def)
  have "subscribe_loop (of_nat (length c)) (of_nat (2 + length c)) (c @ rest) =
    rbind (subscribe_loop (of_nat (length subs)) (of_nat (2 + length c) - of_nat (length subs)) rest)
      (\<lambda>(ts, len', buf'). Inr (map sub_of subs @ ts, len', buf'))"
    using subscribe_loop_tuples [OF subs, of 0 "of_nat (2 + length c)" rest] len
    by (simp add: c_def [symmetric] l)
  then show ?thesis
    unfolding unpack_mqtt_subscribe_def dec l by (simp add: rbind_assoc case_prod_beta')
qed

lemma subscribe_loop_one:
  assumes "length rest < 0x8000000000000000"
  shows "subscribe_loop 1 l rest = Inl Over_read"
proof -
  have "(1 :: u64) > 0" by simp
  then show ?thesis
  proof (cases rule: subscribe_loop_cases [where l = l and buf = rest])
    case fault
    then show ?thesis .
  next
    case (step tl t buf2 q)
    have "unat tl < 65536" using unsigned_less [of tl] by simp
    have "unat (- 1 :: u64) = 18446744073709551615"
      by (simp add: unsigned_minus_1_eq_mask mask_eq_exp_minus_1)
    then have "unat (1 - 2 - ucast tl :: u64) = 18446744073709551615 - unat tl"
      using unat_sub [of "ucast tl" "- 1 :: u64"] by (simp add: unat_ucast_up)
    with \<open>unat tl < 65536\<close> assms step(1)
    have "subscribe_loop (1 - 2 - ucast tl) (l - 1) buf2 = Inl Over_read"
      by (intro subscribe_loop_overrun) simp
    with step(2) show ?thesis by simp
  qed
qed

text \<open>Connect requests: \<open>proto\<close> is the seven bytes of protocol name and level.\<close>

definition opt_filter :: "bool \<Rightarrow> u8 list \<Rightarrow> u8 list" where
  "opt_filter c s = (if c then topic_filter s else [])"

definition connect_body ::
  "u8 list \<Rightarrow> u8 \<Rightarrow> u16 \<Rightarrow> u8 list \<Rightarrow> u8 list \<Rightarrow> u8 list \<Rightarrow> u8 list \<Rightarrow> u8 list \<Rightarrow> u8 list" where
  "connect_body proto flags ka cid wt wm un pw =
     proto @ flags # be16 ka @ topic_filter cid @ opt_filter (con_will flags) wt
     @ opt_filter (con_will flags) wm @ opt_filter (con_username_flag flags) un
     @ opt_filter (con_password_flag flags) pw"

definition opt_ptr :: "bool \<Rightarrow> u8 list \<Rightarrow> ptr" where
  "opt_ptr c s = (if c then Some (cstr s) else None)"

definition connect_of ::
  "mqtt_header \<Rightarrow> u8 \<Rightarrow> u16 \<Rightarrow> u8 list \<Rightarrow> u8 list \<Rightarrow> u8 list \<Rightarrow> u8 list \<Rightarrow> u8 list \<Rightarrow> mqtt_connect" where
  "connect_of h flags ka cid wt wm un pw =
     \<lparr>con_header = h, con_byte = flags, con_keepalive = ka, con_client_id = opt_ptr (cid \<noteq> []) cid,
      con_username = opt_ptr (con_username_flag flags) un,
      con_password = opt_ptr (con_password_flag flags) pw,
      con_will_topic = opt_ptr (con_will flags) wt, con_will_message = opt_ptr (con_will flags) wm\<rparr>"

lemma unpack_ptr16_if_filter:
  "length s < 65536 \<Longrightarrow> unpack_ptr16_if c (opt_filter c s @ rest) = Inr (opt_ptr c s, rest)"
  by (simp add: unpack_ptr16_if_def opt_filter_def opt_ptr_def unpack_ptr16_def topic_filter_def)

lemma unpack_mqtt_connect_wire:
  assumes proto: "length proto = 7"
    and len: "length (connect_body proto flags ka cid wt wm un pw) < 128"
    and strs: "length wt < 65536" "length wm < 65536" "length un < 65536" "length pw < 65536"
  shows "unpack_mqtt_connect (tl (wire_packet h (connect_body proto flags ka cid wt wm un pw)) @ rest) h
    = Inr (of_nat (length (connect_body proto flags ka cid wt wm un pw)),
        Pkt_connect (connect_of h flags ka cid wt wm un pw))"
proof -
  define body where "body = connect_body proto flags ka cid wt wm un pw"
  define tail where "tail = opt_filter (con_will flags) wt @ opt_filter (con_will flags) wm
    @ opt_filter (con_username_flag flags) un @ opt_filter (con_password_flag flags) pw @ rest"
  have small: "length body < 128" using len by (simp add: body_def)
  have enc: "encode_loop 0 (of_nat (length body)) = [of_nat (length body)]"
    using small by (simp add: word_less_nat_alt unat_of_nat_small ucast_of_nat_down)
  have init: "tl (wire_packet h body) @ rest = (of_nat (length body) # proto) @ flags # be16 ka @ topic_filter cid @ tail"
    unfolding wire_packet_def enc by (simp add: body_def connect_body_def tail_def)
  have dec: "mqtt_decode_length (tl (wire_packet h body) @ rest) = Inr (of_nat (length body), body @ rest)"
    using decode_body [of body rest] small by (simp add: wire_packet_def)
  have cid: "length cid < 128" using small by (simp add: body_def connect_body_def)
  have skip: "read_mem 8 (tl (wire_packet h body) @ rest) =
    Inr (of_nat (length body) # proto, flags # be16 ka @ topic_filter cid @ tail)"
    unfolding init by (rule read_mem_append) (simp add: proto)
  have un: "unat (of_nat (length cid) :: u16) = length cid"
    using cid by (simp add: unat_of_nat_small)
  have pos: "(0 :: u16) < of_nat (length cid) \<longleftrightarrow> cid \<noteq> []"
    using cid by (auto simp: word_less_nat_alt un)
  show ?thesis
    unfolding unpack_mqtt_connect_def body_def [symmetric] dec
    by (simp add: skip topic_filter_def un pos unpack_ptr16_if_filter strs tail_def connect_of_def opt_ptr_def)
qed

lemma unpack_mqtt_ack_wire: "unpack_mqtt_ack (2 # be16 pid @ rest) h =
    Inr (2, Pkt_ack \<lparr>ack_header = h, ack_pkt_id = pid\<rparr>)"
proof -
  have "mqtt_decode_length (2 # be16 pid @ rest) = Inr (2, be16 pid @ rest)"
    using lenc.dec_enc [of 2 "be16 pid @ rest"] by simp
  then show ?thesis by (simp add: unpack_mqtt_ack_def)
qed

section \<open>Dispatch\<close>

lemma hdr_type_less: "unat (hdr_type h) < 16"
proof -
  have "unat h < 256" using unsigned_less [of h] by simp
  then show ?thesis by (simp add: hdr_type_def drop_bit_eq_div unat_div)
qed

lemma call_table_simps [simp]:
  "i < length tab \<Longrightarrow> tab ! i = Some f \<Longrightarrow> call_table tab i = Inr f"
  "i < length tab \<Longrightarrow> tab ! i = None \<Longrightarrow> call_table tab i = Inl Null_call"
  "length tab \<le> i \<Longrightarrow> call_table tab i = Inl Index_range"
  by (simp_all add: call_table_def)

lemma unpack_mqtt_packet_Cons:
  "unpack_mqtt_packet (h # buf) =
     (let type = unat (hdr_type h) in
      if type = DISCONNECT \<or> type = PINGREQ \<or> type = PINGRESP then Inr (0, Pkt_header h)
      else rbind (call_table unpack_handlers type) (\<lambda>f.
             rbind (f buf h) (\<lambda>(rc, pkt). Inr (sint (ucast rc :: u32), pkt))))"
  by (simp add: unpack_mqtt_packet_def)

lemma unpack_handlers_nth:
  "call_table unpack_handlers 0 = Inl Null_call"
  "call_table unpack_handlers (Suc 0) = Inr unpack_mqtt_connect"
  "call_table unpack_handlers 2 = Inl Null_call"
  "call_table unpack_handlers 3 = Inr unpack_mqtt_publish"
  "4 \<le> i \<Longrightarrow> i \<le> 7 \<Longrightarrow> call_table unpack_handlers i = Inr unpack_mqtt_ack"
  "call_table unpack_handlers 8 = Inr unpack_mqtt_subscribe"
  "call_table unpack_handlers 9 = Inl Null_call"
  "call_table unpack_handlers 10 = Inr unpack_mqtt_unsubscribe"
  "11 \<le> i \<Longrightarrow> call_table unpack_handlers i = Inl Index_range"
proof -
  show "4 \<le> i \<Longrightarrow> i \<le> 7 \<Longrightarrow> call_table unpack_handlers i = Inr unpack_mqtt_ack"
  proof -
    assume "4 \<le> i" "i \<le> 7"
    then have "i = 4 \<or> i = 5 \<or> i = 6 \<or> i = 7" by auto
    then show ?thesis by (auto simp: call_table_def unpack_handlers_def)
  qed
qed (simp_all add: call_table_def unpack_handlers_def)

lemma unpack_packet_wire:
  assumes "unat (hdr_type h) = t" and "t \<le> 10" and "call_table unpack_handlers t = Inr f"
    and "f (tl (wire_packet h body) @ rest) h = r"
  shows "unpack_mqtt_packet (wire_packet h body @ rest)
    = rbind r (\<lambda>(rc, pkt). Inr (sint (ucast rc :: u32), pkt))"
proof -
  have "wire_packet h body @ rest = h # tl (wire_packet h body) @ rest"
    by (simp add: wire_packet_def)
  then have "unpack_mqtt_packet (wire_packet h body @ rest)
      = unpack_mqtt_packet (h # tl (wire_packet h body) @ rest)" by (rule arg_cong)
  then show ?thesis using assms by (simp add: unpack_mqtt_packet_Cons Let_def)
qed

lemma wire_publish_packet: "wire_publish h topic pid payload = wire_packet h (publish_body h topic pid payload)"
  by (simp add: wire_publish_def wire_packet_def)

section \<open>Lengths that do not fit\<close>

lemma encode_loop_head_more:
  "k \<le> 3 \<Longrightarrow> 128 \<le> len \<Longrightarrow>
     \<exists>c. bit c 7 \<and> encode_loop k len = c # encode_loop (k + 1) (len div 128)"
  using enc_byte_more_flag [of len]
  by (subst encode_loop.simps) (auto simp: Let_def word_div_pos and_128_eq_0)

lemma encode_loop_overlong:
  assumes "0x10000000 \<le> len"
  shows "\<exists>c0 c1 c2 c3. bit c0 7 \<and> bit c1 7 \<and> bit c2 7 \<and> bit c3 7 \<and>
    encode_loop 0 len = [c0, c1, c2, c3]"
proof -
  have big: "268435456 \<le> unat len" using assms by (simp add: word_le_nat_alt)
  have ge: "128 \<le> len" "128 \<le> len div 128" "128 \<le> len div 128 div 128"
    "128 \<le> len div 128 div 128 div 128"
    using big by (simp_all add: word_le_nat_alt unat_div)
  obtain c0 where 0: "bit c0 7" "encode_loop 0 len = c0 # encode_loop 1 (len div 128)"
    using encode_loop_head_more [OF _ ge(1), of 0] by auto
  obtain c1 where 1: "bit c1 7" "encode_loop 1 (len div 128) = c1 # encode_loop 2 (len div 128 div 128)"
    using encode_loop_head_more [OF _ ge(2), of 1] by (auto simp: numeral_2_eq_2)
  obtain c2 where 2: "bit c2 7"
    "encode_loop 2 (len div 128 div 128) = c2 # encode_loop 3 (len div 128 div 128 div 128)"
    using encode_loop_head_more [OF _ ge(3), of 2] by auto
  obtain c3 where 3: "bit c3 7"
    "encode_loop 3 (len div 128 div 128 div 128) = c3 # encode_loop 4 (len div 128 div 128 div 128 div 128)"
    using encode_loop_head_more [OF _ ge(4), of 3] by auto
  have "encode_loop 0 len = [c0, c1, c2, c3]"
    unfolding 0(2) 1(2) 2(2) 3(2) by (simp add: encode_loop.simps [of 4])
  with 0(1) 1(1) 2(1) 3(1) show ?thesis by blast
qed

section \<open>A payload with a zero byte\<close>

lemma pack_bytes_zero:
  "zero_free s \<Longrightarrow> pack_bytes p (cstr (s @ 0 # t)) = write_mem p s"
  by (simp add: pack_bytes_def cstr_def strlen_prefix)

lemma pack_mqtt_publish_zero:
  assumes len: "length topic < 65536" "length (s @ 0 # t) < 65536"
    and zf: "zero_free topic" "zero_free s"
  shows "pack_mqtt_publish (Pkt_publish (publish_of h topic pid (s @ 0 # t))) =
    Inr (map Some (take (length (wire_publish h topic pid (s @ 0 # t)) - Suc (length t))
        (wire_publish h topic pid (s @ 0 # t)))
      @ replicate (Suc (length t)) None)"
proof -
  let ?p = "publish_of h topic pid (s @ 0 # t)" and ?w = "wire_publish h topic pid (s @ 0 # t)"
  define n where "n = publish_base_len ?p"
  define w where "w = h # encode_loop 0 (of_nat (length (publish_body h topic pid (s @ 0 # t))))
    @ be16 (of_nat (length topic)) @ topic @ (if hdr_qos h > 0 then be16 pid else []) @ s"
  note sz = publish_sizes [OF len n_def]
  have w: "?w = w @ 0 # t" by (simp add: wire_publish_def publish_body_def w_def)
  have "pack_mqtt_publish (Pkt_publish ?p) =
    rbind (write_mem (malloc (length ?w), 0)
      (h # encode_loop 0 (n + remaininglen_offset n - 2 - remaininglen_offset n)
        @ be16 (of_nat (length topic)) @ topic @ (if hdr_qos h > 0 then be16 pid else []) @ s))
      (\<lambda>ptr. Inr (fst ptr))"
    unfolding sz(1) [symmetric] using zf
    by (cases "hdr_qos h > 0")
       (simp_all add: pack_mqtt_publish_def Let_def n_def pack_u8_def pack_u16_be deref_def
         publish_of_def pack_bytes_zero)
  also have "\<dots> = rbind (write_mem (malloc (length (w @ 0 # t)), 0) w) (\<lambda>ptr. Inr (fst ptr))"
    unfolding sz(2) w w_def ..
  finally show ?thesis unfolding w by (simp add: write_mem_malloc)
qed

section \<open>Properties\<close>

text \<open>
  C19 (length_roundtrip): for a length below 2 to the 28, \<^verbatim>\<open>mqtt_encode_length\<close> writes between one and
  four bytes, as many as the number of base-128 digits, and \<^verbatim>\<open>mqtt_decode_length\<close> reads the same
  length back and stops right after those bytes.
\<close>
theorem length_roundtrip:
  assumes "len < 0x10000000" and "length_bytes (unat len) \<le> n"
  shows "\<exists>bs. mqtt_encode_length (malloc n, 0) len
        = Inr (length bs, map Some bs @ replicate (n - length bs) None, 0)
    \<and> length bs = length_bytes (unat len)
    \<and> (\<forall>rest. mqtt_decode_length (bs @ rest) = Inr (len, rest))"
proof (intro exI conjI allI)
  show "mqtt_encode_length (malloc n, 0) len = Inr (length (encode_loop 0 len),
      map Some (encode_loop 0 len) @ replicate (n - length (encode_loop 0 len)) None, 0)"
    using assms(2) by (simp add: mqtt_encode_length_def write_mem_malloc length_encode_loop)
qed (use assms(1) in \<open>simp_all add: length_encode_loop lenc.dec_enc\<close>)

theorem length_roundtrip_witness:
  "\<exists>bs. mqtt_encode_length (malloc 4, 0) 300
        = Inr (length bs, map Some bs @ replicate (4 - length bs) None, 0)
    \<and> length bs = length_bytes (unat (300 :: u64))
    \<and> (\<forall>rest. mqtt_decode_length (bs @ rest) = Inr (300, rest))"
  by (rule length_roundtrip) (simp_all add: length_bytes_def)

text \<open>
  A length of 2 to the 28 or more is encoded in four bytes that all carry the
  continuation bit, and decoding them runs into the next bytes: it overflows the multiplier or reads
  past the end.
\<close>
theorem length_overlong:
  assumes "0x10000000 \<le> len"
  shows "length (encode_loop 0 len) = 4
    \<and> mqtt_decode_length (encode_loop 0 len @ rest) = Inl (if rest = [] then Over_read else Signed_overflow)"
proof -
  from encode_loop_overlong [OF assms] obtain c0 c1 c2 c3
    where c: "bit c0 7" "bit c1 7" "bit c2 7" "bit c3 7" "encode_loop 0 len = [c0, c1, c2, c3]"
    by blast
  then show ?thesis using decode_loop_five [OF c(1-4), of rest] by simp
qed

theorem length_overlong_witness:
  "mqtt_decode_length (encode_loop 0 0x10000000 @ [1]) = Inl Signed_overflow"
  using length_overlong [of "0x10000000" "[1]"] by simp

text \<open>
  For a topic and a payload without zero bytes, \<^verbatim>\<open>pack_mqtt_packet\<close> allocates
  exactly the size of the PUBLISH packet and fills every byte of it: header, remaining length,
  length-prefixed topic, packet identifier when the QoS is not zero, payload.
\<close>
theorem publish_pack_wire:
  assumes "length topic < 65536" "length payload < 65536" "zero_free topic" "zero_free payload"
  shows "pack_mqtt_packet (Pkt_publish (publish_of h topic pid payload)) PUBLISH
    = Inr (map Some (wire_publish h topic pid payload))"
  using pack_mqtt_publish_eq [OF assms] by (simp add: pack_mqtt_packet_def call_table_def pack_handlers_def)

theorem publish_pack_wire_witness:
  "pack_mqtt_packet (Pkt_publish (publish_of 0x32 [97, 47] 7 [104, 105])) PUBLISH
    = Inr (map Some (wire_publish 0x32 [97, 47] 7 [104, 105]))"
  by (rule publish_pack_wire) simp_all

lemma publish_unpack:
  assumes "hdr_type h = 3" and "length topic < 65536"
    and "length (publish_body h topic pid payload) < 0x10000000" and "hdr_qos h = 0 \<Longrightarrow> pid = 0"
  shows "\<exists>rc. unpack_mqtt_packet (wire_publish h topic pid payload @ rest)
    = Inr (rc, Pkt_publish (publish_of h topic pid (take (length payload mod 65536) payload)))"
  unfolding wire_publish_packet
  using unpack_packet_wire [of h 3 unpack_mqtt_publish "publish_body h topic pid payload" rest] assms(1)
    unpack_mqtt_publish_body [OF assms(2-4), of rest]
  by (simp add: unpack_handlers_nth wire_publish_packet)

text \<open>
  C18 (publish_roundtrip): unpacking a PUBLISH packet recovers header, topic, identifier and payload,
  except that the payload length is kept in 16 bits: a payload of 65536 bytes or more is cut to its
  length modulo 65536.
\<close>
theorem publish_roundtrip:
  assumes "hdr_type h = 3" and "length topic < 65536"
    and "length (publish_body h topic pid payload) < 0x10000000" and "hdr_qos h = 0 \<Longrightarrow> pid = 0"
  shows "\<exists>rc. unpack_mqtt_packet (wire_publish h topic pid payload @ rest)
    = Inr (rc, Pkt_publish (publish_of h topic pid (take (length payload mod 65536) payload)))"
  by (rule publish_unpack [OF assms])

theorem publish_roundtrip_witness:
  "\<exists>rc. unpack_mqtt_packet (wire_publish 0x32 [97, 47] 7 [104, 0, 105] @ [9, 9])
    = Inr (rc, Pkt_publish (publish_of 0x32 [97, 47] 7 (take (length [104, 0, 105 :: u8] mod 65536) [104, 0, 105])))"
  by (rule publish_roundtrip) (simp_all add: hdr_type_def hdr_qos_def publish_body_def)

text \<open>
  C28 (publish_zero_uninit): when the payload holds a zero byte, the packed packet stops there; the rest
  of the allocated block, as long as the rest of the payload, is memory nobody has written.
\<close>
theorem publish_zero_uninit:
  assumes "length topic < 65536" "length (s @ 0 # t) < 65536" "zero_free topic" "zero_free s"
  shows "\<exists>b. pack_mqtt_packet (Pkt_publish (publish_of h topic pid (s @ 0 # t))) PUBLISH = Inr b
    \<and> length b = length (wire_publish h topic pid (s @ 0 # t))
    \<and> drop (length b - Suc (length t)) b = replicate (Suc (length t)) None"
  using pack_mqtt_publish_zero [OF assms, of h pid]
  by (simp add: pack_mqtt_packet_def call_table_def pack_handlers_def wire_publish_def publish_body_def)

theorem publish_zero_uninit_witness:
  "\<exists>b. pack_mqtt_packet (Pkt_publish (publish_of 0x30 [97] 0 ([1] @ 0 # [2, 3]))) PUBLISH = Inr b
    \<and> length b = length (wire_publish 0x30 [97] 0 ([1] @ 0 # [2, 3]))
    \<and> drop (length b - Suc (length [2, 3 :: u8])) b = replicate (Suc (length [2, 3 :: u8])) None"
  by (rule publish_zero_uninit) simp_all

text \<open>
  A CONNECT packet whose remaining length fits in one byte is unpacked to its
  flags, keep-alive, client identifier (the null pointer when it is empty) and the will, user name and
  password its flags announce.
\<close>
theorem connect_unpack:
  assumes "hdr_type h = 1" and "length proto = 7"
    and "length (connect_body proto flags ka cid wt wm un pw) < 128"
    and "length wt < 65536" "length wm < 65536" "length un < 65536" "length pw < 65536"
  shows "\<exists>rc. unpack_mqtt_packet (wire_packet h (connect_body proto flags ka cid wt wm un pw) @ rest)
    = Inr (rc, Pkt_connect (connect_of h flags ka cid wt wm un pw))"
  using unpack_packet_wire [of h 1 unpack_mqtt_connect _ rest] assms(1)
    unpack_mqtt_connect_wire [OF assms(2-7), of h rest]
  by (simp add: unpack_handlers_nth)

theorem connect_unpack_witness:
  "\<exists>rc. unpack_mqtt_packet (wire_packet 0x10
      (connect_body [0, 4, 77, 81, 84, 84, 4] 0xC2 60 [99, 49] [] [] [117] [112]) @ [5])
    = Inr (rc, Pkt_connect (connect_of 0x10 0xC2 60 [99, 49] [] [] [117] [112]))"
  by (rule connect_unpack)
     (simp_all add: hdr_type_def connect_body_def opt_filter_def topic_filter_def con_will_def)

text \<open>
  C26 (unsubscribe_unpack): an UNSUBSCRIBE packet is unpacked to its packet identifier and to all its
  topic filters, in order.
\<close>
theorem unsubscribe_unpack:
  assumes "hdr_type h = 10" and "list_all (\<lambda>t. length t < 65536) topics"
    and "length (unsubscribe_body pid topics) < 0x10000000"
  shows "\<exists>rc. unpack_mqtt_packet (wire_packet h (unsubscribe_body pid topics) @ rest)
    = Inr (rc, Pkt_unsubscribe \<lparr>unsub_header = h, unsub_pkt_id = pid,
        unsub_tuples_len = of_nat (length topics), unsub_tuples = map unsub_of topics\<rparr>)"
  using unpack_packet_wire [of h 10 unpack_mqtt_unsubscribe _ rest] assms(1)
    unpack_mqtt_unsubscribe_wire [OF assms(2,3), of h rest]
  by (simp add: unpack_handlers_nth)

theorem unsubscribe_unpack_witness:
  "\<exists>rc. unpack_mqtt_packet (wire_packet 0xA2 (unsubscribe_body 5 [[97, 47], [98]]) @ [])
    = Inr (rc, Pkt_unsubscribe \<lparr>unsub_header = 0xA2, unsub_pkt_id = 5,
        unsub_tuples_len = of_nat (length [[97, 47], [98 :: u8]]),
        unsub_tuples = map unsub_of [[97, 47], [98]]\<rparr>)"
  by (rule unsubscribe_unpack) (simp_all add: hdr_type_def unsubscribe_body_def)

text \<open>
  C25 (subscribe_unpack_overrun): the SUBSCRIBE loop does not count the QoS bytes, so a well-formed packet with exactly one topic
  filter is never unpacked: whatever follows it in the buffer, up to \<open>2^63 - 1\<close> bytes, the loop reads on
  until it leaves the buffer. (With several filters the loop can stop by chance.)
\<close>
theorem subscribe_unpack_overrun:
  assumes "hdr_type h = 8" and "length t < 65536"
    and "length rest < 0x8000000000000000"
  shows "unpack_mqtt_packet (wire_packet h (subscribe_body pid [(t, q)]) @ rest) = Inl Over_read"
proof -
  let ?b = "subscribe_body pid [(t, q)]"
  have "length ?b < 0x10000000" using assms(2) by (simp add: subscribe_body_def)
  then have "unpack_mqtt_subscribe (tl (wire_packet h ?b) @ rest) h = Inl Over_read"
    using unpack_mqtt_subscribe_wire [of "[(t, q)]" pid h rest] assms(2) subscribe_loop_one [OF assms(3)]
    by simp
  then show ?thesis
    using unpack_packet_wire [of h 8 unpack_mqtt_subscribe ?b rest] assms(1)
    by (simp add: unpack_handlers_nth)
qed

theorem subscribe_unpack_overrun_witness:
  "unpack_mqtt_packet (wire_packet 0x82 (subscribe_body 1 [([97, 47], 1)]) @ [0, 0, 0, 0]) = Inl Over_read"
  by (rule subscribe_unpack_overrun) (simp_all add: hdr_type_def)

lemma suback_pack:
  assumes "length rcs < 65536"
  shows "pack_mqtt_packet (Pkt_suback \<lparr>sack_header = h, sack_pkt_id = pid,
      sack_rcslen = of_nat (length rcs), sack_rcs = rcs\<rparr>) SUBACK
    = (if length rcs \<le> 125 then Inr (map Some (wire_suback h pid rcs)) else Inl Over_write)"
proof -
  let ?s = "\<lparr>sack_header = h, sack_pkt_id = pid, sack_rcslen = of_nat (length rcs), sack_rcs = rcs\<rparr>"
  have "pack_mqtt_packet (Pkt_suback ?s) SUBACK = pack_mqtt_suback (Pkt_suback ?s)"
    by (simp add: pack_mqtt_packet_def call_table_def pack_handlers_def)
  also have "\<dots> = rbind (write_mem (malloc (4 + length rcs), 0) (wire_suback h pid rcs)) (\<lambda>ptr. Inr (fst ptr))"
    using pack_mqtt_suback_write [of ?s] assms by simp
  also have "\<dots> = (if length rcs \<le> 125 then Inr (map Some (wire_suback h pid rcs)) else Inl Over_write)"
    using length_wire_suback [OF assms, of h pid] by (auto simp: write_mem_malloc length_bytes_def)
  finally show ?thesis .
qed

text \<open>
  C27 (suback_pack_exact): a SUBACK packet with up to 125 return codes is packed to exactly its wire
  format; with more, the remaining length takes a second byte the allocation does not have and the
  last write is outside the block.
\<close>
theorem suback_pack_exact:
  assumes "length rcs < 65536"
  shows "pack_mqtt_packet (Pkt_suback \<lparr>sack_header = h, sack_pkt_id = pid,
      sack_rcslen = of_nat (length rcs), sack_rcs = rcs\<rparr>) SUBACK
    = (if length rcs \<le> 125 then Inr (map Some (wire_suback h pid rcs)) else Inl Over_write)"
  by (rule suback_pack [OF assms])

theorem suback_pack_exact_witness:
  "pack_mqtt_packet (Pkt_suback \<lparr>sack_header = 0x90, sack_pkt_id = 1,
      sack_rcslen = of_nat (length (replicate 126 (0 :: u8))), sack_rcs = replicate 126 0\<rparr>) SUBACK
    = Inl Over_write"
  using suback_pack_exact [of "replicate 126 0" "0x90" 1] by simp

text \<open>
  The fixed-size replies are packed to their four or two bytes: acknowledgements
  with the packet identifier in network byte order, CONNACK with its flags and return code, PINGRESP
  with a zero length.
\<close>
theorem reply_bytes:
  "pack_mqtt_packet (Pkt_ack (mqtt_packet_ack b pid)) PUBACK
     = Inr (map Some [b, 2, ucast (drop_bit 8 pid), ucast pid])
    \<and> pack_mqtt_packet (Pkt_ack (mqtt_packet_ack b pid)) PUBREC
     = Inr (map Some [b, 2, ucast (drop_bit 8 pid), ucast pid])
    \<and> pack_mqtt_packet (Pkt_ack (mqtt_packet_ack b pid)) UNSUBACK
     = Inr (map Some [b, 2, ucast (drop_bit 8 pid), ucast pid])
    \<and> pack_mqtt_packet (Pkt_connack (mqtt_packet_connack b fl rc)) CONNACK = Inr (map Some [b, 2, fl, rc])
    \<and> pack_mqtt_packet (Pkt_header b) PINGRESP = Inr (map Some [b, 0])"
  using pack_mqtt_ack_eq [of "mqtt_packet_ack b pid"] pack_mqtt_connack_eq [of "mqtt_packet_connack b fl rc"]
  by (simp add: pack_mqtt_packet_def call_table_def pack_handlers_def mqtt_packet_ack_def
      mqtt_packet_connack_def pack_mqtt_header_eq be16_def)

text \<open>
  What \<^verbatim>\<open>unpack_mqtt_packet\<close> does with each packet type: types 12 to 14 are
  only a header, types 0, 2 and 9 call a null pointer, types 11 and 15 index past the table.
\<close>
theorem unpack_dispatch:
  "unpack_mqtt_packet (h # buf) =
     (let t = unat (hdr_type h) in
      if t \<in> {12, 13, 14} then Inr (0, Pkt_header h)
      else if t \<in> {0, 2, 9} then Inl Null_call
      else if t \<in> {11, 15} then Inl Index_range
      else rbind ((if t = 1 then unpack_mqtt_connect else if t = 3 then unpack_mqtt_publish
             else if t = 8 then unpack_mqtt_subscribe else if t = 10 then unpack_mqtt_unsubscribe
             else unpack_mqtt_ack) buf h)
           (\<lambda>(rc, pkt). Inr (sint (ucast rc :: u32), pkt)))"
proof -
  have "unat (hdr_type h) < 16" by (rule hdr_type_less)
  then have "unat (hdr_type h) \<in> {0, 1, 2, 3, 4, 5, 6, 7, 8, 9, 10, 11, 12, 13, 14, 15}"
    by (simp add: eval_nat_numeral less_Suc_eq)
  then show ?thesis
    by (auto simp: unpack_mqtt_packet_Cons unpack_handlers_nth Let_def)
qed

end
