(* ===== verification/Network.thy ===== *)
theory Network
  imports Sol_Prelude
begin

text \<open>
  \<^verbatim>\<open>src/sol/src/network.c\<close>: sending and receiving all the bytes of a buffer on a non-blocking socket, the
  registration of descriptors with epoll, the periodic tasks and the event loop.

  \<^item> the system calls are seen through their results. What a socket still has to deliver is a list of
    \<open>sk_event\<close>: chunks of bytes, the end of the stream, an error; an empty list is \<^verbatim>\<open>EAGAIN\<close>. How much a
    socket accepts is a list of \<open>snd_event\<close>: room for so many bytes, an error; no room is \<^verbatim>\<open>EAGAIN\<close>.
    Every sequence of results of \<^verbatim>\<open>recv(2)\<close> and \<^verbatim>\<open>send(2)\<close> is one of these lists.
  \<^item> \<^verbatim>\<open>epoll_data_t\<close> is a union: \<open>U_fd\<close> and \<open>U_ptr\<close> say which member was stored. Reading \<^verbatim>\<open>.fd\<close> from a stored
    pointer gives its low bits, a parameter \<open>low\<close>; following \<^verbatim>\<open>.ptr\<close> where a descriptor was stored is a fault.
  \<^item> the event loop's \<^verbatim>\<open>status\<close> only keeps \<^verbatim>\<open>errno\<close> for a log message; it is left out, as is the number of the epoll descriptor.
  \<^item> the callbacks of the event loop are a parameter \<open>call\<close> on an arbitrary state.
\<close>

section \<open>Sending\<close>

datatype snd_event = Snd_room nat | Snd_error

datatype 'r sys = Sys_ok 'r | Sys_again | Sys_err

fun send_sys :: "snd_event list \<Rightarrow> nat \<Rightarrow> nat sys \<times> snd_event list" where
  "send_sys [] n = (Sys_again, [])"
| "send_sys (Snd_error # q) n = (Sys_err, q)"
| "send_sys (Snd_room k # q) n = (if k = 0 then (Sys_again, q) else (Sys_ok (min k n), q))"

lemma send_sys_pos: "(Sys_ok k, q') = send_sys q n \<Longrightarrow> 0 < n \<Longrightarrow> 0 < k \<and> k \<le> n"
  by (cases "(q, n)" rule: send_sys.cases) (auto split: if_splits)

text \<open>
  The loop of \<^verbatim>\<open>send_bytes\<close> with the bytes already sent and those left; the result is the value returned, the bytes that
  went out, and the rest of the script.
\<close>

function send_loop :: "snd_event list \<Rightarrow> u8 list \<Rightarrow> u8 list \<Rightarrow> int \<times> u8 list \<times> snd_event list" where
  "send_loop q sent left =
     (if left = [] then (int (length sent), sent, q)
      else case send_sys q (length left) of
          (Sys_again, q') \<Rightarrow> (int (length sent), sent, q')
        | (Sys_err, q') \<Rightarrow> (- 1, sent, q')
        | (Sys_ok n, q') \<Rightarrow> send_loop q' (sent @ take n left) (drop n left))"
  by pat_completeness auto
termination
  by (relation "measure (\<lambda>(q, sent, left). length left)") (auto dest!: send_sys_pos)

declare send_loop.simps [simp del]

definition send_bytes :: "snd_event list \<Rightarrow> u8 list \<Rightarrow> int \<times> u8 list \<times> snd_event list" where
  "send_bytes q buf = send_loop q [] buf"

section \<open>Receiving\<close>

datatype sk_event = Sk_data "u8 list" | Sk_eof | Sk_error

text \<open>An empty queue is \<^verbatim>\<open>EAGAIN\<close>, which ends a call of \<^verbatim>\<open>recv_bytes\<close>: what arrives later is the queue of a later call.\<close>

fun recv_sys :: "sk_event list \<Rightarrow> nat \<Rightarrow> u8 list sys \<times> sk_event list" where
  "recv_sys [] n = (Sys_again, [])"
| "recv_sys (Sk_error # q) n = (Sys_err, q)"
| "recv_sys (Sk_eof # q) n = (Sys_ok [], Sk_eof # q)"
| "recv_sys (Sk_data bs # q) n =
     (if bs = [] then recv_sys q n
      else (Sys_ok (take n bs), if length bs \<le> n then q else Sk_data (drop n bs) # q))"

text \<open>The loop of \<^verbatim>\<open>recv_bytes\<close>: \<open>n\<close> bytes are still wanted, \<open>got\<close> are in the buffer.\<close>

function recv_loop :: "sk_event list \<Rightarrow> u8 list \<Rightarrow> nat \<Rightarrow> int \<times> u8 list \<times> sk_event list" where
  "recv_loop q got n =
     (if n = 0 then (int (length got), got, q)
      else case recv_sys q n of
          (Sys_again, q') \<Rightarrow> (int (length got), got, q')
        | (Sys_err, q') \<Rightarrow> (- 1, got, q')
        | (Sys_ok bs, q') \<Rightarrow> if bs = [] then (0, got, q') else recv_loop q' (got @ bs) (n - length bs))"
  by pat_completeness auto
termination
  by (relation "measure (\<lambda>(q, got, n). n)") auto

declare recv_loop.simps [simp del]

definition recv_bytes :: "sk_event list \<Rightarrow> nat \<Rightarrow> int \<times> u8 list \<times> sk_event list" where
  "recv_bytes q bufsize = recv_loop q [] bufsize"

section \<open>Descriptors and closures\<close>

datatype udata = U_fd int | U_ptr nat

record ep_event =
  ev_err :: bool
  ev_hup :: bool
  ev_in :: bool
  ev_out :: bool
  ev_data :: udata

text \<open>
  What is registered with epoll: the events asked for (\<^verbatim>\<open>EPOLLIN\<close>, \<^verbatim>\<open>EPOLLOUT\<close>, or none after a one-shot registration was reported) and the data.
\<close>

datatype ep_want = Want_in | Want_out | Want_none

type_synonym epoll = "int \<Rightarrow> (ep_want \<times> udata) option"

definition ep_data :: "int \<Rightarrow> nat option \<Rightarrow> udata" where
  "ep_data fd data = (case data of None \<Rightarrow> U_fd fd | Some p \<Rightarrow> U_ptr p)"

text \<open>\<^verbatim>\<open>epoll_ctl\<close> refuses to add a descriptor twice, and to change or remove one that is not there.\<close>

definition epoll_add :: "epoll \<Rightarrow> int \<Rightarrow> ep_want \<Rightarrow> nat option \<Rightarrow> int \<times> epoll" where
  "epoll_add ep fd evs data =
     (if ep fd \<noteq> None then (- 1, ep) else (0, ep(fd \<mapsto> (evs, ep_data fd data))))"

definition epoll_mod :: "epoll \<Rightarrow> int \<Rightarrow> ep_want \<Rightarrow> nat option \<Rightarrow> int \<times> epoll" where
  "epoll_mod ep fd evs data =
     (if ep fd = None then (- 1, ep) else (0, ep(fd \<mapsto> (evs, ep_data fd data))))"

definition epoll_del :: "epoll \<Rightarrow> int \<Rightarrow> int \<times> epoll" where
  "epoll_del ep fd = (if ep fd = None then (- 1, ep) else (0, ep(fd := None)))"

record ptask =
  pt_timerfd :: int
  pt_closure :: nat

record evloop =
  el_max_events :: nat
  el_timeout :: int
  el_epoll :: epoll
  el_periodic_maxsize :: nat
  el_tasks :: "ptask option list"
  el_periodic_nr :: nat

abbreviation (input) EVLOOP_INITIAL_SIZE :: nat where "EVLOOP_INITIAL_SIZE \<equiv> 4"

definition evloop_init :: "nat \<Rightarrow> int \<Rightarrow> evloop" where
  "evloop_init max_events timeout =
     \<lparr>el_max_events = max_events, el_timeout = timeout, el_epoll = (\<lambda>_. None),
      el_periodic_maxsize = EVLOOP_INITIAL_SIZE, el_tasks = replicate EVLOOP_INITIAL_SIZE None,
      el_periodic_nr = 0\<rparr>"

definition evloop_create :: "nat \<Rightarrow> int \<Rightarrow> evloop" where
  "evloop_create max_events timeout = evloop_init max_events timeout"

definition evloop_add_callback :: "evloop \<Rightarrow> int \<Rightarrow> nat \<Rightarrow> evloop" where
  "evloop_add_callback loop fd cb = loop\<lparr>el_epoll := snd (epoll_add (el_epoll loop) fd Want_in (Some cb))\<rparr>"

definition evloop_rearm_callback_read :: "evloop \<Rightarrow> int \<Rightarrow> nat \<Rightarrow> int \<times> evloop" where
  "evloop_rearm_callback_read el fd cb =
     (let (rc, ep) = epoll_mod (el_epoll el) fd Want_in (Some cb) in (rc, el\<lparr>el_epoll := ep\<rparr>))"

definition evloop_rearm_callback_write :: "evloop \<Rightarrow> int \<Rightarrow> nat \<Rightarrow> int \<times> evloop" where
  "evloop_rearm_callback_write el fd cb =
     (let (rc, ep) = epoll_mod (el_epoll el) fd Want_out (Some cb) in (rc, el\<lparr>el_epoll := ep\<rparr>))"

definition evloop_del_callback :: "evloop \<Rightarrow> int \<Rightarrow> int \<times> evloop" where
  "evloop_del_callback el fd = (let (rc, ep) = epoll_del (el_epoll el) fd in (rc, el\<lparr>el_epoll := ep\<rparr>))"

text \<open>The array of tasks doubles when it is full.\<close>

definition with_room :: "evloop \<Rightarrow> evloop" where
  "with_room l = (if el_periodic_nr l + 1 > el_periodic_maxsize l
     then l\<lparr>el_periodic_maxsize := el_periodic_maxsize l * 2,
            el_tasks := el_tasks l @ replicate (el_periodic_maxsize l * 2 - length (el_tasks l)) None\<rparr> else l)"

text \<open>
  \<^verbatim>\<open>evloop_free\<close> frees the registered tasks one by one and then the arrays; the result is the tasks freed. A slot that was never
  stored would be an uninitialised pointer.
\<close>

fun free_tasks :: "ptask option list \<Rightarrow> nat \<Rightarrow> nat \<Rightarrow> ptask list res" where
  "free_tasks tasks i 0 = Inr []"
| "free_tasks tasks i (Suc n) =
     (if i \<ge> length tasks then Inl Over_read
      else case tasks ! i of None \<Rightarrow> Inl Uninit_read
        | Some t \<Rightarrow> rbind (free_tasks tasks (i + 1) n) (\<lambda>fr. Inr (t # fr)))"

definition evloop_free :: "evloop \<Rightarrow> ptask list res" where
  "evloop_free loop = free_tasks (el_tasks loop) 0 (el_periodic_nr loop)"

text \<open>\<open>timerfd\<close> is the result of \<^verbatim>\<open>timerfd_create\<close>, \<open>settime_ok\<close> whether \<^verbatim>\<open>timerfd_settime\<close> succeeds.\<close>

definition evloop_add_periodic_task :: "evloop \<Rightarrow> int \<Rightarrow> bool \<Rightarrow> nat \<Rightarrow> evloop res" where
  "evloop_add_periodic_task loop timerfd settime_ok cb =
     (if \<not> settime_ok then Inr loop
      else let (rc, ep) = epoll_add (el_epoll loop) timerfd Want_in None in
        if rc < 0 then Inr loop
        else
          let loop = with_room (loop\<lparr>el_epoll := ep\<rparr>); n = el_periodic_nr loop
          in if n < length (el_tasks loop)
             then Inr (loop\<lparr>el_tasks := (el_tasks loop)[n := Some \<lparr>pt_timerfd = timerfd, pt_closure = cb\<rparr>],
                    el_periodic_nr := n + 1\<rparr>)
             else Inl Over_write)"

section \<open>The event loop\<close>

definition udata_fd :: "(nat \<Rightarrow> int) \<Rightarrow> udata \<Rightarrow> int" where
  "udata_fd low d = (case d of U_fd fd \<Rightarrow> fd | U_ptr p \<Rightarrow> low p)"

text \<open>
  The inner loop over the periodic tasks: its counter hides the one of the outer loop, so task \<open>i\<close> is compared with
  event \<open>i\<close> of the batch, whatever event is being handled. \<open>evs\<close> is the array of events, \<open>None\<close> where nothing was ever stored.
  The code also reads 8 bytes from the descriptor of the event before it calls the task, into a variable nobody looks at, and only prints a message when that fails; the read
  is left out, and with it that it makes the timer unreadable until it expires again.
\<close>

fun find_periodic :: "(nat \<Rightarrow> int) \<Rightarrow> ep_event option list \<Rightarrow> ptask option list \<Rightarrow> nat \<Rightarrow> nat \<Rightarrow> nat option res" where
  "find_periodic low evs tasks i 0 = Inr None"
| "find_periodic low evs tasks i (Suc n) =
     (if i \<ge> length evs \<or> i \<ge> length tasks then Inl Over_read
      else case (evs ! i, tasks ! i) of
          (Some e, Some t) \<Rightarrow>
            if udata_fd low (ev_data e) = pt_timerfd t then Inr (Some (pt_closure t))
            else find_periodic low evs tasks (i + 1) n
        | _ \<Rightarrow> Inl Uninit_read)"

text \<open>
  One event: an error or hang-up closes a descriptor (\<open>closefd\<close>); otherwise a task or the closure of the event is called.
\<close>

definition ev_broken :: "ep_event \<Rightarrow> bool" where
  "ev_broken e \<longleftrightarrow> ev_err e \<or> ev_hup e \<or> (\<not> ev_in e \<and> \<not> ev_out e)"

definition handle_event :: "(nat \<Rightarrow> int) \<Rightarrow> (int \<Rightarrow> 's \<Rightarrow> 's) \<Rightarrow> (nat \<Rightarrow> 's \<Rightarrow> 's res) \<Rightarrow> ('s \<Rightarrow> evloop)
    \<Rightarrow> ep_event option list \<Rightarrow> ep_event \<Rightarrow> 's \<Rightarrow> 's res" where
  "handle_event low closefd call loop evs e s =
     (if ev_broken e then Inr (closefd (udata_fd low (ev_data e)) s)
      else rbind (find_periodic low evs (el_tasks (loop s)) 0 (el_periodic_nr (loop s))) (\<lambda>r.
        case r of Some c \<Rightarrow> call c s
        | None \<Rightarrow> (case ev_data e of U_ptr p \<Rightarrow> call p s | U_fd _ \<Rightarrow> Inl Type_confusion)))"

fun handle_batch :: "(nat \<Rightarrow> int) \<Rightarrow> (int \<Rightarrow> 's \<Rightarrow> 's) \<Rightarrow> (nat \<Rightarrow> 's \<Rightarrow> 's res) \<Rightarrow> ('s \<Rightarrow> evloop)
    \<Rightarrow> ep_event option list \<Rightarrow> ep_event list \<Rightarrow> 's \<Rightarrow> 's res" where
  "handle_batch low closefd call loop evs [] s = Inr s"
| "handle_batch low closefd call loop evs (e # es) s =
     rbind (handle_event low closefd call loop evs e s) (handle_batch low closefd call loop evs es)"

text \<open>
  Closures are registered with \<^verbatim>\<open>EPOLLONESHOT\<close>: when \<^verbatim>\<open>epoll_wait\<close> reports an event for one, its registration stays but asks for nothing until \<^verbatim>\<open>epoll_mod\<close>
  renews it. The timers are registered without it.
\<close>

definition epoll_report :: "ep_event list \<Rightarrow> epoll \<Rightarrow> epoll" where
  "epoll_report es ep = (\<lambda>fd. case ep fd of
     Some (w, U_ptr p) \<Rightarrow> Some (if U_ptr p \<in> ev_data ` set es then Want_none else w, U_ptr p)
   | r \<Rightarrow> r)"

text \<open>An event \<^verbatim>\<open>epoll_wait\<close> can report: a registration with its data asks for it.\<close>

definition reportable :: "epoll \<Rightarrow> ep_event \<Rightarrow> bool" where
  "reportable ep e \<longleftrightarrow> (\<exists>fd w. ep fd = Some (w, ev_data e) \<and> w \<noteq> Want_none)"

text \<open>
  \<^verbatim>\<open>evloop_wait\<close> over a list of results of \<^verbatim>\<open>epoll_wait\<close>: a batch of events stored at the front of the array, an interrupted call, or
  an error, which ends the loop. \<open>report\<close> is what a report does to the registrations in the state. \<open>None\<close> in the result is a loop that is still waiting when the list ends.
\<close>

datatype wait_result = Wait_events "ep_event list" | Wait_eintr | Wait_error

fun evloop_wait :: "(nat \<Rightarrow> int) \<Rightarrow> (ep_event list \<Rightarrow> 's \<Rightarrow> 's) \<Rightarrow> (int \<Rightarrow> 's \<Rightarrow> 's) \<Rightarrow> (nat \<Rightarrow> 's \<Rightarrow> 's res) \<Rightarrow> ('s \<Rightarrow> evloop)
    \<Rightarrow> wait_result list \<Rightarrow> ep_event option list \<Rightarrow> 's \<Rightarrow> (int option \<times> 's) res" where
  "evloop_wait low report closefd call loop [] evs s = Inr (None, s)"
| "evloop_wait low report closefd call loop (Wait_eintr # ws) evs s = evloop_wait low report closefd call loop ws evs s"
| "evloop_wait low report closefd call loop (Wait_error # ws) evs s = Inr (Some (- 1), s)"
| "evloop_wait low report closefd call loop (Wait_events es # ws) evs s =
     (if length es > length evs then Inl Over_write
      else let evs' = map Some es @ drop (length es) evs in
        rbind (handle_batch low closefd call loop evs' es (report es s)) (\<lambda>s'.
          evloop_wait low report closefd call loop ws evs' s'))"

section \<open>What goes out\<close>

fun room :: "snd_event list \<Rightarrow> nat" where
  "room [] = 0"
| "room (Snd_room k # q) = (if k = 0 then 0 else k + room q)"
| "room (Snd_error # q) = 0"

lemma send_loop_prefix:
  "send_loop q sent left = (rc, out, q') \<Longrightarrow>
     \<exists>k. k \<le> length left \<and> out = sent @ take k left \<and> (rc = - 1 \<or> rc = int (length out))"
proof (induction q sent left arbitrary: rc out q' rule: send_loop.induct)
  case (1 q sent left)
  show ?case
  proof (cases "left = []")
    case True
    then show ?thesis using 1(2) by (auto simp: send_loop.simps [of q sent "[]"])
  next
    case False
    obtain r q1 where s: "send_sys q (length left) = (r, q1)" by force
    show ?thesis
    proof (cases r)
      case (Sys_ok n)
      from s Sys_ok False have n: "0 < n" "n \<le> length left" using send_sys_pos [of n q1 q "length left"] by auto
      have l: "send_loop q1 (sent @ take n left) (drop n left) = (rc, out, q')"
        using 1(2) False s Sys_ok by (simp add: send_loop.simps [of q sent left])
      from 1(1) [OF False s [symmetric] Sys_ok l] obtain k where
        "k \<le> length (drop n left)" "out = (sent @ take n left) @ take k (drop n left)" "rc = - 1 \<or> rc = int (length out)" by blast
      then show ?thesis using n by (intro exI [of _ "n + k"]) (auto simp: take_add)
    qed (use 1(2) False s in \<open>auto simp: send_loop.simps [of q sent left]\<close>)
  qed
qed

lemma send_loop_all:
  "length left \<le> room q \<Longrightarrow> \<exists>q'. send_loop q sent left = (int (length sent + length left), sent @ left, q')"
proof (induction q sent left rule: send_loop.induct)
  case (1 q sent left)
  show ?case
  proof (cases "left = []")
    case True
    then show ?thesis by (simp add: send_loop.simps [of q sent "[]"])
  next
    case False
    then obtain k q1 where q: "q = Snd_room k # q1" "0 < k"
      using 1(2) by (cases q rule: room.cases) (auto split: if_splits)
    define n where "n = min k (length left)"
    have s: "send_sys q (length left) = (Sys_ok n, q1)" using q by (simp add: n_def)
    have "length (drop n left) \<le> room q1" using 1(2) q by (simp add: n_def)
    from 1(1) [OF False s [symmetric] refl this] show ?thesis
      using False s by (auto simp: send_loop.simps [of q sent left] n_def)
  qed
qed

section \<open>What comes in\<close>

fun avail :: "sk_event list \<Rightarrow> u8 list" where
  "avail (Sk_data bs # q) = bs @ avail q"
| "avail _ = []"

text \<open>What follows the available bytes: the result of a \<^verbatim>\<open>recv_bytes\<close> that wants more than there is.\<close>

fun short_rc :: "sk_event list \<Rightarrow> nat \<Rightarrow> int" where
  "short_rc (Sk_data bs # q) got = short_rc q (got + length bs)"
| "short_rc (Sk_eof # q) got = 0"
| "short_rc (Sk_error # q) got = - 1"
| "short_rc [] got = int got"

lemma recv_sys_avail:
  assumes "0 < n" "avail q \<noteq> []"
  shows "\<exists>bs q'. recv_sys q n = (Sys_ok bs, q') \<and> bs \<noteq> [] \<and> length bs \<le> n \<and> avail q = bs @ avail q'
    \<and> (\<forall>k. short_rc q k = short_rc q' (k + length bs))"
  using assms
proof (induction q n rule: recv_sys.induct)
  case (4 bs q n)
  show ?case
  proof (cases "bs = []")
    case True
    then show ?thesis using 4 by simp
  next
    case False
    then show ?thesis using 4(2) by (auto simp: min_def)
  qed
qed auto

lemma recv_sys_none:
  assumes "avail q = []"
  shows "((\<forall>k. short_rc q k = - 1) \<and> (\<exists>q'. recv_sys q n = (Sys_err, q')))
    \<or> ((\<forall>k. short_rc q k = 0) \<and> (\<exists>q'. recv_sys q n = (Sys_ok [], q')))
    \<or> ((\<forall>k. short_rc q k = int k) \<and> (\<exists>q'. recv_sys q n = (Sys_again, q')))"
  using assms by (induction q n rule: recv_sys.induct) auto

lemma recv_loop_enough:
  "n \<le> length (avail q) \<Longrightarrow> \<exists>q'. recv_loop q got n = (int (length got + n), got @ take n (avail q), q')
     \<and> avail q' = drop n (avail q)"
proof (induction q got n rule: recv_loop.induct)
  case (1 q got n)
  show ?case
  proof (cases "n = 0")
    case True
    then show ?thesis by (simp add: recv_loop.simps [of q got 0])
  next
    case False
    then have "avail q \<noteq> []" using 1(2) by auto
    from recv_sys_avail [OF _ this, of n] False obtain bs q1 where
      r: "recv_sys q n = (Sys_ok bs, q1)" "bs \<noteq> []" "length bs \<le> n" "avail q = bs @ avail q1" by auto
    have "n - length bs \<le> length (avail q1)" using 1(2) r(4) by simp
    from 1(1) [OF False r(1) [symmetric] refl r(2) this] show ?thesis
      using False r by (auto simp: recv_loop.simps [of q got n])
  qed
qed

lemma recv_loop_short:
  "length (avail q) < n \<Longrightarrow> \<exists>q'. recv_loop q got n = (short_rc q (length got), got @ avail q, q')"
proof (induction q got n rule: recv_loop.induct)
  case (1 q got n)
  then have n: "n \<noteq> 0" by auto
  show ?case
  proof (cases "avail q = []")
    case True
    then show ?thesis using recv_sys_none [OF True, of n] n
      by (auto simp: recv_loop.simps [of q got n])
  next
    case False
    from recv_sys_avail [OF _ this, of n] n obtain bs q1 where
      r: "recv_sys q n = (Sys_ok bs, q1)" "bs \<noteq> []" "length bs \<le> n" "avail q = bs @ avail q1"
      "\<forall>k. short_rc q k = short_rc q1 (k + length bs)" by auto
    have "length (avail q1) < n - length bs" using 1(2) r(4) by simp
    from 1(1) [OF n r(1) [symmetric] refl r(2) this] show ?thesis
      using n r by (auto simp: recv_loop.simps [of q got n])
  qed
qed

section \<open>Periodic tasks\<close>

definition tasks_ok :: "evloop \<Rightarrow> bool" where
  "tasks_ok l \<longleftrightarrow> 0 < el_periodic_maxsize l \<and> length (el_tasks l) = el_periodic_maxsize l
     \<and> el_periodic_nr l \<le> el_periodic_maxsize l \<and> (\<forall>i < el_periodic_nr l. el_tasks l ! i \<noteq> None)"

lemma tasks_ok_init: "tasks_ok (evloop_init n t)"
  by (simp add: tasks_ok_def evloop_init_def)

lemma tasks_ok_epoll [simp]: "tasks_ok (l\<lparr>el_epoll := ep\<rparr>) = tasks_ok l"
  by (simp add: tasks_ok_def)

definition task_list :: "evloop \<Rightarrow> ptask list" where
  "task_list l = map the (take (el_periodic_nr l) (el_tasks l))"

lemma with_room_ok: "tasks_ok l \<Longrightarrow> tasks_ok (with_room l) \<and> el_periodic_nr (with_room l) = el_periodic_nr l
    \<and> el_periodic_nr l < length (el_tasks (with_room l)) \<and> task_list (with_room l) = task_list l"
  by (auto simp: tasks_ok_def with_room_def task_list_def nth_append)

lemma add_task_ok:
  assumes ok: "tasks_ok l"
  shows "\<exists>l'. evloop_add_periodic_task l tfd st cb = Inr l' \<and> tasks_ok l'
    \<and> task_list l' = (if st \<and> el_epoll l tfd = None then task_list l @ [\<lparr>pt_timerfd = tfd, pt_closure = cb\<rparr>] else task_list l)"
proof (cases "st \<and> el_epoll l tfd = None")
  case False
  then show ?thesis using ok by (auto simp: evloop_add_periodic_task_def epoll_add_def)
next
  case True
  define l1 where "l1 = l\<lparr>el_epoll := (el_epoll l)(tfd \<mapsto> (Want_in, U_fd tfd))\<rparr>"
  define l2 where "l2 = with_room l1"
  define t where "t = \<lparr>pt_timerfd = tfd, pt_closure = cb\<rparr>"
  define n where "n = el_periodic_nr l2"
  define l3 where "l3 = l2\<lparr>el_tasks := (el_tasks l2)[n := Some t], el_periodic_nr := n + 1\<rparr>"
  have "tasks_ok l1" using ok by (simp add: l1_def)
  moreover have "task_list l1 = task_list l" by (simp add: l1_def task_list_def)
  ultimately have l2: "tasks_ok l2" "n < length (el_tasks l2)" "task_list l2 = task_list l"
    using with_room_ok [of l1] by (simp_all add: l2_def n_def)
  have "evloop_add_periodic_task l tfd st cb = Inr l3"
    using True l2(2) by (simp add: evloop_add_periodic_task_def epoll_add_def ep_data_def Let_def
        l3_def n_def l2_def l1_def t_def)
  moreover have "tasks_ok l3" using l2(1,2) by (auto simp: tasks_ok_def l3_def n_def nth_list_update)
  moreover have "task_list l3 = task_list l @ [t]"
    using l2(2,3) by (simp add: task_list_def l3_def n_def take_Suc_conv_app_nth)
  ultimately show ?thesis using True by (auto simp: t_def)
qed

lemma free_tasks_all:
  "i + n \<le> length tasks \<Longrightarrow> \<forall>j < i + n. tasks ! j \<noteq> None \<Longrightarrow>
     free_tasks tasks i n = Inr (map the (take n (drop i tasks)))"
proof (induction n arbitrary: i)
  case (Suc n)
  then obtain t where t: "tasks ! i = Some t" by (metis add_Suc_right less_add_Suc1 not_Some_eq)
  have "free_tasks tasks (Suc i) n = Inr (map the (take n (drop (Suc i) tasks)))" using Suc by simp
  moreover have "drop i tasks = tasks ! i # drop (Suc i) tasks" using Suc.prems(1) by (simp add: Cons_nth_drop_Suc)
  ultimately show ?case using Suc.prems(1) t by simp
qed simp

lemma evloop_free_tasks: "tasks_ok l \<Longrightarrow> evloop_free l = Inr (task_list l)"
  using free_tasks_all [of 0 "el_periodic_nr l" "el_tasks l"] by (simp add: tasks_ok_def evloop_free_def task_list_def)

section \<open>Invariants of the event loop\<close>

text \<open>
  What the loop needs from the callbacks it is given: they keep an invariant, and so does closing a descriptor. Then every batch of
  events, and the whole loop, keep it.
\<close>

locale loop_client =
  fixes inv :: "'s \<Rightarrow> bool"
    and report :: "ep_event list \<Rightarrow> 's \<Rightarrow> 's"
    and closefd :: "int \<Rightarrow> 's \<Rightarrow> 's"
    and call :: "nat \<Rightarrow> 's \<Rightarrow> 's res"
    and loop :: "'s \<Rightarrow> evloop"
  assumes report_inv: "inv s \<Longrightarrow> inv (report es s)"
    and close_inv: "inv s \<Longrightarrow> inv (closefd fd s)"
    and call_inv: "inv s \<Longrightarrow> call c s = Inr s' \<Longrightarrow> inv s'"
begin

lemma event_inv: "inv s \<Longrightarrow> handle_event low closefd call loop evs e s = Inr s' \<Longrightarrow> inv s'"
  by (auto simp: handle_event_def close_inv split: if_splits option.splits udata.splits dest: call_inv)

lemma batch_inv: "inv s \<Longrightarrow> handle_batch low closefd call loop evs es s = Inr s' \<Longrightarrow> inv s'"
  by (induction es arbitrary: s) (auto dest: event_inv)

lemma wait_inv: "inv s \<Longrightarrow> evloop_wait low report closefd call loop ws evs s = Inr (rc, s') \<Longrightarrow> inv s'"
proof (induction ws arbitrary: evs s)
  case (Cons w ws)
  then show ?case by (cases w) (auto simp: Let_def split: if_splits dest: batch_inv [OF report_inv])
qed auto

end

section \<open>Properties\<close>

text \<open>
  C32 (send_bytes_complete): what \<^verbatim>\<open>send_bytes\<close> puts on the wire is always a prefix of the buffer, and the value it returns is the
  number of bytes sent or -1. When the socket has room for the whole buffer before it blocks or fails, in
  portions of whatever size, the whole buffer goes out, once and in order.
\<close>

theorem send_bytes_complete:
  "\<exists>rc out q'. send_bytes q buf = (rc, out, q') \<and> out = take (length out) buf
    \<and> (rc = - 1 \<or> rc = int (length out)) \<and> (length buf \<le> room q \<longrightarrow> rc = int (length buf) \<and> out = buf)"
proof -
  obtain rc out q' where s: "send_bytes q buf = (rc, out, q')" by (metis prod_cases3)
  from send_loop_prefix [of q "[]" buf rc out q'] s have "out = take (length out) buf" "rc = - 1 \<or> rc = int (length out)"
    by (auto simp: send_bytes_def)
  moreover have "length buf \<le> room q \<Longrightarrow> rc = int (length buf) \<and> out = buf"
    using send_loop_all [of buf q "[]"] s by (auto simp: send_bytes_def)
  ultimately show ?thesis using s by blast
qed

theorem send_bytes_complete_witness:
  "send_bytes [Snd_room 2, Snd_room 5] [1, 2, 3] = (3, [1, 2, 3], snd (snd (send_bytes [Snd_room 2, Snd_room 5] [1, 2, 3])))"
  using send_bytes_complete [of "[Snd_room 2, Snd_room 5]" "[1, 2, 3]"] by auto

text \<open>
  C33 (recv_bytes_stream): \<^verbatim>\<open>recv_bytes\<close> does not depend on how the network cuts the stream: when \<open>n\<close> bytes are available it returns
  \<open>n\<close> and stores exactly the next \<open>n\<close> bytes, leaving the rest; when fewer are available it stores all of them and
  returns 0 at the end of the stream, -1 on an error, and their number when the socket would block.
\<close>

theorem recv_bytes_stream:
  "(n \<le> length (avail q) \<longrightarrow> (\<exists>q'. recv_bytes q n = (int n, take n (avail q), q') \<and> avail q' = drop n (avail q)))
    \<and> (length (avail q) < n \<longrightarrow> (\<exists>q'. recv_bytes q n = (short_rc q 0, avail q, q')))"
  using recv_loop_enough [of n q "[]"] recv_loop_short [of q n "[]"] by (simp add: recv_bytes_def)

theorem recv_bytes_stream_witness:
  "(\<exists>q'. recv_bytes [Sk_data [1], Sk_data [2, 3, 4]] 3 = (3, [1, 2, 3], q') \<and> avail q' = [4])
    \<and> (\<exists>q'. recv_bytes [Sk_data [1, 2], Sk_eof] 3 = (0, [1, 2], q'))"
  using recv_bytes_stream [of 3 "[Sk_data [1], Sk_data [2, 3, 4]]"] recv_bytes_stream [of 3 "[Sk_data [1, 2], Sk_eof]"]
  by simp

text \<open>
  Adding periodic tasks never writes outside the array of tasks, however many are added: the array doubles
  in time, every task added with a fresh timer is kept, in order, the counters stay within the array, and \<^verbatim>\<open>evloop_free\<close> frees
  each of them once.
\<close>

fun add_tasks :: "(int \<times> nat) list \<Rightarrow> evloop \<Rightarrow> evloop res" where
  "add_tasks [] l = Inr l"
| "add_tasks ((tfd, cb) # ts) l = rbind (evloop_add_periodic_task l tfd True cb) (add_tasks ts)"

lemma add_task_epoll:
  "evloop_add_periodic_task l tfd True cb = Inr l' \<Longrightarrow> fd \<noteq> tfd \<Longrightarrow> el_epoll l' fd = el_epoll l fd"
  by (auto simp: evloop_add_periodic_task_def epoll_add_def with_room_def Let_def split: if_splits)

theorem evloop_tasks_grow:
  assumes "tasks_ok l" and "distinct (map fst ts)" and "\<forall>(tfd, cb) \<in> set ts. el_epoll l tfd = None"
  shows "\<exists>l'. add_tasks ts l = Inr l' \<and> tasks_ok l'
    \<and> task_list l' = task_list l @ map (\<lambda>(tfd, cb). \<lparr>pt_timerfd = tfd, pt_closure = cb\<rparr>) ts
    \<and> evloop_free l' = Inr (task_list l')"
  using assms
proof (induction ts arbitrary: l)
  case (Cons t ts)
  obtain tfd cb where t: "t = (tfd, cb)" by force
  from add_task_ok [OF Cons.prems(1), of tfd True cb] Cons.prems(3) t obtain l1 where
    l1: "evloop_add_periodic_task l tfd True cb = Inr l1" "tasks_ok l1"
    "task_list l1 = task_list l @ [\<lparr>pt_timerfd = tfd, pt_closure = cb\<rparr>]" by auto
  have "\<forall>(tfd', cb') \<in> set ts. el_epoll l1 tfd' = None"
    using add_task_epoll [OF l1(1)] Cons.prems(2,3) t by (force simp: image_iff)
  from Cons.IH [OF l1(2) _ this] Cons.prems(2) obtain l' where
    "add_tasks ts l1 = Inr l'" "tasks_ok l'" "task_list l' = task_list l1 @ map (\<lambda>(tfd, cb). \<lparr>pt_timerfd = tfd, pt_closure = cb\<rparr>) ts"
    by auto
  then show ?case using l1 t by (simp add: evloop_free_tasks)
qed (simp add: evloop_free_tasks)

theorem evloop_tasks_grow_witness:
  "\<exists>l'. add_tasks [(5, 0), (6, 1), (7, 2), (8, 3), (9, 4)] (evloop_create 256 (- 1)) = Inr l' \<and> tasks_ok l'
    \<and> task_list l' = task_list (evloop_create 256 (- 1)) @ map (\<lambda>(tfd, cb). \<lparr>pt_timerfd = tfd, pt_closure = cb\<rparr>)
        [(5, 0), (6, 1), (7, 2), (8, 3), (9, 4)]
    \<and> evloop_free l' = Inr (task_list l')"
  by (rule evloop_tasks_grow) (simp_all add: evloop_create_def tasks_ok_init, simp add: evloop_init_def)

text \<open>
  C34 (evloop_shadowed_index): with the server's one periodic task, a batch in which the timer comes first and a client second runs the
  task twice and never calls the client's closure; in the other order the client is served and then the loop
  follows the timer's descriptor as if it were a pointer.
\<close>

theorem evloop_shadowed_index:
  assumes "el_periodic_nr (loop s) = 1" "el_tasks (loop s) = Some \<lparr>pt_timerfd = tfd, pt_closure = c\<rparr> # ts"
    and "call c s = Inr s1" "call p s = Inr s2" "loop s1 = loop s" "loop s2 = loop s"
    and "\<not> ev_broken te" "\<not> ev_broken ce" "ev_data te = U_fd tfd" "ev_data ce = U_ptr p" "low p \<noteq> tfd"
  shows "handle_batch low closefd call loop (Some te # Some ce # evs) [te, ce] s = call c s1
    \<and> handle_batch low closefd call loop (Some ce # Some te # evs) [ce, te] s = Inl Type_confusion"
proof -
  have hit: "find_periodic low (Some te # es) (el_tasks (loop s)) 0 (el_periodic_nr (loop s)) = Inr (Some c)" for es
    using assms by (simp add: udata_fd_def)
  have miss: "find_periodic low (Some ce # es) (el_tasks (loop s)) 0 (el_periodic_nr (loop s)) = Inr None" for es
    using assms by (simp add: udata_fd_def)
  have "handle_event low closefd call loop (Some te # es) e s' = call c s'" if "loop s' = loop s" "\<not> ev_broken e" for e s' es
    using hit that by (simp add: handle_event_def)
  moreover have "handle_event low closefd call loop (Some ce # es) ce s = Inr s2" for es
    using miss assms(4,8,10) by (simp add: handle_event_def)
  moreover have "handle_event low closefd call loop (Some ce # es) te s2 = Inl Type_confusion" for es
    using miss assms(6,7,9) by (simp add: handle_event_def)
  ultimately show ?thesis using assms(3,5,7,8) by (cases "call c s1") simp_all
qed

theorem evloop_shadowed_index_witness:
  "let l = (evloop_create 256 (- 1))\<lparr>el_periodic_nr := 1, el_tasks := [Some \<lparr>pt_timerfd = 9, pt_closure = 0\<rparr>]\<rparr>;
       te = \<lparr>ev_err = False, ev_hup = False, ev_in = True, ev_out = False, ev_data = U_fd 9\<rparr>;
       ce = \<lparr>ev_err = False, ev_hup = False, ev_in = True, ev_out = False, ev_data = U_ptr 5\<rparr>
   in handle_batch (\<lambda>_. 77) (\<lambda>_. id) (\<lambda>c log. Inr (log @ [c])) (\<lambda>_. l) [Some te, Some ce] [te, ce] [] = Inr [0, 0]
    \<and> handle_batch (\<lambda>_. 77) (\<lambda>_. id) (\<lambda>c log. Inr (log @ [c])) (\<lambda>_. l) [Some ce, Some te] [ce, te] [] = Inl Type_confusion"
proof -
  let ?l = "(evloop_create 256 (- 1))\<lparr>el_periodic_nr := 1, el_tasks := [Some \<lparr>pt_timerfd = 9, pt_closure = 0\<rparr>]\<rparr>"
  let ?te = "\<lparr>ev_err = False, ev_hup = False, ev_in = True, ev_out = False, ev_data = U_fd 9\<rparr>"
  let ?ce = "\<lparr>ev_err = False, ev_hup = False, ev_in = True, ev_out = False, ev_data = U_ptr 5\<rparr>"
  have "handle_batch (\<lambda>_. 77) (\<lambda>_. id) (\<lambda>c log. Inr (log @ [c])) (\<lambda>_. ?l) [Some ?te, Some ?ce] [?te, ?ce] []
      = (\<lambda>c log. Inr (log @ [c])) 0 [0]
    \<and> handle_batch (\<lambda>_. 77) (\<lambda>_. id) (\<lambda>c log. Inr (log @ [c])) (\<lambda>_. ?l) [Some ?ce, Some ?te] [?ce, ?te] [] = Inl Type_confusion"
    by (rule evloop_shadowed_index [where c = 0 and p = 5 and tfd = 9 and ts = "[]"]) (simp_all add: ev_broken_def)
  then show ?thesis by (simp add: Let_def)
qed

end
