(* ===== verification/Socket.thy ===== *)
theory Socket
  imports Sol_Prelude
begin

text \<open>
  The socket set-up of \<^verbatim>\<open>src/sol/src/network.c\<close>: binding a Unix or TCP socket, making it listen, accepting a
  connection.

  \<^item> the state is the table of open sockets with the options the code sets, the paths it has unlinked, and how often \<^verbatim>\<open>accept\<close> has been called, which
    selects the kernel's next answer to it.
  \<^item> what the kernel and the resolver answer is a record \<open>kern\<close> of their results: the descriptor a call to \<^verbatim>\<open>socket(2)\<close> returns for
    an address (-1 when it fails), whether \<^verbatim>\<open>bind\<close>, \<^verbatim>\<open>fcntl\<close>, \<^verbatim>\<open>setsockopt\<close>, \<^verbatim>\<open>listen\<close> succeed on a descriptor, the list
    \<^verbatim>\<open>getaddrinfo\<close> returns, and the descriptor the n-th call to \<^verbatim>\<open>accept\<close> returns for a listening one (negative when it fails). Nothing is assumed of them in the definitions.
  \<^item> \<^verbatim>\<open>abort()\<close> is the fault \<open>Abort\<close>.
\<close>

section \<open>Sockets\<close>

datatype 'a sockaddr = Path "u8 list" | Inet_addr 'a

record 'a sock =
  so_nonblock :: bool
  so_nodelay :: bool
  so_reuse :: bool
  so_bound :: "'a sockaddr option"
  so_backlog :: "int option"

record 'a net =
  n_socks :: "int \<Rightarrow> 'a sock option"
  n_unlinked :: "u8 list list"
  n_accepts :: nat

record 'a kern =
  k_socket :: "'a sockaddr \<Rightarrow> int"
  k_getaddrinfo :: "u8 list \<Rightarrow> u8 list \<Rightarrow> 'a list option"
  k_getfl :: "int \<Rightarrow> bool"
  k_setfl :: "int \<Rightarrow> bool"
  k_nodelay :: "int \<Rightarrow> bool"
  k_reuse :: "int \<Rightarrow> bool"
  k_bind :: "int \<Rightarrow> 'a sockaddr \<Rightarrow> bool"
  k_listen :: "int \<Rightarrow> bool"
  k_accept :: "nat \<Rightarrow> int \<Rightarrow> int"
  k_ntop :: "int \<Rightarrow> bool"

definition fresh_sock :: "'a sock" where
  "fresh_sock = \<lparr>so_nonblock = False, so_nodelay = False, so_reuse = False, so_bound = None, so_backlog = None\<rparr>"

definition upd_sock :: "int \<Rightarrow> ('a sock \<Rightarrow> 'a sock) \<Rightarrow> 'a net \<Rightarrow> 'a net" where
  "upd_sock fd f n = n\<lparr>n_socks := (n_socks n)(fd := map_option f (n_socks n fd))\<rparr>"

definition open_sock :: "int \<Rightarrow> 'a net \<Rightarrow> 'a net" where
  "open_sock fd n = n\<lparr>n_socks := (n_socks n)(fd \<mapsto> fresh_sock)\<rparr>"

definition close_sock :: "int \<Rightarrow> 'a net \<Rightarrow> 'a net" where
  "close_sock fd n = n\<lparr>n_socks := (n_socks n)(fd := None)\<rparr>"

definition set_nonblocking :: "'a kern \<Rightarrow> int \<Rightarrow> 'a net \<Rightarrow> int \<times> 'a net" where
  "set_nonblocking k fd n =
     (if \<not> k_getfl k fd then (- 1, n)
      else if \<not> k_setfl k fd then (- 1, n)
      else (0, upd_sock fd (so_nonblock_update (\<lambda>_. True)) n))"

definition set_tcp_nodelay :: "'a kern \<Rightarrow> int \<Rightarrow> 'a net \<Rightarrow> int \<times> 'a net" where
  "set_tcp_nodelay k fd n =
     (if k_nodelay k fd then (0, upd_sock fd (so_nodelay_update (\<lambda>_. True)) n) else (- 1, n))"

section \<open>Binding\<close>

text \<open>\<^verbatim>\<open>sun_path\<close> has 108 bytes; \<^verbatim>\<open>strncpy\<close> copies at most 107 of them, while \<^verbatim>\<open>unlink\<close> takes the whole path.\<close>

definition create_and_bind_unix :: "'a kern \<Rightarrow> u8 list \<Rightarrow> 'a net \<Rightarrow> int \<times> 'a net" where
  "create_and_bind_unix k sockpath n =
     (let addr = Path (take 107 sockpath); fd = k_socket k addr in
      if fd = - 1 then (- 1, n)
      else let n = (open_sock fd n)\<lparr>n_unlinked := sockpath # n_unlinked n\<rparr> in
        if \<not> k_bind k fd addr then (- 1, n)
        else (fd, upd_sock fd (so_bound_update (\<lambda>_. Some addr)) n))"

text \<open>The loop over the addresses \<^verbatim>\<open>getaddrinfo\<close> returned; \<open>None\<close> when none of them could be bound.\<close>

fun bind_loop :: "'a kern \<Rightarrow> 'a list \<Rightarrow> 'a net \<Rightarrow> int option \<times> 'a net" where
  "bind_loop k [] n = (None, n)"
| "bind_loop k (rp # rps) n =
     (let addr = Inet_addr rp; sfd = k_socket k addr in
      if sfd = - 1 then bind_loop k rps n
      else
        let n = open_sock sfd n;
            n = (if k_reuse k sfd then upd_sock sfd (so_reuse_update (\<lambda>_. True)) n else n)
        in if k_bind k sfd addr then (Some sfd, upd_sock sfd (so_bound_update (\<lambda>_. Some addr)) n)
           else bind_loop k rps (close_sock sfd n))"

definition create_and_bind_tcp :: "'a kern \<Rightarrow> u8 list \<Rightarrow> u8 list \<Rightarrow> 'a net \<Rightarrow> int \<times> 'a net" where
  "create_and_bind_tcp k host port n =
     (case k_getaddrinfo k host port of None \<Rightarrow> (- 1, n)
      | Some result \<Rightarrow> (case bind_loop k result n of (None, n) \<Rightarrow> (- 1, n) | (Some sfd, n) \<Rightarrow> (sfd, n)))"

abbreviation (input) UNIX :: int where "UNIX \<equiv> 0"
abbreviation (input) INET :: int where "INET \<equiv> 1"

definition create_and_bind :: "'a kern \<Rightarrow> u8 list \<Rightarrow> u8 list \<Rightarrow> int \<Rightarrow> 'a net \<Rightarrow> int \<times> 'a net" where
  "create_and_bind k host port socket_family n =
     (if socket_family = UNIX then create_and_bind_unix k host n else create_and_bind_tcp k host port n)"

definition make_listen :: "'a kern \<Rightarrow> int \<Rightarrow> u8 list \<Rightarrow> u8 list \<Rightarrow> int \<Rightarrow> 'a net \<Rightarrow> (int \<times> 'a net) res" where
  "make_listen k tcp_backlog host port socket_family n =
     (let (sfd, n) = create_and_bind k host port socket_family n in
      if sfd = - 1 then Inl Abort
      else let (rc, n) = set_nonblocking k sfd n in
        if rc = - 1 then Inl Abort
        else let n = (if socket_family = INET then snd (set_tcp_nodelay k sfd n) else n) in
          if \<not> k_listen k sfd then Inl Abort
          else Inr (sfd, upd_sock sfd (so_backlog_update (\<lambda>_. Some tcp_backlog)) n))"

section \<open>Accepting\<close>

text \<open>The result of \<^verbatim>\<open>set_nonblocking\<close> is not looked at.\<close>

definition accept_connection :: "'a kern \<Rightarrow> int \<Rightarrow> int \<Rightarrow> 'a net \<Rightarrow> int \<times> 'a net" where
  "accept_connection k socket_family serversock n =
     (let clientsock = k_accept k (n_accepts n) serversock; n = n\<lparr>n_accepts := Suc (n_accepts n)\<rparr> in
      if clientsock < 0 then (- 1, n)
      else
        let n = open_sock clientsock n;
            n = snd (set_nonblocking k clientsock n);
            n = (if socket_family = INET then snd (set_tcp_nodelay k clientsock n) else n)
        in if \<not> k_ntop k clientsock then (- 1, close_sock clientsock n) else (clientsock, n))"

section \<open>Which address is bound\<close>

text \<open>The first address for which a socket can be created and bound.\<close>

definition usable :: "'a kern \<Rightarrow> 'a \<Rightarrow> bool" where
  "usable k a \<longleftrightarrow> k_socket k (Inet_addr a) \<noteq> - 1 \<and> k_bind k (k_socket k (Inet_addr a)) (Inet_addr a)"

text \<open>New descriptors: what \<^verbatim>\<open>socket(2)\<close> returns is not open yet, and descriptors are not negative (-1 apart).\<close>

definition new_fds :: "'a kern \<Rightarrow> 'a net \<Rightarrow> bool" where
  "new_fds k n \<longleftrightarrow> (\<forall>a. k_socket k a \<ge> - 1 \<and> n_socks n (k_socket k a) = None) \<and> n_socks n (- 1) = None"

lemma upd_sock_open [simp]: "upd_sock fd f (open_sock fd n) = n\<lparr>n_socks := (n_socks n)(fd \<mapsto> f fresh_sock)\<rparr>"
  by (simp add: upd_sock_def open_sock_def)

lemma upd_sock_at [simp]:
  "upd_sock fd f (n\<lparr>n_socks := m(fd \<mapsto> s)\<rparr>) = n\<lparr>n_socks := m(fd \<mapsto> f s)\<rparr>"
  by (simp add: upd_sock_def)

lemma close_opened:
  "n_socks n fd = None \<Longrightarrow> close_sock fd (open_sock fd n) = n"
  "n_socks n fd = None \<Longrightarrow> close_sock fd (n\<lparr>n_socks := (n_socks n)(fd \<mapsto> s)\<rparr>) = n"
  by (simp_all add: close_sock_def open_sock_def fun_upd_idem)

lemma bind_loop_first:
  assumes "new_fds k n"
  shows "bind_loop k rps n = (case find (usable k) rps of
      None \<Rightarrow> (None, n)
    | Some a \<Rightarrow> (let fd = k_socket k (Inet_addr a) in
        (Some fd, n\<lparr>n_socks := (n_socks n)(fd \<mapsto>
           fresh_sock\<lparr>so_reuse := k_reuse k fd, so_bound := Some (Inet_addr a)\<rparr>)\<rparr>)))"
proof (induction rps)
  case (Cons rp rps)
  have free: "n_socks n (k_socket k (Inet_addr rp)) = None" using assms by (simp add: new_fds_def)
  show ?case
  proof (cases "usable k rp")
    case True
    then show ?thesis by (simp add: usable_def Let_def open_sock_def upd_sock_def fresh_sock_def)
  next
    case False
    then show ?thesis using Cons.IH free
      by (auto simp: usable_def Let_def close_opened fresh_sock_def)
  qed
qed simp

lemma listen_inet:
  assumes "new_fds k n"
  shows "make_listen k backlog host port 1 n =
    (case k_getaddrinfo k host port of None \<Rightarrow> Inl Abort
     | Some rps \<Rightarrow> (case find (usable k) rps of None \<Rightarrow> Inl Abort
       | Some a \<Rightarrow> (let fd = k_socket k (Inet_addr a) in
           if k_getfl k fd \<and> k_setfl k fd \<and> k_listen k fd
           then Inr (fd, n\<lparr>n_socks := (n_socks n)(fd \<mapsto> \<lparr>so_nonblock = True, so_nodelay = k_nodelay k fd,
                  so_reuse = k_reuse k fd, so_bound = Some (Inet_addr a), so_backlog = Some backlog\<rparr>)\<rparr>)
           else Inl Abort)))"
proof (cases "k_getaddrinfo k host port")
  case None
  then show ?thesis by (simp add: make_listen_def create_and_bind_def create_and_bind_tcp_def)
next
  case rps: (Some rps)
  show ?thesis
  proof (cases "find (usable k) rps")
    case None
    then show ?thesis using assms rps
      by (simp add: make_listen_def create_and_bind_def create_and_bind_tcp_def bind_loop_first)
  next
    case (Some a)
    then have "k_socket k (Inet_addr a) \<noteq> - 1" by (auto simp: find_Some_iff usable_def)
    then show ?thesis using assms rps Some
      by (simp add: make_listen_def create_and_bind_def create_and_bind_tcp_def bind_loop_first Let_def
          set_nonblocking_def set_tcp_nodelay_def fresh_sock_def)
  qed
qed

lemma listen_unix:
  "make_listen k backlog path port 0 n =
    (let a = Path (take 107 path); fd = k_socket k a in
     if fd \<noteq> - 1 \<and> k_bind k fd a \<and> k_getfl k fd \<and> k_setfl k fd \<and> k_listen k fd
     then Inr (fd, n\<lparr>n_socks := (n_socks n)(fd \<mapsto> \<lparr>so_nonblock = True, so_nodelay = False,
            so_reuse = False, so_bound = Some a, so_backlog = Some backlog\<rparr>), n_unlinked := path # n_unlinked n\<rparr>)
     else Inl Abort)"
  by (simp add: make_listen_def create_and_bind_def create_and_bind_unix_def Let_def set_nonblocking_def upd_sock_def open_sock_def fresh_sock_def)

section \<open>Properties\<close>

text \<open>
  C35 (make_listen_ready): where \<^verbatim>\<open>socket\<close> returns descriptors that are not open yet, for either family. For TCP, \<^verbatim>\<open>make_listen\<close> returns
  exactly when the host resolves, some address can be bound and the kernel lets the socket be non-blocking and listen; the result is bound to
  the first usable address of the list, non-blocking, and listening with the configured backlog, and every other socket opened on the way has been closed again. For
  a Unix socket it returns exactly when the first 107 bytes of the path can be bound and the kernel lets the socket be non-blocking and listen; what was
  unlinked is the whole path. In all other cases the process aborts.
\<close>

theorem make_listen_ready:
  assumes "new_fds k n"
  shows "make_listen k backlog host port 1 n =
    (case k_getaddrinfo k host port of None \<Rightarrow> Inl Abort
     | Some rps \<Rightarrow> (case find (usable k) rps of None \<Rightarrow> Inl Abort
       | Some a \<Rightarrow> (let fd = k_socket k (Inet_addr a) in
           if k_getfl k fd \<and> k_setfl k fd \<and> k_listen k fd
           then Inr (fd, n\<lparr>n_socks := (n_socks n)(fd \<mapsto> \<lparr>so_nonblock = True, so_nodelay = k_nodelay k fd,
                  so_reuse = k_reuse k fd, so_bound = Some (Inet_addr a), so_backlog = Some backlog\<rparr>)\<rparr>)
           else Inl Abort)))
   \<and> make_listen k backlog path port 0 n =
    (let a = Path (take 107 path); fd = k_socket k a in
     if fd \<noteq> - 1 \<and> k_bind k fd a \<and> k_getfl k fd \<and> k_setfl k fd \<and> k_listen k fd
     then Inr (fd, n\<lparr>n_socks := (n_socks n)(fd \<mapsto> \<lparr>so_nonblock = True, so_nodelay = False,
            so_reuse = False, so_bound = Some a, so_backlog = Some backlog\<rparr>), n_unlinked := path # n_unlinked n\<rparr>)
     else Inl Abort)"
  using listen_inet [OF assms] listen_unix by blast

theorem make_listen_ready_witness:
  "let k = \<lparr>k_socket = (\<lambda>a. case a of Inet_addr i \<Rightarrow> 3 + int i | Path _ \<Rightarrow> 3), k_getaddrinfo = (\<lambda>_ _. Some [0, 1, 2]),
         k_getfl = (\<lambda>_. True), k_setfl = (\<lambda>_. True), k_nodelay = (\<lambda>_. True), k_reuse = (\<lambda>_. True), k_bind = (\<lambda>fd _. fd \<noteq> 3),
         k_listen = (\<lambda>_. True), k_accept = (\<lambda>_ _. 9), k_ntop = (\<lambda>_. True)\<rparr>;
       n = \<lparr>n_socks = (\<lambda>_. None), n_unlinked = [], n_accepts = 0\<rparr>
   in make_listen k 128 [] [] 1 n = Inr (4, \<lparr>n_socks = [4 \<mapsto> \<lparr>so_nonblock = True, so_nodelay = True, so_reuse = True,
        so_bound = Some (Inet_addr (1 :: nat)), so_backlog = Some 128\<rparr>], n_unlinked = [], n_accepts = 0\<rparr>)
     \<and> make_listen k 128 [47] [] 0 n = Inl Abort"
  unfolding Let_def
  by (intro conjI; (subst make_listen_ready [THEN conjunct1] make_listen_ready [THEN conjunct2])) (auto simp: new_fds_def usable_def split: sockaddr.splits)

end
