(* ===== verification/Config.thy ===== *)
theory Config
  imports Util Socket "HOL-Library.Sublist"
begin

text \<open>
  \<^verbatim>\<open>src/sol/src/config.c\<close>, \<^verbatim>\<open>config.h\<close> and the start of \<^verbatim>\<open>sol.c\<close>: sizes and times with a unit, read and printed, the
  dispatch on configuration keys, splitting the configuration file into lines, keys and values, the
  defaults, and the order in which defaults, command line and file are applied.

  \<^item> the global \<^verbatim>\<open>struct config\<close> is a record that the operations take and return. Its three character arrays of 255 bytes hold
    the string without its zero; \<^verbatim>\<open>strcpy\<close> of 255 characters or more is \<open>Over_write\<close>.
  \<^item> a file is the list of its bytes; \<^verbatim>\<open>fgets\<close> is written out. A line buffer is seen as the string in it, which is all the code reads.
  \<^item> \<^verbatim>\<open>SOMAXCONN\<close> and the descriptor \<^verbatim>\<open>eventfd\<close> returns belong to the system and are parameters.
\<close>

section \<open>Sizes and times\<close>

text \<open>\<^verbatim>\<open>while (isdigit(*s)) s++\<close>\<close>

definition skip_digits :: "u8 list \<Rightarrow> u8 list" where
  "skip_digits s = dropWhile isdigit s"

definition read_memory_with_mul :: "u8 list \<Rightarrow> u64 res" where
  "read_memory_with_mul memory_string =
     rbind (parse_int memory_string) (\<lambda>n.
       let num = of_int n :: u64; s = skip_digits memory_string;
           mul = (if streq s (bytes ''kb'') 2 then 1024
                  else if streq s (bytes ''mb'') 2 then 1024 * 1024
                  else if streq s (bytes ''gb'') 2 then 1024 * 1024 * 1024
                  else 1)
       in Inr (num * mul))"

definition read_time_with_mul :: "u8 list \<Rightarrow> u64 res" where
  "read_time_with_mul time_string =
     rbind (parse_int time_string) (\<lambda>n.
       let num = of_int n :: u64;
           mul = (case skip_digits time_string of
               c # _ \<Rightarrow> if c = 109 then 60 else if c = 100 then 60 * 60 * 24 else 1
             | [] \<Rightarrow> 1)
       in Inr (num * mul))"

text \<open>\<^verbatim>\<open>%d\<close>, and what \<^verbatim>\<open>snprintf\<close> leaves in a buffer of \<open>n\<close> bytes.\<close>

definition dec_int :: "int \<Rightarrow> u8 list" where
  "dec_int i = (if i < 0 then 45 # dec_digits (nat (- i)) else dec_digits (nat i))"

definition snprintf :: "nat \<Rightarrow> u8 list \<Rightarrow> u8 list" where
  "snprintf n text = take (n - 1) text"

text \<open>The conversion of a \<^verbatim>\<open>size_t\<close> to \<^verbatim>\<open>int\<close> keeps the low 32 bits.\<close>

definition to_int :: "u64 \<Rightarrow> int" where
  "to_int n = sint (ucast n :: 32 word)"

text \<open>
  What each branch below does: the value is translated to an \<^verbatim>\<open>int\<close>, a buffer of \<^verbatim>\<open>number_len\<close> plus \<open>k\<close> bytes is allocated, and the number
  and the unit are printed into it with that size.
\<close>

definition print_unit :: "nat \<Rightarrow> u64 \<Rightarrow> u8 list \<Rightarrow> u8 list" where
  "print_unit k x u =
     (let translated = to_int x; numlen = number_len (of_int translated)
      in snprintf (numlen + k) (dec_int translated @ u))"

definition memory_to_string :: "u64 \<Rightarrow> u8 list" where
  "memory_to_string memory =
     (if memory < 1024 then print_unit 1 memory (bytes ''b'')
      else if memory < 1048576 then print_unit 2 (memory div 1024) (bytes ''Kb'')
      else if memory < 1073741824 then print_unit 2 (memory div (1024 * 1024)) (bytes ''Mb'')
      else print_unit 2 (memory div (1024 * 1024 * 1024)) (bytes ''Gb''))"


section \<open>The configuration\<close>

abbreviation (input) DEBUG :: int where "DEBUG \<equiv> 0"
abbreviation (input) INFORMATION :: int where "INFORMATION \<equiv> 1"
abbreviation (input) WARNING :: int where "WARNING \<equiv> 2"
abbreviation (input) ERROR :: int where "ERROR \<equiv> 3"

record config =
  version :: "u8 list"
  run_fd :: int
  loglevel :: int
  epoll_timeout :: int
  socket_family :: int
  logpath :: "u8 list"
  hostname :: "u8 list"
  port :: "u8 list"
  max_memory :: u64
  max_request_size :: u64
  tcp_backlog :: int
  stats_pub_interval :: u64

definition lmap :: "(u8 list \<times> int) list" where
  "lmap = [(bytes ''DEBUG'', DEBUG), (bytes ''WARNING'', WARNING), (bytes ''ERROR'', ERROR),
           (bytes ''INFO'', INFORMATION), (bytes ''INFORMATION'', INFORMATION)]"

text \<open>\<^verbatim>\<open>strcpy\<close> into an array of \<^verbatim>\<open>0xFF\<close> bytes.\<close>

definition strcpy255 :: "u8 list \<Rightarrow> u8 list res" where
  "strcpy255 s = (if length s < 255 then Inr s else Inl Over_write)"

text \<open>The loop over the first three entries of \<open>lmap\<close>.\<close>

fun set_loglevel :: "(u8 list \<times> int) list \<Rightarrow> u8 list \<Rightarrow> config \<Rightarrow> config" where
  "set_loglevel [] val c = c"
| "set_loglevel ((lname, l) # ls) val c =
     set_loglevel ls val (if streq lname val (length val) then c\<lparr>loglevel := l\<rparr> else c)"

definition add_config_value :: "int \<Rightarrow> u8 list \<Rightarrow> u8 list \<Rightarrow> config \<Rightarrow> config res" where
  "add_config_value SOMAXCONN key val c =
     (let klen = length key in
      if streq (bytes ''log_level'') key klen then Inr (set_loglevel (take 3 lmap) val c)
      else if streq (bytes ''log_path'') key klen then rbind (strcpy255 val) (\<lambda>s. Inr (c\<lparr>logpath := s\<rparr>))
      else if streq (bytes ''unix_socket'') key klen then
        rbind (strcpy255 val) (\<lambda>s. Inr (c\<lparr>socket_family := UNIX, hostname := s\<rparr>))
      else if streq (bytes ''ip_address'') key klen then
        rbind (strcpy255 val) (\<lambda>s. Inr (c\<lparr>socket_family := INET, hostname := s\<rparr>))
      else if streq (bytes ''ip_port'') key klen then rbind (strcpy255 val) (\<lambda>s. Inr (c\<lparr>port := s\<rparr>))
      else if streq (bytes ''max_memory'') key klen then
        rbind (read_memory_with_mul val) (\<lambda>n. Inr (c\<lparr>max_memory := n\<rparr>))
      else if streq (bytes ''max_request_size'') key klen then
        rbind (read_memory_with_mul val) (\<lambda>n. Inr (c\<lparr>max_request_size := n\<rparr>))
      else if streq (bytes ''tcp_backlog'') key klen then
        rbind (parse_int val) (\<lambda>n. Inr (c\<lparr>tcp_backlog := if n \<le> SOMAXCONN then n else SOMAXCONN\<rparr>))
      else if streq (bytes ''stats_publish_interval'') key klen then
        rbind (read_time_with_mul val) (\<lambda>n. Inr (c\<lparr>stats_pub_interval := n\<rparr>))
      else Inr c)"

section \<open>The configuration file\<close>

definition isspace :: "u8 \<Rightarrow> bool" where
  "isspace c \<longleftrightarrow> c = 32 \<or> 9 \<le> c \<and> c \<le> 13"

text \<open>
  \<^verbatim>\<open>isspace\<close> and \<^verbatim>\<open>isdigit\<close> get a plain \<^verbatim>\<open>char\<close>. For one of 128 or more the C standard leaves the result open where \<^verbatim>\<open>char\<close> is signed; the model takes the behaviour of
  the usual C libraries in the C locale, whose tables cover the negative characters and answer no.
\<close>

definition strip_spaces :: "u8 list \<Rightarrow> u8 list" where
  "strip_spaces str = dropWhile (\<lambda>c. isspace c \<and> c \<noteq> 0) str"

text \<open>
  \<^verbatim>\<open>unpack_bytes\<close> copies characters up to the next space into \<open>dest\<close>, a buffer of bytes, from index \<open>i\<close> on; it writes no
  terminator, so the caller clears the buffer first.
\<close>

fun unpack_word :: "u8 list \<Rightarrow> nat \<Rightarrow> u8 list \<Rightarrow> (u8 list \<times> u8 list) res" where
  "unpack_word [] i dest = Inr ([], dest)"
| "unpack_word (c # str) i dest =
     (if isspace c \<or> c = 0 then Inr (c # str, dest)
      else if i \<ge> length dest then Inl Over_write
      else unpack_word str (i + 1) (dest[i := c]))"

text \<open>A string in a buffer of bytes must have its zero inside the buffer.\<close>

definition buffer_str :: "u8 list \<Rightarrow> u8 list res" where
  "buffer_str b = (if 0 \<in> set b then Inr (str_of b) else Inl Over_read)"

text \<open>\<^verbatim>\<open>fgets(line, n + 1, fh)\<close>: at most \<open>n\<close> bytes, up to and with the first newline; \<open>None\<close> at the end of the file.\<close>

definition fgets :: "nat \<Rightarrow> u8 list \<Rightarrow> (u8 list \<times> u8 list) option" where
  "fgets n fh = (if fh = [] then None
     else let k = min n (Suc (length (takeWhile (\<lambda>c. c \<noteq> 10) fh))) in Some (take k fh, drop k fh))"

text \<open>One line: comments and blank lines are skipped; the test for an incomplete line looks at the start of the line.\<close>

definition config_line :: "int \<Rightarrow> u8 list \<Rightarrow> config \<Rightarrow> config res" where
  "config_line SOMAXCONN line c =
     (let line = str_of line; key = replicate 255 0; val = replicate 255 0 in
      if line \<noteq> [] \<and> hd line = 35 then Inr c
      else let pline = strip_spaces line in
      if pline = [] then Inr c
      else
        rbind (unpack_word pline 0 key) (\<lambda>(pline, key).
        let pline = strip_spaces pline in
        if line = [] then Inr c
        else
          rbind (unpack_word pline 0 val) (\<lambda>(pline, val).
          rbind (buffer_str key) (\<lambda>k.
          rbind (buffer_str val) (\<lambda>v. add_config_value SOMAXCONN k v c)))))"

lemma fgets_shorter: "fgets (Suc n) fh = Some (line, rest) \<Longrightarrow> length rest < length fh"
  by (cases fh) (auto simp: fgets_def Let_def split: if_splits)

function config_lines :: "int \<Rightarrow> u8 list \<Rightarrow> config \<Rightarrow> config res" where
  "config_lines SOMAXCONN fh c =
     (case fgets 254 fh of None \<Rightarrow> Inr c
      | Some (line, rest) \<Rightarrow> rbind (config_line SOMAXCONN line c) (config_lines SOMAXCONN rest))"
  by pat_completeness auto
termination
  by (relation "measure (\<lambda>(m, fh, c). length fh)") (use fgets_shorter [of 253] in auto)

declare config_lines.simps [simp del]

text \<open>\<open>file\<close> is the content of the file at the path, \<open>None\<close> when it cannot be opened; the result is the return value.\<close>

definition config_load :: "int \<Rightarrow> u8 list option \<Rightarrow> config \<Rightarrow> (bool \<times> config) res" where
  "config_load SOMAXCONN file c =
     (case file of None \<Rightarrow> Inr (False, c)
      | Some fh \<Rightarrow> rbind (config_lines SOMAXCONN fh c) (\<lambda>c. Inr (True, c)))"

text \<open>The settings of an uninitialised configuration do not matter: every field is set.\<close>

definition config_set_default :: "int \<Rightarrow> int \<Rightarrow> config res" where
  "config_set_default SOMAXCONN evfd =
     rbind (read_memory_with_mul (bytes ''2GB'')) (\<lambda>mm.
     rbind (read_memory_with_mul (bytes ''2MB'')) (\<lambda>mr.
     rbind (read_time_with_mul (bytes ''10s'')) (\<lambda>st.
       Inr \<lparr>version = bytes ''0.0.1'', run_fd = evfd, loglevel = DEBUG, epoll_timeout = - 1, socket_family = INET,
            logpath = bytes ''/tmp/sol.log'', hostname = bytes ''127.0.0.1'', port = bytes ''1883'',
            max_memory = mm, max_request_size = mr, tcp_backlog = SOMAXCONN, stats_pub_interval = st\<rparr>)))"

text \<open>
  \<^verbatim>\<open>config_print\<close>: the lines it hands to \<^verbatim>\<open>sol_info\<close>. The name of the level is the last match among the first four entries.
\<close>

fun level_name :: "(u8 list \<times> int) list \<Rightarrow> int \<Rightarrow> u8 list option \<Rightarrow> u8 list option" where
  "level_name [] l r = r"
| "level_name ((lname, k) # ls) l r = level_name ls l (if k = l then Some lname else r)"

definition config_print :: "config \<Rightarrow> u8 list list res" where
  "config_print c =
     (if loglevel c < WARNING then
        let sfamily = bytes (if socket_family c = UNIX then ''Unix'' else ''Tcp'') in
        case level_name (take 4 lmap) (loglevel c) None of None \<Rightarrow> Inl Null_deref
        | Some llevel \<Rightarrow> Inr (
            [bytes ''Sol v'' @ bytes ''0.0.1'' @ bytes '' is starting'', bytes ''Network settings:'',
             9 # bytes ''Socket family: '' @ sfamily]
            @ (if socket_family c = UNIX then [9 # bytes ''Unix socket: '' @ hostname c]
               else [9 # bytes ''Address: '' @ hostname c, 9 # bytes ''Port: '' @ port c,
                     9 # bytes ''Tcp backlog: '' @ dec_int (tcp_backlog c)])
            @ [9 # bytes ''Max request size: '' @ memory_to_string (max_request_size c), bytes ''Logging:'',
               9 # bytes ''level: '' @ llevel, 9 # bytes ''logpath: '' @ logpath c,
               bytes ''Max memory: '' @ memory_to_string (max_memory c)])
      else Inr [])"

section \<open>The main program\<close>

text \<open>
  The options \<^verbatim>\<open>getopt\<close> delivers, in order; \<open>Opt_other\<close> stands for everything that reaches the default branch (\<^verbatim>\<open>-m\<close> and \<^verbatim>\<open>-n\<close> too, although
  the option string announces them). \<open>None\<close> is \<^verbatim>\<open>exit(EXIT_FAILURE)\<close>.
\<close>

datatype copt = Opt_a "u8 list" | Opt_c "u8 list" | Opt_p "u8 list" | Opt_v | Opt_other

fun main_opts :: "copt list \<Rightarrow> u8 list \<Rightarrow> bool \<Rightarrow> config \<Rightarrow> (u8 list \<times> bool \<times> config) option res" where
  "main_opts [] confpath debug c = Inr (Some (confpath, debug, c))"
| "main_opts (Opt_a a # os) confpath debug c =
     rbind (strcpy255 a) (\<lambda>s. main_opts os confpath debug (c\<lparr>hostname := s\<rparr>))"
| "main_opts (Opt_c a # os) confpath debug c = main_opts os a debug c"
| "main_opts (Opt_p a # os) confpath debug c =
     rbind (strcpy255 a) (\<lambda>s. main_opts os confpath debug (c\<lparr>port := s\<rparr>))"
| "main_opts (Opt_v # os) confpath debug c = main_opts os confpath True c"
| "main_opts (Opt_other # os) confpath debug c = Inr None"

text \<open>\<^verbatim>\<open>main\<close> up to \<^verbatim>\<open>start_server\<close>: the configuration it is started with and the lines printed. \<open>files\<close> is the file system.\<close>

definition sol_main :: "int \<Rightarrow> int \<Rightarrow> copt list \<Rightarrow> (u8 list \<Rightarrow> u8 list option) \<Rightarrow> (config \<times> u8 list list) option res" where
  "sol_main SOMAXCONN evfd opts files =
     rbind (config_set_default SOMAXCONN evfd) (\<lambda>c.
     rbind (main_opts opts (bytes ''/etc/sol/sol.conf'') False c) (\<lambda>r.
       case r of None \<Rightarrow> Inr None
       | Some (confpath, debug, c) \<Rightarrow>
           rbind (config_load SOMAXCONN (files confpath) (c\<lparr>loglevel := if debug then DEBUG else WARNING\<rparr>)) (\<lambda>(ok, c).
           rbind (config_print c) (\<lambda>out. Inr (Some (c, out))))))"

section \<open>Printing and reading units\<close>

lemma to_int_small: "unat x \<le> 2147483647 \<Longrightarrow> to_int x = int (unat x)"
proof -
  assume x: "unat x \<le> 2147483647"
  then have "unat (ucast x :: 32 word) = unat x"
    by (simp add: unsigned_ucast_eq take_bit_nat_eq_self)
  then have u: "uint (ucast x :: 32 word) = int (unat x)" by (metis uint_nat)
  have "signed_take_bit 31 (int k) = int k" if "k \<le> 2147483647" for k
    using that by (intro signed_take_bit_int_eq_self) auto
  from this [OF x] have "signed_take_bit 31 (int (unat x)) = int (unat x)" .
  then show ?thesis unfolding to_int_def by (simp add: sint_uint u del: uint_nat)
qed

lemma skip_digits_unit: "u = [] \<or> \<not> isdigit (hd u) \<Longrightarrow> skip_digits (dec_digits n @ u) = u"
  unfolding skip_digits_def
  by (subst dropWhile_append2) (auto simp: dec_digits_isdigit, cases u, auto)

lemma int_max_unat: "unat x \<le> 2147483647 \<Longrightarrow> int (unat x) \<le> int_max"
proof -
  have "k \<le> 2147483647 \<Longrightarrow> int k \<le> int_max" for k by (simp add: int_max_def)
  then show "unat x \<le> 2147483647 \<Longrightarrow> int (unat x) \<le> int_max" by blast
qed

lemma print_unit_text:
  assumes "0 < unat x" "unat x \<le> 2147483647" "length u \<le> k"
  shows "print_unit k x u = dec_digits (unat x) @ u"
proof -
  from parse_int_print [OF int_max_unat [OF assms(2)], of "[]"] have "number_len (of_nat (unat x)) = length (dec_digits (unat x)) + 1"
    using assms(1) by simp
  then show ?thesis using assms
    by (simp add: print_unit_def snprintf_def dec_int_def to_int_small Let_def)
qed

lemma print_unit_zero: "print_unit (Suc 0) 0 u = dec_digits 0"
  by (simp add: print_unit_def to_int_def snprintf_def dec_int_def number_len_def number_len_loop_digits dec_digits.simps [of 0])

lemma read_memory_unit:
  assumes "int n \<le> int_max" "u = [] \<or> \<not> isdigit (hd u)"
  shows "read_memory_with_mul (dec_digits n @ u) = Inr (of_nat n *
    (if streq u (bytes ''kb'') 2 then 1024 else if streq u (bytes ''mb'') 2 then 1024 * 1024
     else if streq u (bytes ''gb'') 2 then 1024 * 1024 * 1024 else 1))"
  using parse_int_print [OF assms] assms(2) by (simp add: read_memory_with_mul_def skip_digits_unit)


lemma unat_unit: "unat (m div c) = unat m div unat c" for m c :: u64
  by (simp add: unat_div)

text \<open>The unit \<^verbatim>\<open>memory_to_string\<close> chooses, and its name.\<close>

definition memory_unit :: "u64 \<Rightarrow> u64 \<times> string" where
  "memory_unit m = (if m < 1024 then (1, ''b'') else if m < 1048576 then (1024, ''Kb'')
     else if m < 1073741824 then (1048576, ''Mb'') else (1073741824, ''Gb''))"

lemma memory_text:
  assumes "0 < m" "m < 2305843009213693952"
  shows "memory_to_string m = dec_digits (unat (m div fst (memory_unit m))) @ bytes (snd (memory_unit m))"
    and "unat (m div fst (memory_unit m)) \<le> 2147483647"
proof -
  have pos: "0 < unat (m div fst (memory_unit m))"
    using assms(1) by (simp add: memory_unit_def unat_unit word_less_nat_alt div_greater_zero_iff)
  show le: "unat (m div fst (memory_unit m)) \<le> 2147483647"
    using assms(2) by (auto simp: memory_unit_def unat_unit word_less_nat_alt)
  show "memory_to_string m = dec_digits (unat (m div fst (memory_unit m))) @ bytes (snd (memory_unit m))"
    using print_unit_text [OF pos le]
    by (auto simp: memory_to_string_def memory_unit_def bytes_def)
qed

lemma unit_streq:
  "\<not> streq (bytes ''b'') (bytes ''kb'') 2" "\<not> streq (bytes ''b'') (bytes ''mb'') 2" "\<not> streq (bytes ''b'') (bytes ''gb'') 2"
  "streq (bytes ''Kb'') (bytes ''kb'') 2" "\<not> streq (bytes ''Mb'') (bytes ''kb'') 2" "streq (bytes ''Mb'') (bytes ''mb'') 2"
  "\<not> streq (bytes ''Gb'') (bytes ''kb'') 2" "\<not> streq (bytes ''Gb'') (bytes ''mb'') 2" "streq (bytes ''Gb'') (bytes ''gb'') 2"
  by code_simp+

lemma memory_unit_factor:
  "(if streq (bytes (snd (memory_unit m))) (bytes ''kb'') 2 then 1024
    else if streq (bytes (snd (memory_unit m))) (bytes ''mb'') 2 then 1024 * 1024
    else if streq (bytes (snd (memory_unit m))) (bytes ''gb'') 2 then 1024 * 1024 * 1024 else 1) = fst (memory_unit m)"
  by (simp add: memory_unit_def unit_streq)

text \<open>
  Reading back a size that \<^verbatim>\<open>memory_to_string\<close> printed gives the size rounded down to the unit that was
  chosen, for every size below two exbibytes, where the number still fits an \<^verbatim>\<open>int\<close>.
\<close>

theorem memory_string_roundtrip:
  assumes "m < 2305843009213693952"
  shows "read_memory_with_mul (memory_to_string m) = Inr (m div fst (memory_unit m) * fst (memory_unit m))"
proof (cases "m = 0")
  case True
  then show ?thesis using read_memory_unit [of 0 "[]"]
    by (simp add: memory_to_string_def print_unit_zero memory_unit_def int_max_def bytes_def)
next
  case False
  then have "0 < m" by (simp add: word_greater_zero_iff)
  note mt = memory_text [OF this assms]
  have "\<not> isdigit (hd (bytes (snd (memory_unit m))))"
    by (simp add: memory_unit_def bytes_def of_char_def isdigit_def)
  with read_memory_unit [OF int_max_unat [OF mt(2)], of "bytes (snd (memory_unit m))"] show ?thesis
    unfolding mt(1) memory_unit_factor by simp
qed

theorem memory_string_roundtrip_witness:
  "read_memory_with_mul (memory_to_string 5000) = Inr (5000 div fst (memory_unit 5000) * fst (memory_unit 5000))"
  by (rule memory_string_roundtrip) simp



section \<open>Words and lines\<close>

definition wchar :: "u8 \<Rightarrow> bool" where
  "wchar c \<longleftrightarrow> \<not> isspace c \<and> c \<noteq> 0"

lemma isspace_0 [simp]: "\<not> isspace 0"
  by (simp add: isspace_def)

lemma strip_spaces_dropWhile: "strip_spaces s = dropWhile isspace s"
proof -
  have "(\<lambda>c. isspace c \<and> c \<noteq> 0) = isspace" by (auto simp: fun_eq_iff)
  then show ?thesis by (simp add: strip_spaces_def)
qed

lemma unpack_word_text:
  "i + length (takeWhile wchar str) \<le> length dest \<Longrightarrow>
     unpack_word str i dest = Inr (dropWhile wchar str,
       take i dest @ takeWhile wchar str @ drop (i + length (takeWhile wchar str)) dest)"
proof (induction str i dest rule: unpack_word.induct)
  case (2 c str i dest)
  show ?case
  proof (cases "wchar c")
    case True
    with 2(2) have i: "i < length dest" by simp
    have "take (Suc i) (dest[i := c]) = take i dest @ [c]" using i by (simp add: take_Suc_conv_app_nth)
    then show ?thesis using 2 True i by (simp add: wchar_def)
  next
    case False
    then show ?thesis by (auto simp: wchar_def)
  qed
qed simp

lemma zero_free_word: "zero_free (takeWhile wchar s)"
  by (auto simp: zero_free_def wchar_def dest: set_takeWhileD)

lemma str_of_pad: "zero_free w \<Longrightarrow> 0 < k \<Longrightarrow> str_of (w @ replicate k 0) = w"
  unfolding str_of_def zero_free_def by (cases k) (subst takeWhile_append2; auto)+

lemma unpack_word_clear:
  assumes "length (takeWhile wchar str) < n"
  shows "\<exists>b. unpack_word str 0 (replicate n 0) = Inr (dropWhile wchar str, b) \<and> buffer_str b = Inr (takeWhile wchar str)"
  using unpack_word_text [of 0 str "replicate n 0"] str_of_pad [OF zero_free_word, of "n - length (takeWhile wchar str)"] assms
  by (auto simp: buffer_str_def)

text \<open>A line as its meaning: the pair it sets, if any.\<close>

definition line_pair :: "u8 list \<Rightarrow> (u8 list \<times> u8 list) option" where
  "line_pair line =
     (let pline = strip_spaces (str_of line) in
      if str_of line \<noteq> [] \<and> hd (str_of line) = 35 \<or> pline = [] then None
      else Some (takeWhile wchar pline, takeWhile wchar (strip_spaces (dropWhile wchar pline))))"

lemma length_str_of: "length (str_of b) \<le> length b"
  by (simp add: str_of_def length_takeWhile_le)

lemma length_strip: "length (strip_spaces s) \<le> length s"
  by (simp add: strip_spaces_dropWhile length_dropWhile_le)

lemma config_line_pair:
  assumes "length line < 255"
  shows "config_line M line c = (case line_pair line of None \<Rightarrow> Inr c | Some (k, v) \<Rightarrow> add_config_value M k v c)"
proof -
  define pl where "pl = strip_spaces (str_of line)"
  define ql where "ql = strip_spaces (dropWhile wchar pl)"
  have pl: "length pl < 255" using assms length_str_of [of line] length_strip [of "str_of line"] by (simp add: pl_def)
  have ql: "length ql < 255"
    using pl length_strip [of "dropWhile wchar pl"] length_dropWhile_le [of wchar pl] by (simp add: ql_def)
  obtain kb where kb: "unpack_word pl 0 (replicate 255 0) = Inr (dropWhile wchar pl, kb)" "buffer_str kb = Inr (takeWhile wchar pl)"
    using unpack_word_clear [of pl 255] pl length_takeWhile_le [of wchar pl] by fastforce
  obtain vb where vb: "unpack_word ql 0 (replicate 255 0) = Inr (dropWhile wchar ql, vb)" "buffer_str vb = Inr (takeWhile wchar ql)"
    using unpack_word_clear [of ql 255] ql length_takeWhile_le [of wchar ql] by fastforce
  have "str_of line = [] \<Longrightarrow> pl = []" by (simp add: pl_def strip_spaces_def)
  then show ?thesis using kb vb
    by (auto simp: config_line_def line_pair_def Let_def pl_def [symmetric] ql_def [symmetric])
qed

lemma fgets_length: "fgets n fh = Some (line, rest) \<Longrightarrow> length line \<le> n \<and> fh = line @ rest"
  by (auto simp: fgets_def Let_def split: if_splits)

section \<open>No write outside a buffer\<close>

text \<open>
  The types of the settings: strings that fit their arrays, one of the two socket families, a level \<^verbatim>\<open>config_print\<close> finds a name for, and a
  backlog the system accepts.
\<close>

definition config_ok :: "int \<Rightarrow> config \<Rightarrow> bool" where
  "config_ok SOMAXCONN c \<longleftrightarrow> length (logpath c) < 255 \<and> length (hostname c) < 255 \<and> length (port c) < 255
     \<and> zero_free (logpath c) \<and> zero_free (hostname c) \<and> zero_free (port c)
     \<and> socket_family c \<in> {UNIX, INET} \<and> loglevel c \<in> {DEBUG, WARNING, ERROR} \<and> 0 \<le> tcp_backlog c \<and> tcp_backlog c \<le> SOMAXCONN"

lemma config_ok_loglevel: "config_ok M c \<Longrightarrow> l \<in> {DEBUG, WARNING, ERROR} \<Longrightarrow> config_ok M (c\<lparr>loglevel := l\<rparr>)"
  by (simp add: config_ok_def)

lemma set_loglevel_ok: "config_ok M c \<Longrightarrow> snd ` set ls \<subseteq> {DEBUG, WARNING, ERROR} \<Longrightarrow> config_ok M (set_loglevel ls v c)"
  by (induction ls v c rule: set_loglevel.induct) (simp_all add: config_ok_loglevel)

text \<open>A number overflows only from its tenth digit on.\<close>

lemma parse_int_loop_short:
  "0 \<le> n \<Longrightarrow> n < 10 ^ k \<Longrightarrow> k + length (takeWhile isdigit s) \<le> 9 \<Longrightarrow> \<exists>m. parse_int_loop s n = Inr m"
proof (induction s arbitrary: n k)
  case (Cons c s)
  show ?case
  proof (cases "isdigit c")
    case True
    have d: "uint (c - 48) < 10" "0 \<le> uint (c - 48)"
      using True by (auto simp: isdigit_def word_le_def uint_sub_if')
    from True Cons.prems have k: "Suc k \<le> 9" by simp
    have n: "n * 10 + uint (c - 48) < 10 ^ Suc k" "0 \<le> n * 10 + uint (c - 48)" using Cons.prems d by auto
    moreover have "(10::int) ^ Suc k \<le> 10 ^ 9" using k by (intro power_increasing) auto
    ultimately have "n * 10 + uint (c - 48) < 1000000000" by simp
    then have "in_int (n * 10)" "in_int (n * 10 + uint (c - 48))"
      unfolding in_int_def int_max_def using d(2) Cons.prems(1) by linarith+
    moreover obtain m where "parse_int_loop s (n * 10 + uint (c - 48)) = Inr m"
      using Cons.IH [OF n(2,1)] Cons.prems True by auto
    ultimately show ?thesis using True by (simp add: isdigit_nonzero Let_def)
  qed auto
qed auto

lemma parse_int_nonneg: "parse_int s = Inr n \<Longrightarrow> 0 \<le> n"
proof -
  have "parse_int_loop s k = Inr n \<Longrightarrow> 0 \<le> k \<Longrightarrow> 0 \<le> n" for k
    by (induction s k rule: parse_int_loop.induct) (auto simp: Let_def split: if_splits)
  then show "parse_int s = Inr n \<Longrightarrow> 0 \<le> n" by (simp add: parse_int_def)
qed

lemma parse_int_cases: "(\<exists>n. parse_int s = Inr n) \<or> parse_int s = Inl Signed_overflow \<and> 10 \<le> length (takeWhile isdigit s)"
proof (cases "length (takeWhile isdigit s) \<le> 9")
  case True
  then show ?thesis using parse_int_loop_short [of 0 0 s] by (auto simp: parse_int_def)
next
  case False
  have "parse_int_loop s n = Inl e \<Longrightarrow> e = Signed_overflow" for n e
    by (induction s n rule: parse_int_loop.induct) (auto simp: Let_def split: if_splits)
  then show ?thesis using False by (cases "parse_int s") (auto simp: parse_int_def)
qed

text \<open>What a setting may end in: a configuration that is still well-formed, or a number of ten digits or more that overflows.\<close>

definition harmless :: "int \<Rightarrow> u8 list \<Rightarrow> config res \<Rightarrow> bool" where
  "harmless M v r \<longleftrightarrow> (\<exists>c'. r = Inr c' \<and> config_ok M c') \<or> r = Inl Signed_overflow \<and> 10 \<le> length (takeWhile isdigit v)"

lemma harmless_if: "harmless M v x \<Longrightarrow> harmless M v y \<Longrightarrow> harmless M v (if b then x else y)"
  by simp

lemma harmless_Inr: "config_ok M c \<Longrightarrow> harmless M v (Inr c)"
  by (simp add: harmless_def)

lemma harmless_strcpy:
  "length v < 255 \<Longrightarrow> config_ok M (f v) \<Longrightarrow> harmless M v (rbind (strcpy255 v) (\<lambda>s. Inr (f s)))"
  by (simp add: harmless_def strcpy255_def)

lemma harmless_number:
  "(\<And>n. 0 \<le> n \<Longrightarrow> config_ok M (f n)) \<Longrightarrow> harmless M v (rbind (parse_int v) (\<lambda>n. Inr (f n)))"
  using parse_int_cases [of v] parse_int_nonneg [of v] by (auto simp: harmless_def)

lemma harmless_unit:
  assumes "\<And>n. config_ok M (f n)"
  shows "harmless M v (rbind (read_memory_with_mul v) (\<lambda>n. Inr (f n)))"
    and "harmless M v (rbind (read_time_with_mul v) (\<lambda>n. Inr (f n)))"
  using parse_int_cases [of v] assms
  by (auto simp: harmless_def read_memory_with_mul_def read_time_with_mul_def Let_def)

lemma config_ok_upd [simp]:
  "config_ok M (c\<lparr>max_memory := u\<rparr>) = config_ok M c" "config_ok M (c\<lparr>max_request_size := u\<rparr>) = config_ok M c"
  "config_ok M (c\<lparr>stats_pub_interval := w\<rparr>) = config_ok M c"
  "config_ok M c \<Longrightarrow> 0 \<le> i \<Longrightarrow> i \<le> M \<Longrightarrow> config_ok M (c\<lparr>tcp_backlog := i\<rparr>)"
  "config_ok M c \<Longrightarrow> length v < 255 \<Longrightarrow> zero_free v \<Longrightarrow> config_ok M (c\<lparr>logpath := v\<rparr>)"
  "config_ok M c \<Longrightarrow> length v < 255 \<Longrightarrow> zero_free v \<Longrightarrow> config_ok M (c\<lparr>hostname := v\<rparr>)"
  "config_ok M c \<Longrightarrow> length v < 255 \<Longrightarrow> zero_free v \<Longrightarrow> f \<in> {UNIX, INET} \<Longrightarrow> config_ok M (c\<lparr>socket_family := f, hostname := v\<rparr>)"
  "config_ok M c \<Longrightarrow> length v < 255 \<Longrightarrow> zero_free v \<Longrightarrow> config_ok M (c\<lparr>port := v\<rparr>)"
  by (simp_all add: config_ok_def)

lemma lmap_levels: "snd ` set (take 3 lmap) \<subseteq> {DEBUG, WARNING, ERROR}"
  by (simp add: lmap_def numeral_3_eq_3)

lemma add_config_value_safe:
  "config_ok M c \<Longrightarrow> 0 \<le> M \<Longrightarrow> length v < 255 \<Longrightarrow> zero_free v \<Longrightarrow> harmless M v (add_config_value M k v c)"
  unfolding add_config_value_def Let_def
  by (intro harmless_if harmless_Inr harmless_strcpy harmless_number harmless_unit)
     (simp_all add: set_loglevel_ok lmap_levels)

text \<open>The value of a line is a piece of the line.\<close>

lemma line_pair_form:
  "line_pair line = Some (k, v) \<Longrightarrow>
     v = takeWhile wchar (dropWhile isspace (dropWhile wchar (dropWhile isspace (takeWhile (\<lambda>x. x \<noteq> 0) line))))"
  by (auto simp: line_pair_def Let_def strip_spaces_dropWhile str_of_def split: if_splits)

lemma line_pair_value: "line_pair line = Some (k, v) \<Longrightarrow> sublist v line"
  using line_pair_form [of line k v] by (metis sublist_takeWhile sublist_dropWhile sublist_order.order_trans)

lemma line_pair_zero_free: "line_pair line = Some (k, v) \<Longrightarrow> zero_free v"
  using line_pair_form [of line k v] by (auto simp: zero_free_def dest!: set_takeWhileD set_dropWhileD)

lemma ten_digits:
  assumes "10 \<le> length (takeWhile isdigit v)"
  shows "\<exists>d. sublist d v \<and> length d = 10 \<and> (\<forall>c \<in> set d. isdigit c)"
proof (intro exI conjI)
  show "sublist (take 10 (takeWhile isdigit v)) v"
    by (meson sublist_order.order_trans sublist_take sublist_takeWhile)
qed (use assms in \<open>auto dest: in_set_takeD set_takeWhileD\<close>)

lemma config_lines_safe:
  "config_ok M c \<Longrightarrow> 0 \<le> M \<Longrightarrow> (\<exists>c'. config_lines M fh c = Inr c' \<and> config_ok M c')
    \<or> config_lines M fh c = Inl Signed_overflow \<and> (\<exists>d. sublist d fh \<and> length d = 10 \<and> (\<forall>x \<in> set d. isdigit x))"
proof (induction M fh c rule: config_lines.induct)
  case (1 M fh c)
  note step = 1(1) and zero = 1(3)
  show ?case
  proof (cases "fgets 254 fh")
    case None
    then show ?thesis using 1(2) by (simp add: config_lines.simps [of M fh])
  next
    case (Some lr)
    obtain line rest where lr: "lr = (line, rest)" by force
    then have f: "fgets 254 fh = Some (line, rest)" using Some by simp
    have len: "length line < 255" "fh = line @ rest" using fgets_length [OF f] by auto
    have "harmless M (case line_pair line of None \<Rightarrow> [] | Some (k, v) \<Rightarrow> v) (config_line M line c)"
    proof (cases "line_pair line")
      case None
      then show ?thesis using 1(2) len by (simp add: config_line_pair harmless_Inr)
    next
      case (Some kv)
      obtain k v where kv: "kv = (k, v)" by force
      have "length v < 255" using line_pair_value [of line k v] Some kv len(1) sublist_length_le by fastforce
      then show ?thesis using 1(2,3) len Some kv add_config_value_safe line_pair_zero_free [of line k v] by (simp add: config_line_pair)
    qed
    then consider c' where "config_line M line c = Inr c'" "config_ok M c'"
      | k v where "line_pair line = Some (k, v)" "config_line M line c = Inl Signed_overflow" "10 \<le> length (takeWhile isdigit v)"
      by (cases "line_pair line") (auto simp: harmless_def)
    then show ?thesis
    proof cases
      case 1
      from 1(1) have "config_lines M fh c = config_lines M rest c'" using f by (simp add: config_lines.simps [of M fh])
      moreover have "sublist rest fh" using len(2) by simp
      ultimately show ?thesis using step [OF f refl 1 zero] sublist_order.order_trans [of _ rest fh] by auto
    next
      case 2
      then obtain d where "sublist d v" "length d = 10" "\<forall>x \<in> set d. isdigit x" using ten_digits by blast
      moreover have "sublist v fh" using line_pair_value [OF 2(1)] len(2) sublist_order.order_trans [of v line fh] by simp
      ultimately show ?thesis using 2(2) f sublist_order.order_trans [of d v fh]
        by (auto simp: config_lines.simps [of M fh])
    qed
  qed
qed

lemma config_load_safe:
  assumes "config_ok M c" "0 \<le> M"
  shows "(\<exists>b c'. config_load M file c = Inr (b, c') \<and> (b \<longleftrightarrow> file \<noteq> None) \<and> config_ok M c')
    \<or> config_load M file c = Inl Signed_overflow
      \<and> (\<exists>fh d. file = Some fh \<and> sublist d fh \<and> length d = 10 \<and> (\<forall>x \<in> set d. isdigit x))"
proof (cases "file")
  case None
  then show ?thesis using assms by (auto simp: config_load_def)
next
  case (Some fh)
  then show ?thesis using config_lines_safe [OF assms, of fh] by (auto simp: config_load_def)
qed

definition sample_config :: config where
  "sample_config = \<lparr>version = [], run_fd = 3, loglevel = 2, epoll_timeout = - 1, socket_family = 1, logpath = [], hostname = [],
     port = [], max_memory = 0, max_request_size = 0, tcp_backlog = 0, stats_pub_interval = 0\<rparr>"

section \<open>What the server is started with\<close>

lemma default_ok:
  assumes "0 \<le> M"
  shows "\<exists>c. config_set_default M evfd = Inr c \<and> config_ok M c \<and> run_fd c = evfd"
proof -
  have r: "read_memory_with_mul (bytes ''2GB'') = Inr 2147483648" "read_memory_with_mul (bytes ''2MB'') = Inr 2097152"
    "read_time_with_mul (bytes ''10s'') = Inr 10" by code_simp+
  then show ?thesis using assms by (simp add: config_set_default_def config_ok_def bytes_def)
qed

definition opt_arg :: "copt \<Rightarrow> u8 list" where
  "opt_arg opt = (case opt of Opt_a a \<Rightarrow> a | Opt_c a \<Rightarrow> a | Opt_p a \<Rightarrow> a | _ \<Rightarrow> [])"

lemma strcpy255_cases: "strcpy255 a = Inr a \<and> length a < 255 \<or> strcpy255 a = Inl Over_write \<and> 255 \<le> length a"
  by (auto simp: strcpy255_def)

definition long_arg :: "copt list \<Rightarrow> bool" where
  "long_arg opts \<longleftrightarrow> (\<exists>a. (Opt_a a \<in> set opts \<or> Opt_p a \<in> set opts) \<and> 255 \<le> length a)"

definition opts_result :: "int \<Rightarrow> copt list \<Rightarrow> (u8 list \<times> bool \<times> config) option res \<Rightarrow> bool" where
  "opts_result M opts r \<longleftrightarrow> (\<exists>p d c. r = Inr (Some (p, d, c)) \<and> config_ok M c)
     \<or> r = Inr None \<and> Opt_other \<in> set opts \<or> r = Inl Over_write \<and> long_arg opts"

lemma opts_result_Cons: "opts_result M os r \<Longrightarrow> opts_result M (opt # os) r"
  by (auto simp: opts_result_def long_arg_def)

lemma opts_result_arg:
  "(length a < 255 \<Longrightarrow> opts_result M os (f a)) \<Longrightarrow> opt \<in> {Opt_a a, Opt_p a} \<Longrightarrow> opts_result M (opt # os) (rbind (strcpy255 a) f)"
  using strcpy255_cases [of a] by (auto simp: opts_result_Cons) (auto simp: opts_result_def long_arg_def)

lemma main_opts_cases:
  "config_ok M c \<Longrightarrow> list_all (zero_free \<circ> opt_arg) opts \<Longrightarrow> opts_result M opts (main_opts opts confpath debug c)"
proof (induction opts confpath debug c rule: main_opts.induct)
  case (2 a os confpath debug c)
  show ?case unfolding main_opts.simps
    by (rule opts_result_arg) (use 2 strcpy255_cases [of a] in \<open>auto simp: opt_arg_def\<close>)
next
  case (4 a os confpath debug c)
  show ?case unfolding main_opts.simps
    by (rule opts_result_arg) (use 4 strcpy255_cases [of a] in \<open>auto simp: opt_arg_def\<close>)
qed (auto simp: opts_result_Cons, auto simp: opts_result_def)

lemma config_print_total:
  "config_ok M c \<Longrightarrow> \<exists>out. config_print c = Inr out \<and> (out \<noteq> [] \<longleftrightarrow> loglevel c = DEBUG)"
  by (auto simp: config_ok_def config_print_def lmap_def)

text \<open>
  C36 (main_config_ok): whatever the options on the command line and the bytes of the configuration files are, \<^verbatim>\<open>main\<close> comes to start the server with a configuration of the right types:
  strings that are terminated inside their arrays of 255 bytes, one of the two socket families, a level among those the program knows, and a backlog between 0 and
  \<^verbatim>\<open>SOMAXCONN\<close>, with the summary printed exactly at the debug level; or it exits because of an unknown option. No line, key, value or configuration buffer is overrun. The only ways to leave the defined
  behaviour of C are an address or port option of 255 characters or more and a number of ten digits or more in the file that overflows an \<^verbatim>\<open>int\<close>.
\<close>

theorem main_config_ok:
  assumes "0 \<le> SOMAXCONN" and "list_all (zero_free \<circ> opt_arg) opts"
  shows "(\<exists>c out. sol_main SOMAXCONN evfd opts files = Inr (Some (c, out)) \<and> config_ok SOMAXCONN c \<and> (out \<noteq> [] \<longleftrightarrow> loglevel c = DEBUG))
    \<or> sol_main SOMAXCONN evfd opts files = Inr None \<and> Opt_other \<in> set opts
    \<or> sol_main SOMAXCONN evfd opts files = Inl Over_write \<and> long_arg opts
    \<or> sol_main SOMAXCONN evfd opts files = Inl Signed_overflow
      \<and> (\<exists>path fh d. files path = Some fh \<and> sublist d fh \<and> length d = 10 \<and> (\<forall>x \<in> set d. isdigit x))"
proof -
  obtain c0 where c0: "config_set_default SOMAXCONN evfd = Inr c0" "config_ok SOMAXCONN c0" using default_ok [OF assms(1)] by blast
  let ?o = "main_opts opts (bytes ''/etc/sol/sol.conf'') False c0"
  from main_opts_cases [OF c0(2) assms(2), of "bytes ''/etc/sol/sol.conf''" False] consider p d c1 where "?o = Inr (Some (p, d, c1))" "config_ok SOMAXCONN c1"
    | "?o = Inr None" "Opt_other \<in> set opts" | "?o = Inl Over_write" "long_arg opts" by (auto simp: opts_result_def)
  then show ?thesis
  proof cases
    case 1
    let ?c = "c1\<lparr>loglevel := if d then DEBUG else WARNING\<rparr>"
    have m: "sol_main SOMAXCONN evfd opts files = rbind (config_load SOMAXCONN (files p) ?c) (\<lambda>(ok, c). rbind (config_print c) (\<lambda>out. Inr (Some (c, out))))"
      using c0(1) 1(1) by (simp add: sol_main_def)
    have "config_ok SOMAXCONN ?c" using 1(2) by (simp add: config_ok_loglevel)
    from config_load_safe [OF this assms(1), of "files p"] show ?thesis
    proof
      assume "\<exists>b c'. config_load SOMAXCONN (files p) ?c = Inr (b, c') \<and> (b \<longleftrightarrow> files p \<noteq> None) \<and> config_ok SOMAXCONN c'"
      then obtain b c' where l: "config_load SOMAXCONN (files p) ?c = Inr (b, c')" "config_ok SOMAXCONN c'" by blast
      from config_print_total [OF l(2)] l m show ?thesis by auto
    qed (use m in auto)
  qed (use c0(1) in \<open>simp_all add: sol_main_def\<close>)
qed

theorem main_config_ok_witness:
  "(\<exists>c out. sol_main 128 9 [Opt_v, Opt_p (bytes ''8883'')] (\<lambda>_. None) = Inr (Some (c, out)) \<and> config_ok 128 c \<and> (out \<noteq> [] \<longleftrightarrow> loglevel c = DEBUG))"
proof -
  have "list_all (zero_free \<circ> opt_arg) [Opt_v, Opt_p (bytes ''8883'')]" by (simp add: opt_arg_def bytes_def of_char_def)
  with main_config_ok [of 128 "[Opt_v, Opt_p (bytes ''8883'')]" 9 "\<lambda>_. None"] show ?thesis
    by (auto simp: long_arg_def bytes_def)
qed

section \<open>What a configuration file means\<close>

text \<open>
  A file as its author sees it: comments, blank lines, and settings with any white space around key and value and any text after a
  space that follows the value.
\<close>

datatype cline = Comment "u8 list" | Blank "u8 list" | Setting "u8 list" "u8 list" "u8 list" "u8 list" "u8 list"

definition blanks :: "u8 list \<Rightarrow> bool" where
  "blanks s \<longleftrightarrow> (\<forall>c \<in> set s. isspace c \<and> c \<noteq> 10)"

definition plain :: "u8 list \<Rightarrow> bool" where
  "plain s \<longleftrightarrow> (\<forall>c \<in> set s. c \<noteq> 10 \<and> c \<noteq> 0)"

definition cword :: "u8 list \<Rightarrow> bool" where
  "cword w \<longleftrightarrow> w \<noteq> [] \<and> (\<forall>c \<in> set w. wchar c)"

fun cline_text :: "cline \<Rightarrow> u8 list" where
  "cline_text (Comment s) = 35 # s"
| "cline_text (Blank s) = s"
| "cline_text (Setting pre k mid v post) = pre @ k @ mid @ v @ post"

fun cline_ok :: "cline \<Rightarrow> bool" where
  "cline_ok (Comment s) \<longleftrightarrow> plain s"
| "cline_ok (Blank s) \<longleftrightarrow> blanks s"
| "cline_ok (Setting pre k mid v post) \<longleftrightarrow> blanks pre \<and> cword k \<and> hd k \<noteq> 35 \<and> mid \<noteq> [] \<and> blanks mid \<and> cword v
     \<and> plain post \<and> (post = [] \<or> isspace (hd post))"

fun cline_pair :: "cline \<Rightarrow> (u8 list \<times> u8 list) option" where
  "cline_pair (Setting pre k mid v post) = Some (k, v)"
| "cline_pair _ = None"

definition cfile :: "cline list \<Rightarrow> u8 list" where
  "cfile ls = concat (map (\<lambda>l. cline_text l @ [10]) ls)"

fun apply_settings :: "int \<Rightarrow> cline list \<Rightarrow> config \<Rightarrow> config res" where
  "apply_settings M [] c = Inr c"
| "apply_settings M (l # ls) c = (case cline_pair l of None \<Rightarrow> apply_settings M ls c
     | Some (k, v) \<Rightarrow> rbind (add_config_value M k v c) (apply_settings M ls))"

lemma isspace_10 [simp]: "isspace 10"
  by (simp add: isspace_def)

lemma blanks_plain: "blanks s \<Longrightarrow> plain s"
  by (auto simp: blanks_def plain_def)

lemma cword_plain: "cword s \<Longrightarrow> plain s"
  by (auto simp: cword_def plain_def wchar_def)

lemma plain_append [simp]: "plain (s @ t) \<longleftrightarrow> plain s \<and> plain t" "plain (c # s) \<longleftrightarrow> c \<noteq> 10 \<and> c \<noteq> 0 \<and> plain s"
  by (auto simp: plain_def)

lemma cline_plain: "cline_ok l \<Longrightarrow> plain (cline_text l)"
  by (cases l) (auto intro: blanks_plain cword_plain)

lemma fgets_line: "plain s \<Longrightarrow> length s < 254 \<Longrightarrow> fgets 254 (s @ 10 # rest) = Some (s @ [10], rest)"
proof -
  assume s: "plain s" "length s < 254"
  have "takeWhile (\<lambda>c. c \<noteq> 10) (s @ 10 # rest) = s"
    using s(1) by (subst takeWhile_append2) (auto simp: plain_def)
  moreover have "min 254 (Suc (length s)) = Suc (length s)" using s(2) by simp
  ultimately show ?thesis by (simp add: fgets_def Let_def)
qed

lemma str_of_plain: "plain s \<Longrightarrow> str_of (s @ [10]) = s @ [10]"
  unfolding str_of_def by (auto simp: plain_def takeWhile_eq_all_conv)

lemma dropWhile_blanks: "blanks s \<Longrightarrow> dropWhile isspace (s @ t) = dropWhile isspace t"
  by (subst dropWhile_append2) (auto simp: blanks_def)

lemma dropWhile_cword: "cword w \<Longrightarrow> dropWhile isspace (w @ t) = w @ t"
  by (cases w) (auto simp: cword_def wchar_def)

lemma word_split: "cword w \<Longrightarrow> t = [] \<or> \<not> wchar (hd t) \<Longrightarrow> takeWhile wchar (w @ t) = w \<and> dropWhile wchar (w @ t) = t"
  by (cases t) (auto simp: cword_def)

lemma line_pair_cline:
  assumes "cline_ok l"
  shows "line_pair (cline_text l @ [10]) = cline_pair l"
proof (cases l)
  case (Comment s)
  then show ?thesis using str_of_plain [OF cline_plain [OF assms]] by (simp add: line_pair_def Let_def)
next
  case (Blank s)
  have "hd (s @ [10]) \<noteq> 35" using assms Blank by (cases s) (auto simp: blanks_def isspace_def)
  moreover have "dropWhile isspace (s @ [10]) = []" using assms Blank by (simp add: dropWhile_blanks)
  ultimately show ?thesis using str_of_plain [OF cline_plain [OF assms]] Blank
    by (simp add: line_pair_def Let_def strip_spaces_dropWhile)
next
  case (Setting pre k mid v post)
  let ?post = "post @ [10]"
  have ok: "blanks pre" "cword k" "hd k \<noteq> 35" "mid \<noteq> []" "blanks mid" "cword v" "post = [] \<or> isspace (hd post)"
    using assms Setting by auto
  have mid: "\<not> wchar (hd (mid @ v @ ?post))" using ok(4,5) by (cases mid) (auto simp: blanks_def wchar_def)
  have post: "\<not> wchar (hd ?post)" using ok(7) by (cases post) (auto simp: wchar_def)
  have hd: "hd (pre @ k @ mid @ v @ ?post) \<noteq> 35"
    using ok(1,2,3) by (cases pre; cases k) (auto simp: blanks_def isspace_def cword_def)
  show ?thesis
    using str_of_plain [OF cline_plain [OF assms]] hd Setting ok
      word_split [OF ok(2), of "mid @ v @ ?post"] word_split [OF ok(6), of ?post] mid post
    by (simp add: line_pair_def Let_def strip_spaces_dropWhile dropWhile_blanks dropWhile_cword)
qed

text \<open>
  C37 (config_file_settings): a file of comments, blank lines and settings, each at most 253 characters long, is loaded as exactly its settings in
  order, the later ones overriding the earlier ones: white space, comments and what follows a value make no difference.
\<close>

theorem config_file_settings:
  assumes "\<forall>l \<in> set ls. cline_ok l \<and> length (cline_text l) < 254"
  shows "config_load M (Some (cfile ls)) c = rbind (apply_settings M ls c) (\<lambda>c'. Inr (True, c'))"
proof -
  have "config_lines M (cfile ls) c = apply_settings M ls c" using assms
  proof (induction ls arbitrary: c)
    case Nil
    then show ?case by (simp add: cfile_def config_lines.simps [of M "[]"] fgets_def)
  next
    case (Cons l ls)
    then have l: "cline_ok l" "length (cline_text l) < 254" by auto
    have "fgets 254 (cfile (l # ls)) = Some (cline_text l @ [10], cfile ls)"
      using fgets_line [OF cline_plain [OF l(1)] l(2)] by (simp add: cfile_def)
    moreover have "config_line M (cline_text l @ [10]) c
        = (case cline_pair l of None \<Rightarrow> Inr c | Some (k, v) \<Rightarrow> add_config_value M k v c)" for c
      using l by (simp add: config_line_pair line_pair_cline)
    moreover have "config_lines M (cfile ls) = apply_settings M ls" using Cons by (simp add: fun_eq_iff)
    ultimately show ?case
      by (simp add: config_lines.simps [of M "cfile (l # ls)"] split: option.splits)
  qed
  then show ?thesis by (simp add: config_load_def)
qed

theorem config_file_settings_witness:
  "config_load 128 (Some (cfile [Comment (bytes '' sol''), Setting [] (bytes ''ip_port'') [32] (bytes ''8883'') []])) sample_config
    = rbind (apply_settings 128 [Comment (bytes '' sol''), Setting [] (bytes ''ip_port'') [32] (bytes ''8883'') []] sample_config)
        (\<lambda>c'. Inr (True, c'))"
  by (rule config_file_settings)
     (simp add: bytes_def of_char_def plain_def blanks_def cword_def wchar_def isspace_def)

section \<open>Lines that are not well-formed\<close>

text \<open>
  The test for an incomplete line looks at the start of the line instead of the rest of it, so a key without a value is a setting with an empty
  value, and a key is recognised by any prefix of its name: here a lone \<^verbatim>\<open>max_r\<close> sets the request size to 0. The level loop stops after
  three of the five names: \<^verbatim>\<open>INFO\<close> is not a level.
\<close>

lemma config_incomplete_line:
  "config_line M (bytes ''max_r'' @ [10]) c = Inr (c\<lparr>max_request_size := 0\<rparr>)"
proof -
  have "line_pair (bytes ''max_r'' @ [10]) = Some (bytes ''max_r'', [])" by code_simp
  moreover have "\<not> streq (bytes ''log_level'') (bytes ''max_r'') 5" "\<not> streq (bytes ''log_path'') (bytes ''max_r'') 5"
    "\<not> streq (bytes ''unix_socket'') (bytes ''max_r'') 5" "\<not> streq (bytes ''ip_address'') (bytes ''max_r'') 5"
    "\<not> streq (bytes ''ip_port'') (bytes ''max_r'') 5" "\<not> streq (bytes ''max_memory'') (bytes ''max_r'') 5"
    "streq (bytes ''max_request_size'') (bytes ''max_r'') 5" by code_simp+
  moreover have "read_memory_with_mul [] = Inr 0" by code_simp
  moreover have "length (bytes ''max_r'') = 5" by (simp add: bytes_def)
  ultimately show ?thesis by (simp add: config_line_pair add_config_value_def Let_def)
qed

lemma config_info_ignored:
  "add_config_value M (bytes ''log_level'') (bytes ''INFO'') c = Inr c"
proof -
  have "streq (bytes ''log_level'') (bytes ''log_level'') 9" "\<not> streq (bytes ''DEBUG'') (bytes ''INFO'') 4"
    "\<not> streq (bytes ''WARNING'') (bytes ''INFO'') 4" "\<not> streq (bytes ''ERROR'') (bytes ''INFO'') 4" by code_simp+
  moreover have "length (bytes ''log_level'') = 9" "length (bytes ''INFO'') = 4" by (simp_all add: bytes_def)
  ultimately show ?thesis by (simp add: add_config_value_def lmap_def numeral_3_eq_3)
qed

end
