(* ===== verification/Server.thy ===== *)
theory Server
  imports Core Mqtt_Wire Network Config
begin

text \<open>
  \<^verbatim>\<open>src/sol/src/server.c\<close> and \<^verbatim>\<open>server.h\<close>: accepting clients, receiving a packet, the handlers, sending replies, the
  statistics, and starting the server.

  \<^item> the state \<open>srv\<close> holds the broker (\<open>sol\<close>), the objects it points to, the counters, the event loop, and the sockets: what each descriptor
    will deliver (\<open>sv_rx\<close>), how much it accepts (\<open>sv_tx\<close>), the bytes that went out on it (\<open>sv_wire\<close>) and the descriptors closed.
  \<^item> \<open>senv\<close> holds what the code does not decide: the configuration, \<^verbatim>\<open>calloc\<close>, the answers of the kernel, the identifiers \<^verbatim>\<open>generate_uuid\<close>
    makes, and the handlers that are declared but have no body (\<^verbatim>\<open>puback\<close>, \<^verbatim>\<open>pubrec\<close>, \<^verbatim>\<open>pubcomp\<close>, \<^verbatim>\<open>pingreq\<close>). \<open>se_fuel\<close> bounds the loop of \<open>hashtable_put\<close>.
  \<^item> a handler takes the address of the closure and the packet and returns its code and the new state. The arguments of a log line are
    evaluated even when nothing is printed: a dereference in them is part of the model, the text is not.
  \<^item> the counters are unbounded integers. \<^verbatim>\<open>on_accept\<close> names its closure in three spellings; it is one closure here.
\<close>

unbundle bit_operations_syntax

section \<open>State\<close>

record sol_info =
  nclients :: int
  nconnections :: int
  start_time :: int
  bytes_recv :: int
  bytes_sent :: int
  messages_sent :: int
  messages_recv :: int

record srv =
  sv_sol :: sol
  sv_mem :: omem
  sv_info :: sol_info
  sv_loop :: evloop
  sv_net :: "nat net"
  sv_rx :: "int \<Rightarrow> sk_event list"
  sv_tx :: "int \<Rightarrow> snd_event list"
  sv_wire :: "int \<Rightarrow> u8 list"
  sv_closed :: "int list"

type_synonym handler = "nat \<Rightarrow> mqtt_packet \<Rightarrow> srv \<Rightarrow> (int \<times> srv) res"

record senv =
  se_conf :: config
  se_can :: "u64 \<Rightarrow> bool"
  se_fuel :: nat
  se_kern :: "nat kern"
  se_getpeername :: "int \<Rightarrow> bool"
  se_peer_ip :: "int \<Rightarrow> u8 list option"
  se_getsockname :: "int \<Rightarrow> bool"
  se_uuid :: "nat \<Rightarrow> u8 list"
  se_puback :: handler
  se_pubrec :: handler
  se_pubcomp :: handler
  se_pingreq :: handler

abbreviation (input) ERRCLIENTDC :: int where "ERRCLIENTDC \<equiv> 1"
abbreviation (input) ERRPACKETERR :: int where "ERRPACKETERR \<equiv> 2"
abbreviation (input) ERRMAXREQSIZE :: int where "ERRMAXREQSIZE \<equiv> 3"
abbreviation (input) REARM_R :: int where "REARM_R \<equiv> 0"
abbreviation (input) REARM_W :: int where "REARM_W \<equiv> 1"

section \<open>Sockets of the server\<close>

definition srv_send :: "int \<Rightarrow> u8 list \<Rightarrow> srv \<Rightarrow> int \<times> srv" where
  "srv_send fd buf s =
     (let (rc, out, q) = send_bytes (sv_tx s fd) buf
      in (rc, s\<lparr>sv_tx := (sv_tx s)(fd := q), sv_wire := (sv_wire s)(fd := sv_wire s fd @ out)\<rparr>))"

definition srv_recv :: "int \<Rightarrow> nat \<Rightarrow> srv \<Rightarrow> int \<times> u8 list \<times> srv" where
  "srv_recv fd n s =
     (let (rc, got, q) = recv_bytes (sv_rx s fd) n in (rc, got, s\<lparr>sv_rx := (sv_rx s)(fd := q)\<rparr>))"

text \<open>Closing a descriptor also takes it out of the epoll set.\<close>

definition srv_close :: "int \<Rightarrow> srv \<Rightarrow> srv" where
  "srv_close fd s = s\<lparr>sv_closed := fd # sv_closed s,
     sv_loop := (sv_loop s)\<lparr>el_epoll := (el_epoll (sv_loop s))(fd := None)\<rparr>\<rparr>"

text \<open>Reporting events uses up the one-shot registrations.\<close>

definition srv_report :: "ep_event list \<Rightarrow> srv \<Rightarrow> srv" where
  "srv_report es s = s\<lparr>sv_loop := (sv_loop s)\<lparr>el_epoll := epoll_report es (el_epoll (sv_loop s))\<rparr>\<rparr>"

definition upd_info :: "(sol_info \<Rightarrow> sol_info) \<Rightarrow> srv \<Rightarrow> srv" where
  "upd_info f s = s\<lparr>sv_info := f (sv_info s)\<rparr>"

definition client_gone :: "srv \<Rightarrow> srv" where
  "client_gone s = upd_info (\<lambda>i. i\<lparr>nclients := nclients i - 1, nconnections := nconnections i - 1\<rparr>) s"

definition put_mem :: "omem \<Rightarrow> srv \<Rightarrow> srv" where
  "put_mem m s = s\<lparr>sv_mem := m\<rparr>"

definition put_closure :: "nat \<Rightarrow> closure \<Rightarrow> srv \<Rightarrow> srv" where
  "put_closure a c s = put_mem (set_closure a c (sv_mem s)) s"

definition get_closure :: "nat \<Rightarrow> srv \<Rightarrow> closure res" where
  "get_closure a s = deref_at (om_closures (sv_mem s)) (Some a)"

definition get_client :: "nat option \<Rightarrow> srv \<Rightarrow> sol_client res" where
  "get_client p s = deref_at (om_clients (sv_mem s)) p"

text \<open>The characters of a C string in a block.\<close>

definition cstring :: "block \<Rightarrow> u8 list res" where
  "cstring b = rbind (strlen b) (read_cells b)"

definition char_at :: "block \<Rightarrow> int \<Rightarrow> u8 res" where
  "char_at b i = (if i < 0 \<or> int (length b) \<le> i then Inl Over_read
     else case b ! nat i of None \<Rightarrow> Inl Uninit_read | Some c \<Rightarrow> Inr c)"

section \<open>Destructors and tables\<close>

text \<open>An entry that does not point to a live object sets \<open>om_bad\<close>, which the caller turns into a fault.\<close>

definition client_destructor :: "nat hentry \<Rightarrow> omem \<Rightarrow> int \<times> omem" where
  "client_destructor entry m = (0,
     case he_val entry of None \<Rightarrow> m\<lparr>om_bad := True\<rparr>
     | Some a \<Rightarrow> (case om_clients m a of None \<Rightarrow> m\<lparr>om_bad := True\<rparr>
                  | Some c \<Rightarrow> m\<lparr>om_clients := (om_clients m)(a := None)\<rparr>))"

definition closure_destructor :: "nat hentry \<Rightarrow> omem \<Rightarrow> int \<times> omem" where
  "closure_destructor entry m = (0,
     case he_val entry of None \<Rightarrow> m\<lparr>om_bad := True\<rparr>
     | Some a \<Rightarrow> (case om_closures m a of None \<Rightarrow> m\<lparr>om_bad := True\<rparr>
                  | Some c \<Rightarrow> m\<lparr>om_closures := (om_closures m)(a := None)\<rparr>))"

definition del_client :: "u8 list \<Rightarrow> srv \<Rightarrow> srv res" where
  "del_client key s =
     (let (t, m, st) = hashtable_del (sol_clients (sv_sol s)) key (sv_mem s)
      in if om_bad m then Inl Use_after_free
         else Inr (s\<lparr>sv_sol := (sv_sol s)\<lparr>sol_clients := t\<rparr>, sv_mem := m\<rparr>))"

definition del_closure :: "u8 list \<Rightarrow> srv \<Rightarrow> srv res" where
  "del_closure key s =
     (let (t, m, st) = hashtable_del (sol_closures (sv_sol s)) key (sv_mem s)
      in if om_bad m then Inl Use_after_free
         else Inr (s\<lparr>sv_sol := (sv_sol s)\<lparr>sol_closures := t\<rparr>, sv_mem := m\<rparr>))"

definition table_put :: "senv \<Rightarrow> (nat, omem) hashtable \<Rightarrow> u8 list \<Rightarrow> nat \<Rightarrow> (nat, omem) hashtable res" where
  "table_put E t key a = (case hashtable_put (se_can E) (se_fuel E) t key (Some a) of
     None \<Rightarrow> Inl Out_of_fuel | Some (t', st) \<Rightarrow> if st = HT_OOB then Inl Over_write else Inr t')"

section \<open>Accepting\<close>

text \<open>The connection is \<open>None\<close> where the structure was not filled in.\<close>

definition accept_new_client :: "senv \<Rightarrow> int \<Rightarrow> srv \<Rightarrow> int \<times> (int \<times> u8 list) option \<times> srv" where
  "accept_new_client E fd s =
     (let (clientsock, n) = accept_connection (se_kern E) (socket_family (se_conf E)) fd (sv_net s);
          s = s\<lparr>sv_net := n\<rparr>
      in if clientsock = - 1 then (- 1, None, s)
         else if \<not> se_getpeername E clientsock then (- 1, None, s)
         else case se_peer_ip E clientsock of None \<Rightarrow> (- 1, None, s)
           | Some ip \<Rightarrow> if \<not> se_getsockname E fd then (- 1, None, s) else (0, Some (clientsock, ip), s))"

definition on_accept :: "senv \<Rightarrow> nat \<Rightarrow> srv \<Rightarrow> srv res" where
  "on_accept E server s =
     rbind (get_closure server s) (\<lambda>sc.
     let (rc, conn, s) = accept_new_client E (cb_fd sc) s in
     case conn of None \<Rightarrow> Inl Uninit_read
     | Some (fd, ip) \<Rightarrow>
         let a = om_next (sv_mem s); uuid = se_uuid E a;
             c = \<lparr>cb_fd = fd, cb_obj = None, cb_args = a, cb_closure_id = uuid, cb_payload = None, cb_call = On_read\<rparr>;
             s = put_mem ((set_closure a c (sv_mem s))\<lparr>om_next := Suc a\<rparr>) s
         in rbind (table_put E (sol_closures (sv_sol s)) uuid a) (\<lambda>t.
            let s = s\<lparr>sv_sol := (sv_sol s)\<lparr>sol_closures := t\<rparr>,
                      sv_loop := snd (evloop_rearm_callback_read (evloop_add_callback (sv_loop s) fd a) (cb_fd sc) server)\<rparr>
            in Inr (upd_info (\<lambda>i. i\<lparr>nclients := nclients i + 1, nconnections := nconnections i + 1\<rparr>) s)))"

section \<open>The handlers\<close>

text \<open>\<^verbatim>\<open>cb->payload = bytestring_create(n); memcpy(cb->payload->data, p, n)\<close>\<close>

definition set_payload :: "nat \<Rightarrow> block \<Rightarrow> nat \<Rightarrow> srv \<Rightarrow> srv res" where
  "set_payload cb p n s =
     rbind (get_closure cb s) (\<lambda>c.
     rbind (bytestring_fill (bytestring_create n) p n) (\<lambda>b. Inr (put_closure cb (c\<lparr>cb_payload := Some b\<rparr>) s)))"

text \<open>A packet of \<^verbatim>\<open>MQTT_ACK_LEN\<close> bytes as the reply of a closure.\<close>

definition reply :: "nat \<Rightarrow> mqtt_packet \<Rightarrow> nat \<Rightarrow> srv \<Rightarrow> (int \<times> srv) res" where
  "reply cb pkt type s =
     rbind (pack_mqtt_packet pkt type) (\<lambda>p. rbind (set_payload cb p MQTT_ACK_LEN s) (\<lambda>s. Inr (REARM_W, s)))"

definition connect_handler :: "senv \<Rightarrow> handler" where
  "connect_handler E cb pkt s = (case pkt of Pkt_connect p \<Rightarrow>
     (case con_client_id p of None \<Rightarrow> Inl Assert_fail
      | Some b \<Rightarrow>
        rbind (cstring b) (\<lambda>cid.
        rbind (get_closure cb s) (\<lambda>c.
        if hashtable_exists (sol_clients (sv_sol s)) cid \<noteq> 0 then
          let s = srv_close (cb_fd c) s in
          rbind (del_client cid s) (\<lambda>s.
          rbind (del_closure (cb_closure_id c) s) (\<lambda>s. Inr (- REARM_W, client_gone s)))
        else
          let a = om_next (sv_mem s);
              new_client = \<lparr>sc_client_id = cid, sc_fd = cb_fd c,
                            sc_subscriptions = (if con_clean_session (con_byte p) then None else Some [])\<rparr>;
              s = put_mem ((set_client a new_client (sv_mem s))\<lparr>om_next := Suc a\<rparr>) s
          in rbind (table_put E (sol_clients (sv_sol s)) cid a) (\<lambda>t.
             let s = put_closure cb (c\<lparr>cb_obj := Some a\<rparr>) (s\<lparr>sv_sol := (sv_sol s)\<lparr>sol_clients := t\<rparr>\<rparr>);
                 session_present = 0; rc = 0
             in reply cb (Pkt_connack (mqtt_packet_connack CONNACK_BYTE (session_present AND 1) rc)) CONNACK s))))
   | _ \<Rightarrow> Inl Type_confusion)"

definition disconnect_handler :: handler where
  "disconnect_handler cb pkt s =
     rbind (get_closure cb s) (\<lambda>c.
     rbind (get_client (cb_obj c) s) (\<lambda>cl.
     let s = srv_close (sc_fd cl) s in
     rbind (del_client (sc_client_id cl) s) (\<lambda>s.
     rbind (del_closure (cb_closure_id c) s) (\<lambda>s. Inr (- REARM_W, client_gone s)))))"

text \<open>
  The callback of the wildcard subscription. It goes down by itself, although \<^verbatim>\<open>trie_prefix_map_tuple\<close> already calls it for every node.
\<close>

fun recursive_subscription :: "nat tnode \<Rightarrow> nat \<Rightarrow> omem \<Rightarrow> omem res"
  and recursive_subscriptions :: "nat tnode list \<Rightarrow> nat \<Rightarrow> omem \<Rightarrow> omem res" where
  "recursive_subscription (TNode ch children data) sub m =
     (case data of None \<Rightarrow> Inr m
      | Some t \<Rightarrow> rbind (recursive_subscriptions children sub m) (push_subscriber (Some t) sub))"
| "recursive_subscriptions [] sub m = Inr m"
| "recursive_subscriptions (n # ns) sub m =
     rbind (recursive_subscription n sub m) (recursive_subscriptions ns sub)"

text \<open>
  One round of the loop over the tuples. \<open>wildcard\<close> and \<open>alloced\<close> are declared outside the loop and never reset; \<open>dangling\<close> tells that a topic
  string of the packet has been freed, which \<^verbatim>\<open>mqtt_packet_release\<close> will free again.
\<close>

definition subscribe_topic :: "block \<Rightarrow> u16 \<Rightarrow> bool \<Rightarrow> bool \<Rightarrow> (u8 list \<times> bool \<times> bool \<times> bool) res" where
  "subscribe_topic topic len wildcard alloced =
     rbind (char_at topic (int (unat len) - 1)) (\<lambda>last.
     rbind (if last = 35 then rbind (char_at topic (int (unat len) - 2)) (\<lambda>c. Inr (c = 47)) else Inr False) (\<lambda>hash.
       if hash then
         rbind (read_cells topic (length topic)) (\<lambda>bs.
         rbind (remove_occur bs 35) (\<lambda>bs. Inr (str_of bs, True, alloced, True)))
       else if last \<noteq> 47 then
         rbind (append_string topic (cstr [47]) 1) (\<lambda>b. rbind (cstring b) (\<lambda>name. Inr (name, wildcard, True, False)))
       else rbind (cstring topic) (\<lambda>name. Inr (name, wildcard, alloced, True))))"

definition subscribe_name :: "nat option \<Rightarrow> u8 list \<Rightarrow> u32 \<Rightarrow> bool \<Rightarrow> sol \<times> omem \<Rightarrow> (sol \<times> omem) res" where
  "subscribe_name obj name qos wildcard st = (case st of (sol, m) \<Rightarrow>
     rbind (case sol_topic_get sol name of
         None \<Rightarrow> (let (t, m) = topic_create name m in rbind (sol_topic_put sol (Some t) m) (\<lambda>sol. Inr (t, sol, m)))
       | Some t \<Rightarrow>
           if wildcard then
             let (sub, m) = new_subscriber obj qos m in
             rbind (trie_prefix_map_tuple (sol_topics sol) (Some name)
                      (\<lambda>node r. rbind r (recursive_subscription node sub)) (Inr m)) (\<lambda>m. Inr (t, sol, m))
           else Inr (t, sol, m))
       (\<lambda>(t, sol, m). rbind (topic_add_subscriber (Some t) obj qos True m) (\<lambda>m. Inr (sol, m))))"

fun subscribe_tuples :: "nat option \<Rightarrow> nat \<Rightarrow> sub_tuple list \<Rightarrow> bool \<Rightarrow> bool \<Rightarrow> bool \<Rightarrow> sol \<times> omem
    \<Rightarrow> (u8 list \<times> bool \<times> sol \<times> omem) res" where
  "subscribe_tuples obj 0 ts wildcard alloced dangling st = Inr ([], dangling, st)"
| "subscribe_tuples obj (Suc n) [] wildcard alloced dangling st = Inl Over_read"
| "subscribe_tuples obj (Suc n) (t # ts) wildcard alloced dangling st =
     rbind (deref_at (om_clients (snd st)) obj) (\<lambda>_.
     rbind (deref (st_topic t)) (\<lambda>topic.
     rbind (subscribe_topic topic (st_topic_len t) wildcard alloced) (\<lambda>(name, wildcard, alloced, own).
     rbind (subscribe_name obj name (st_qos t) wildcard st) (\<lambda>st.
     rbind (subscribe_tuples obj n ts wildcard alloced (dangling \<or> alloced \<and> own) st) (\<lambda>(rcs, dangling, st).
       Inr (ucast (st_qos t) # rcs, dangling, st))))))"

definition subscribe_handler :: handler where
  "subscribe_handler cb pkt s = (case pkt of Pkt_subscribe p \<Rightarrow>
     rbind (get_closure cb s) (\<lambda>c.
     rbind (subscribe_tuples (cb_obj c) (unat (sub_tuples_len p)) (sub_tuples p) False False False (sv_sol s, sv_mem s))
       (\<lambda>(rcs, dangling, sol, m).
     let s = s\<lparr>sv_sol := sol, sv_mem := m\<rparr> in
     rbind (mqtt_packet_suback SUBACK_BYTE (sub_pkt_id p) rcs (sub_tuples_len p)) (\<lambda>suback.
     if dangling then Inl Use_after_free
     else rbind (mqtt_packet_release pkt SUBSCRIBE) (\<lambda>_.
       let pkt = Pkt_suback suback in
       rbind (pack_mqtt_packet pkt SUBACK) (\<lambda>packed.
       let len = MQTT_HEADER_LEN + 2 + unat (sack_rcslen suback) in
       rbind (set_payload cb packed len s) (\<lambda>s.
       rbind (mqtt_packet_release pkt SUBACK) (\<lambda>_.
       rbind (get_client (cb_obj c) s) (\<lambda>_. Inr (REARM_W, s)))))))))
   | _ \<Rightarrow> Inl Type_confusion)"

definition unsubscribe_handler :: handler where
  "unsubscribe_handler cb pkt s = (case pkt of Pkt_unsubscribe p \<Rightarrow>
     rbind (get_closure cb s) (\<lambda>c.
     rbind (get_client (cb_obj c) s) (\<lambda>_.
       reply cb (Pkt_ack (mqtt_packet_ack UNSUBACK_BYTE (unsub_pkt_id p))) UNSUBACK s))
   | _ \<Rightarrow> Inl Type_confusion)"

section \<open>Publishing\<close>

text \<open>
  The loop over the subscribers of a topic, the same in \<^verbatim>\<open>publish_handler\<close> and \<^verbatim>\<open>publish_message\<close>: the QoS bits of the packet are those of the
  last subscriber seen. (In \<^verbatim>\<open>publish_message\<close> the result of \<^verbatim>\<open>send_bytes\<close> is kept in a \<^verbatim>\<open>size_t\<close>; adding it to the counter has the same effect.)
\<close>

fun publish_to :: "nat list \<Rightarrow> mqtt_publish \<Rightarrow> srv \<Rightarrow> (mqtt_publish \<times> srv) res" where
  "publish_to [] p s = Inr (p, s)"
| "publish_to (a # subs) p s =
     rbind (deref_at (om_subs (sv_mem s)) (Some a)) (\<lambda>sub.
     rbind (get_client (su_client sub) s) (\<lambda>sc.
     let p = p\<lparr>pub_header := set_hdr_qos (su_qos sub) (pub_header p)\<rparr>;
         publen = publish_base_len p;
         publen = publen + remaininglen_offset publen in
     rbind (pack_mqtt_packet (Pkt_publish p) PUBLISH) (\<lambda>pub.
     rbind (read_cells pub (unat publen)) (\<lambda>bytes.
     let (sent, s) = srv_send (sc_fd sc) bytes s;
         s = upd_info (\<lambda>i. i\<lparr>bytes_sent := bytes_sent i + sent, messages_sent := messages_sent i + 1\<rparr>) s
     in publish_to subs p s))))"

definition publish_topic :: "mqtt_publish \<Rightarrow> u8 list res" where
  "publish_topic p =
     rbind (deref (pub_topic p)) (\<lambda>topic.
     rbind (char_at topic (int (unat (pub_topiclen p)) - 1)) (\<lambda>last.
       if last \<noteq> 47 then rbind (append_string topic (cstr [47]) 1) cstring else cstring topic))"

text \<open>The topic with this name, created when there is none.\<close>

definition topic_for :: "u8 list \<Rightarrow> srv \<Rightarrow> (nat \<times> srv) res" where
  "topic_for name s = (case sol_topic_get (sv_sol s) name of
     Some t \<Rightarrow> Inr (t, s)
   | None \<Rightarrow> (let (t, m) = topic_create name (sv_mem s) in
       rbind (sol_topic_put (sv_sol s) (Some t) m) (\<lambda>sol. Inr (t, s\<lparr>sv_sol := sol, sv_mem := m\<rparr>))))"

definition publish_handler :: handler where
  "publish_handler cb pkt s = (case pkt of Pkt_publish p \<Rightarrow>
     rbind (get_closure cb s) (\<lambda>c.
     rbind (get_client (cb_obj c) s) (\<lambda>_.
     let s = upd_info (\<lambda>i. i\<lparr>messages_recv := messages_recv i + 1\<rparr>) s;
         qos = hdr_qos (pub_header p) in
     rbind (publish_topic p) (\<lambda>name.
     rbind (topic_for name s) (\<lambda>(t, s).
     rbind (deref_at (om_topics (sv_mem s)) (Some t)) (\<lambda>tp.
     rbind (publish_to (tp_subs tp) p s) (\<lambda>(p, s).
     rbind (mqtt_packet_release (Pkt_publish p) PUBLISH) (\<lambda>_.
       if qos = AT_LEAST_ONCE then reply cb (Pkt_ack (mqtt_packet_ack PUBACK_BYTE (pub_pkt_id p))) PUBACK s
       else if qos = EXACTLY_ONCE then reply cb (Pkt_ack (mqtt_packet_ack PUBREC_BYTE (pub_pkt_id p))) PUBREC s
       else Inr (REARM_R, s))))))))
   | _ \<Rightarrow> Inl Type_confusion)"

definition publish_message :: "u16 \<Rightarrow> u8 list \<Rightarrow> u8 list \<Rightarrow> srv \<Rightarrow> srv res" where
  "publish_message pkt_id topic payload s =
     (case sol_topic_get (sv_sol s) topic of None \<Rightarrow> Inr s
      | Some t \<Rightarrow>
          let p = mqtt_packet_publish PUBLISH_BYTE pkt_id (of_nat (length topic)) (Some (cstr topic))
                    (of_nat (length payload)) (Some (cstr payload)) in
          rbind (deref_at (om_topics (sv_mem s)) (Some t)) (\<lambda>tp.
          rbind (publish_to (tp_subs tp) p s) (\<lambda>(p, s). Inr s)))"

text \<open>\<^verbatim>\<open>char buf[number_len(n) + 1]; sprintf(buf, "%d", n)\<close>: the text and its zero must fit.\<close>

definition sprint_num :: "int \<Rightarrow> u8 list res" where
  "sprint_num n = (if length (dec_int n) < number_len (of_int n) + 1 then Inr (dec_int n) else Inl Over_write)"

definition sys_topics :: "u8 list list" where
  "sys_topics = map bytes
     [''$SOL/'', ''$SOL/broker/'', ''$SOL/broker/clients/'', ''$SOL/broker/bytes/'', ''$SOL/broker/messages/'',
      ''$SOL/broker/uptime/'', ''$SOL/broker/uptime/sol'', ''$SOL/broker/clients/connected/'',
      ''$SOL/broker/clients/disconnected/'', ''$SOL/broker/bytes/sent/'', ''$SOL/broker/bytes/received/'',
      ''$SOL/broker/messages/sent/'', ''$SOL/broker/messages/received/'', ''$SOL/broker/memory/used'']"

text \<open>
  \<open>now\<close> is the result of \<^verbatim>\<open>time(NULL)\<close>; \<open>sutime\<close> is what \<^verbatim>\<open>sprintf\<close> makes of the quotient of doubles, a text that must fit 16 bytes with
  its zero.
\<close>

definition publish_stats :: "int \<Rightarrow> u8 list \<Rightarrow> srv \<Rightarrow> srv res" where
  "publish_stats now sutime s =
     (let i = sv_info s in
      rbind (sprint_num (nclients i)) (\<lambda>cclients.
      rbind (sprint_num (bytes_sent i)) (\<lambda>bsent.
      rbind (sprint_num (messages_sent i)) (\<lambda>msent.
      rbind (sprint_num (messages_recv i)) (\<lambda>mrecv.
      rbind (sprint_num (now - start_time i)) (\<lambda>utime.
      rbind (guard (length sutime < 16) Over_write) (\<lambda>_.
      rbind (publish_message 0 (sys_topics ! 5) utime s) (\<lambda>s.
      rbind (publish_message 0 (sys_topics ! 6) sutime s) (\<lambda>s.
      rbind (publish_message 0 (sys_topics ! 7) cclients s) (\<lambda>s.
      rbind (publish_message 0 (sys_topics ! 9) bsent s) (\<lambda>s.
      rbind (publish_message 0 (sys_topics ! 11) msent s) (\<lambda>s.
             publish_message 0 (sys_topics ! 12) mrecv s))))))))))))"

section \<open>Reading and writing\<close>

text \<open>Bytes that \<^verbatim>\<open>recv_bytes\<close> stores at offset \<open>off\<close> of the request buffer.\<close>

definition store_at :: "nat \<Rightarrow> u8 list \<Rightarrow> block \<Rightarrow> block res" where
  "store_at off bs b = (if bs = [] then Inr b
     else rbind (write_mem (b, off) bs) (\<lambda>p. Inr (fst p)))"

text \<open>
  The loop that reads the remaining length, at most four bytes of which fit \<^verbatim>\<open>buff\<close>. \<open>None\<close> is a client that went away. \<open>n\<close> bounds the rounds:
  the fifth one ends in a fault anyway.
\<close>

fun recv_length :: "nat \<Rightarrow> int \<Rightarrow> nat \<Rightarrow> u8 list \<Rightarrow> block \<Rightarrow> srv \<Rightarrow> (u8 list option \<times> block \<times> srv) res" where
  "recv_length 0 fd cnt buff buf s = Inl Out_of_fuel"
| "recv_length (Suc n) fd cnt buff buf s =
     (let (rc, got, s) = srv_recv fd 1 s in
      if rc \<le> 0 then Inr (None, buf, s)
      else rbind (store_at (1 + cnt) got buf) (\<lambda>buf.
        if cnt \<ge> 4 then Inl Over_write
        else if hd got AND 128 \<noteq> 0 then recv_length n fd (cnt + 1) (buff @ got) buf s
        else Inr (Some (buff @ got), buf, s)))"

text \<open>The result is the return value, the buffer, \<^verbatim>\<open>*command\<close> and the state.\<close>

definition recv_packet :: "senv \<Rightarrow> int \<Rightarrow> block \<Rightarrow> srv \<Rightarrow> (int \<times> block \<times> u8 \<times> srv) res" where
  "recv_packet E clientfd buf s =
     (let (nbytes, got, s) = srv_recv clientfd 1 s in
      if nbytes \<le> 0 then Inr (- ERRCLIENTDC, buf, 0, s)
      else rbind (store_at 0 got buf) (\<lambda>buf.
        let byte = hd got in
        if 14 < byte \<or> 1 > byte then Inr (- ERRPACKETERR, buf, 0, s)
        else rbind (recv_length 5 clientfd 0 [] buf s) (\<lambda>(r, buf, s).
          case r of None \<Rightarrow> Inr (- ERRCLIENTDC, buf, 0, s)
          | Some buff \<Rightarrow>
            let nbytes = nbytes + int (length buff) in
            rbind (mqtt_decode_length buff) (\<lambda>(tlen, _).
              if tlen > max_request_size (se_conf E) then Inr (- ERRMAXREQSIZE, buf, 0, s)
              else
                let (n, got, s) = srv_recv clientfd (unat tlen) s in
                rbind (store_at 2 got buf) (\<lambda>buf.
                  if n < 0 then Inr (nbytes, buf, 0, srv_close clientfd s)
                  else Inr (nbytes + n, buf, byte, s))))))"

definition handlers :: "senv \<Rightarrow> handler option list" where
  "handlers E = [None, Some (connect_handler E), None, Some publish_handler, Some (se_puback E), Some (se_pubrec E),
     Some (se_pubcomp E), Some subscribe_handler, None, Some unsubscribe_handler, None, Some (se_pingreq E), None,
     Some disconnect_handler, None]"

text \<open>The bytes of the buffer that have been written.\<close>

definition written :: "block \<Rightarrow> u8 list" where
  "written b = map the (takeWhile (\<lambda>x. x \<noteq> None) b)"

text \<open>The branch \<^verbatim>\<open>errdc\<close>.\<close>

definition drop_client :: "nat \<Rightarrow> srv \<Rightarrow> srv res" where
  "drop_client cb s =
     rbind (get_closure cb s) (\<lambda>c.
     let s = srv_close (cb_fd c) s in
     rbind (get_client (cb_obj c) s) (\<lambda>cl.
     rbind (del_client (sc_client_id cl) s) (\<lambda>s.
     rbind (del_closure (cb_closure_id c) s) (\<lambda>s. Inr (client_gone s)))))"

text \<open>
  The part of \<^verbatim>\<open>on_read\<close> from the counter on: unpack the request buffer, call the handler of the packet type and arm the descriptor. The second test of the
  code is for \<^verbatim>\<open>REARM_W\<close> again, so that every other code leaves the descriptor as it is.
\<close>

definition dispatch :: "senv \<Rightarrow> nat \<Rightarrow> block \<Rightarrow> u8 \<Rightarrow> srv \<Rightarrow> srv res" where
  "dispatch E cb buffer command s =
     (let s = upd_info (\<lambda>i. i\<lparr>bytes_recv := bytes_recv i + 1\<rparr>) s in
      rbind (unpack_mqtt_packet (written buffer)) (\<lambda>(_, packet).
      rbind (call_table (handlers E) (unat (hdr_type command))) (\<lambda>h.
      rbind (h cb packet s) (\<lambda>(rc, s).
        if rc = REARM_W then
          rbind (get_closure cb s) (\<lambda>c.
            let s = put_closure cb (c\<lparr>cb_call := On_write\<rparr>) s
            in Inr (s\<lparr>sv_loop := snd (evloop_rearm_callback_write (sv_loop s) (cb_fd c) cb)\<rparr>))
        else Inr s))))"

definition on_read :: "senv \<Rightarrow> nat \<Rightarrow> srv \<Rightarrow> srv res" where
  "on_read E cb s =
     rbind (get_closure cb s) (\<lambda>c.
     rbind (recv_packet E (cb_fd c) (malloc (unat (max_request_size (se_conf E)))) s) (\<lambda>(bytes, buffer, command, s).
       if bytes = - ERRCLIENTDC \<or> bytes = - ERRMAXREQSIZE then Inr s
       else if bytes = - ERRPACKETERR then drop_client cb s
       else dispatch E cb buffer command s))"

definition on_write :: "nat \<Rightarrow> srv \<Rightarrow> srv res" where
  "on_write cb s =
     rbind (get_closure cb s) (\<lambda>c.
     case cb_payload c of None \<Rightarrow> Inl Null_deref
     | Some b \<Rightarrow>
       rbind (read_cells (bs_data b) (bs_size b)) (\<lambda>bytes.
       let (sent, s) = srv_send (cb_fd c) bytes s in
       rbind (if sent < 0 then rbind (get_client (cb_obj c) s) (\<lambda>_. Inr ()) else Inr ()) (\<lambda>_.
       let s = upd_info (\<lambda>i. i\<lparr>bytes_sent := bytes_sent i + sent\<rparr>) s;
           s = put_closure cb (c\<lparr>cb_payload := None, cb_call := On_read\<rparr>) s
       in Inr (s\<lparr>sv_loop := snd (evloop_rearm_callback_read (sv_loop s) (cb_fd c) cb)\<rparr>))))"

section \<open>Starting and running\<close>

text \<open>What the event loop calls for a closure. \<open>clock\<close> gives the time and the text of the uptime for the statistics.\<close>

definition call_closure :: "senv \<Rightarrow> int \<times> u8 list \<Rightarrow> nat \<Rightarrow> srv \<Rightarrow> srv res" where
  "call_closure E clock p s =
     rbind (get_closure p s) (\<lambda>c.
       case cb_call c of On_read \<Rightarrow> on_read E (cb_args c) s
       | On_write \<Rightarrow> on_write (cb_args c) s
       | On_accept \<Rightarrow> on_accept E (cb_args c) s
       | Publish_stats \<Rightarrow> publish_stats (fst clock) (snd clock) s)"

fun put_topics :: "u8 list list \<Rightarrow> sol \<times> omem \<Rightarrow> (sol \<times> omem) res" where
  "put_topics [] st = Inr st"
| "put_topics (name # names) st =
     (let (t, m) = topic_create name (snd st)
      in rbind (sol_topic_put (fst st) (Some t) m) (\<lambda>sol. put_topics names (sol, m)))"

definition empty_mem :: omem where
  "empty_mem = \<lparr>om_clients = (\<lambda>_. None), om_topics = (\<lambda>_. None), om_subs = (\<lambda>_. None), om_closures = (\<lambda>_. None),
     om_next = 0, om_bad = False\<rparr>"

text \<open>The closures of the listening socket and of the statistics are at addresses 0 and 1.\<close>

definition init_sol :: sol where
  "init_sol = \<lparr>sol_clients = new_table client_destructor, sol_closures = new_table closure_destructor, sol_topics = trie_init\<rparr>"

definition init_mem :: "senv \<Rightarrow> int \<Rightarrow> omem" where
  "init_mem E fd = empty_mem\<lparr>om_closures :=
     [0 \<mapsto> \<lparr>cb_fd = fd, cb_obj = None, cb_args = 0, cb_closure_id = se_uuid E 0, cb_payload = None, cb_call = On_accept\<rparr>,
      1 \<mapsto> \<lparr>cb_fd = 0, cb_obj = None, cb_args = 1, cb_closure_id = se_uuid E 1, cb_payload = None, cb_call = Publish_stats\<rparr>],
     om_next := 2\<rparr>"

text \<open>
  The part of \<^verbatim>\<open>start_server\<close> before the event loop runs. \<open>timerfd\<close> and \<open>settime_ok\<close> are the answers to the timer calls, \<open>rx\<close> and \<open>tx\<close> the
  future of the sockets.
\<close>

definition server_init :: "senv \<Rightarrow> nat net \<Rightarrow> int \<Rightarrow> bool \<Rightarrow> int \<Rightarrow> (int \<Rightarrow> sk_event list) \<Rightarrow> (int \<Rightarrow> snd_event list) \<Rightarrow> srv res" where
  "server_init E n timerfd settime_ok now rx tx =
     rbind (make_listen (se_kern E) (tcp_backlog (se_conf E)) (hostname (se_conf E)) (port (se_conf E))
              (socket_family (se_conf E)) n) (\<lambda>(fd, n).
     rbind (put_topics sys_topics (init_sol, init_mem E fd)) (\<lambda>(sol, m).
     let loop = evloop_add_callback (evloop_create 256 (- 1)) fd 0 in
     rbind (evloop_add_periodic_task loop timerfd settime_ok 1) (\<lambda>loop.
       Inr \<lparr>sv_sol = sol, sv_mem = m,
            sv_info = \<lparr>nclients = 0, nconnections = 0, start_time = now, bytes_recv = 0, bytes_sent = 0,
                       messages_sent = 0, messages_recv = 0\<rparr>,
            sv_loop = loop, sv_net = n, sv_rx = rx, sv_tx = tx, sv_wire = (\<lambda>_. []), sv_closed = []\<rparr>)))"

text \<open>
  \<^verbatim>\<open>run\<close> and the release of the tables. \<open>low\<close> gives the low bits of a pointer and \<open>ws\<close> the results of \<^verbatim>\<open>epoll_wait\<close>; \<open>None\<close> in the
  result is a server that is still waiting.
\<close>

definition run_server :: "senv \<Rightarrow> int \<times> u8 list \<Rightarrow> (nat \<Rightarrow> int) \<Rightarrow> wait_result list \<Rightarrow> srv \<Rightarrow> (int option \<times> srv) res" where
  "run_server E clock low ws s =
     rbind (evloop_wait low srv_report srv_close (call_closure E clock) sv_loop ws (replicate 256 None) s) (\<lambda>(rc, s).
       case rc of None \<Rightarrow> Inr (None, s)
       | Some r \<Rightarrow>
         rbind (if r < 0 then rbind (evloop_free (sv_loop s)) (\<lambda>_. Inr ()) else Inr ()) (\<lambda>_.
         let m = hashtable_release (Some (sol_clients (sv_sol s))) (sv_mem s);
             m = hashtable_release (Some (sol_closures (sv_sol s))) m
         in if om_bad m then Inl Use_after_free else Inr (Some 0, put_mem m s)))"

definition start_server :: "senv \<Rightarrow> nat net \<Rightarrow> int \<Rightarrow> bool \<Rightarrow> int \<Rightarrow> (int \<Rightarrow> sk_event list) \<Rightarrow> (int \<Rightarrow> snd_event list)
    \<Rightarrow> int \<times> u8 list \<Rightarrow> (nat \<Rightarrow> int) \<Rightarrow> wait_result list \<Rightarrow> (int option \<times> srv) res" where
  "start_server E n timerfd settime_ok now rx tx clock low ws =
     rbind (server_init E n timerfd settime_ok now rx tx) (run_server E clock low ws)"

text \<open>\<^verbatim>\<open>main\<close>: configure, then serve. \<open>None\<close> is the exit after a wrong option.\<close>

definition sol_program :: "int \<Rightarrow> int \<Rightarrow> copt list \<Rightarrow> (u8 list \<Rightarrow> u8 list option) \<Rightarrow> senv \<Rightarrow> nat net \<Rightarrow> int \<Rightarrow> bool \<Rightarrow> int
    \<Rightarrow> (int \<Rightarrow> sk_event list) \<Rightarrow> (int \<Rightarrow> snd_event list) \<Rightarrow> int \<times> u8 list \<Rightarrow> (nat \<Rightarrow> int) \<Rightarrow> wait_result list
    \<Rightarrow> (int option \<times> srv) option res" where
  "sol_program SOMAXCONN evfd opts files E n timerfd settime_ok now rx tx clock low ws =
     rbind (sol_main SOMAXCONN evfd opts files) (\<lambda>r.
       case r of None \<Rightarrow> Inr None
       | Some (c, out) \<Rightarrow> rbind (start_server (E\<lparr>se_conf := c\<rparr>) n timerfd settime_ok now rx tx clock low ws) (\<lambda>x. Inr (Some x)))"

end
