(* ===== verification/Table_Values.thy ===== *)
theory Table_Values
  imports Hashtable "HOL-Library.Multiset"
begin

text \<open>
  The values of a hash table whatever its keys are: also for keys that the prefix comparison confuses, an insertion adds no more
  than the new value, and a deletion removes one value and hands exactly that one to the destructor. The server uses this for the
  ownership of its clients and closures.
\<close>

definition tab_ok :: "('v, 's) hashtable \<Rightarrow> bool" where
  "tab_ok t \<longleftrightarrow> sizes_ok t \<and> length (ht_entries t) = unat (ht_table_size t)"

definition vals :: "'v hentry list \<Rightarrow> 'v option multiset" where
  "vals es = image_mset he_val (mset (taken_of es))"

lemma vals_simps [simp]: "vals [] = {#}" "vals (e # es) = (if he_taken e then add_mset (he_val e) (vals es) else vals es)"
  by (simp_all add: vals_def taken_of_def)

lemma probe_in_table:
  assumes "tab_ok t"
  shows "unat (probe t (hashtable_hash_int t k) j) < length (ht_entries t)"
  using assms unat_probe [of "hashtable_hash_int t k" t j] home_less [of "ht_table_size t" k]
  by (simp add: tab_ok_def sizes_ok_def home_def hashtable_hash_int_def)

lemma vals_upd:
  assumes "i < length es"
  shows "vals (es[i := e]) = (if he_taken e then {#he_val e#} else {#}) + (vals es - (if he_taken (es ! i) then {#he_val (es ! i)#} else {#}))"
proof -
  obtain xs ys where u: "taken_of es = xs @ (if he_taken (es ! i) then [es ! i] else []) @ ys"
    "\<And>e. taken_of (es[i := e]) = xs @ (if he_taken e then [e] else []) @ ys" using taken_of_upd [OF assms] by blast
  show ?thesis unfolding vals_def u by auto
qed

lemma vals_nth: "i < length es \<Longrightarrow> he_taken (es ! i) \<Longrightarrow> he_val (es ! i) \<in># vals es"
  by (auto simp: vals_def taken_of_def)

lemma put_at_values:
  assumes "unat i < length (ht_entries t)"
  shows "vals (ht_entries (put_at t i k v)) \<subseteq># add_mset v (vals (ht_entries t))"
  using vals_upd [OF assms, of "\<lparr>he_key = k, he_val = v, he_taken = True\<rparr>"] by (simp add: put_at_def diff_subset_eq_self)

lemma put_values:
  "hashtable_put can f t key val = Some (t', st) \<Longrightarrow> tab_ok t \<Longrightarrow>
     tab_ok t' \<and> ht_destructor t' = ht_destructor t \<and> vals (ht_entries t') \<subseteq># add_mset val (vals (ht_entries t))"
  "hashtable_rehash can f t = Some (t', st) \<Longrightarrow> tab_ok t \<Longrightarrow>
     tab_ok t' \<and> ht_destructor t' = ht_destructor t \<and> vals (ht_entries t') \<subseteq># vals (ht_entries t)"
  "rehash_loop can f es t = Some (t', st) \<Longrightarrow> tab_ok t \<Longrightarrow>
     tab_ok t' \<and> ht_destructor t' = ht_destructor t \<and> vals (ht_entries t') \<subseteq># vals es + vals (ht_entries t)"
proof (induction can f t key val and can f t and can f es t arbitrary: t' st and t' st and t' st
    rule: hashtable_put_hashtable_rehash_rehash_loop.induct)
  case (2 can f t key val)
  show ?case
  proof (cases "hashtable_hash t key = - 3")
    case None: True
    with 2(3) obtain t1 st1 where r: "hashtable_rehash can f t = Some (t1, st1)" by (auto split: option.splits)
    note a = 2(1) [OF None r 2(4)]
    show ?thesis
    proof (cases st1)
      case HT_OK
      then have "hashtable_put can f t1 key val = Some (t', st)" using 2(3) None r by simp
      from 2(2) [OF None r refl HT_OK this] a show ?thesis
        by (metis add_mset_add_single mset_subset_eq_add_mset_cancel subset_mset.order_trans)
    next
      case HT_ERR
      then show ?thesis using 2(3) None r a by (auto intro: subset_mset.order_trans)
    next
      case HT_OOB
      then show ?thesis using 2(3) None r a by (auto intro: subset_mset.order_trans)
    qed
  next
    case False
    then obtain i where i: "hash_slot t key = Some i" "hashtable_hash t key = to_int32 i" by (rule index_found)
    show ?thesis
    proof (cases "hashtable_hash t key < 0")
      case True
      then show ?thesis using False 2(3,4) by simp
    next
      case nn: False
      then have t': "t' = put_at t (of_int (to_int32 i)) key val" using False 2(3) i(2) by simp
      have "unat i < unat (ht_table_size t)" using hash_slot_less [OF _ i(1)] 2(4) by (simp add: tab_ok_def sizes_ok_def)
      then have "unat (of_int (to_int32 i) :: u64) < length (ht_entries t)"
        using to_int32_le [of i] nn i(2) 2(4) by (simp add: tab_ok_def)
      from put_at_values [OF this] show ?thesis using 2(4) t' by (simp add: tab_ok_def sizes_ok_def put_at_def)
    qed
  qed
next
  case (4 can f t)
  show ?case
  proof (cases "calloc_ok can (2 * ht_table_size t)")
    case True
    have g: "tab_ok (grown t)" "ht_destructor (grown t) = ht_destructor t" "vals (ht_entries (grown t)) = {#}"
      using grown_size [OF _ True] 4(3) by (auto simp: tab_ok_def grown_def vals_def taken_of_empty)
    have "rehash_loop can f (ht_entries t) (grown t) = Some (t', st)" using 4(2) True by simp
    from 4(1) [OF True this g(1)] g show ?thesis by simp
  qed (use 4 in auto)
next
  case (7 can f e es t)
  show ?case
  proof (cases "he_taken e")
    case True
    then have nn: "\<not> \<not> he_taken e" by simp
    with 7(4) obtain t1 st1 where r: "hashtable_put can f t (he_key e) (he_val e) = Some (t1, st1)"
      by (auto split: option.splits)
    note a = 7(2) [OF nn r 7(5)]
    show ?thesis
    proof (cases st1)
      case HT_OK
      then have "rehash_loop can f es t1 = Some (t', st)" using 7(4) True r by simp
      from 7(3) [OF nn r refl HT_OK this] a have b: "tab_ok t'" "ht_destructor t' = ht_destructor t"
        "vals (ht_entries t') \<subseteq># vals es + vals (ht_entries t1)" by auto
      have "vals es + vals (ht_entries t1) \<subseteq># vals es + add_mset (he_val e) (vals (ht_entries t))" using a by simp
      from subset_mset.order_trans [OF b(3) this] show ?thesis using b True by simp
    next
      case HT_ERR
      have "add_mset (he_val e) (vals (ht_entries t)) \<subseteq># add_mset (he_val e) (vals es + vals (ht_entries t))" by simp
      from subset_mset.order_trans [OF _ this, of "vals (ht_entries t1)"] show ?thesis
        using HT_ERR 7(4) True r a by auto
    next
      case HT_OOB
      have "add_mset (he_val e) (vals (ht_entries t)) \<subseteq># add_mset (he_val e) (vals es + vals (ht_entries t))" by simp
      from subset_mset.order_trans [OF _ this, of "vals (ht_entries t1)"] show ?thesis
        using HT_OOB 7(4) True r a by auto
    qed
  next
    case False
    then show ?thesis using 7(1) [OF False _ 7(5)] 7(4) by simp
  qed
qed auto

lemma del_values:
  assumes "hashtable_del t key m = (t', m', st)" "tab_ok t"
  shows "tab_ok t' \<and> ht_destructor t' = ht_destructor t \<and>
    (t' = t \<and> m' = m \<and> st = HT_ERR
     \<or> (\<exists>e. st = HT_OK \<and> he_val e \<in># vals (ht_entries t) \<and> vals (ht_entries t') = vals (ht_entries t) - {#he_val e#}
          \<and> m' = snd (ht_destructor t e m)))"
proof (cases "get_probe 8 t key (hashtable_hash_int t key)")
  case None
  then show ?thesis using assms by (simp add: hashtable_del_def)
next
  case (Some i)
  from get_probe_Some [OF Some] obtain j where j: "i = probe t (hashtable_hash_int t key) j" "he_taken (slot t i)" by blast
  have i: "unat i < length (ht_entries t)" using probe_in_table [OF assms(2)] j(1) by simp
  define e where "e = (slot t i)\<lparr>he_taken := False\<rparr>"
  have e: "he_val e = he_val (ht_entries t ! unat i)" "\<not> he_taken e" by (simp_all add: e_def slot_def)
  have t': "t' = t\<lparr>ht_entries := (ht_entries t)[unat i := e], ht_size := ht_size t - 1\<rparr>" "m' = snd (ht_destructor t e m)" "st = HT_OK"
    using assms(1) Some by (auto simp: hashtable_del_def Let_def e_def)
  have "vals (ht_entries t') = vals (ht_entries t) - {#he_val e#}" "he_val e \<in># vals (ht_entries t)"
    using vals_upd [OF i, of e] vals_nth [OF i] j(2) e by (simp_all add: t' slot_def)
  then show ?thesis using t' assms(2) by (auto simp: tab_ok_def sizes_ok_def)
qed

lemma new_table_values: "tab_ok (new_table d)" "vals (ht_entries (new_table d)) = {#}" "ht_destructor (new_table d) = d"
  by (simp_all add: tab_ok_def sizes_ok_def new_table_def vals_def taken_of_empty)

end
