(* ===== verification/Server_Run.thy ===== *)
theory Server_Run
  imports Server Table_Values
begin

text \<open>
  What a running server does, as \<^verbatim>\<open>start_server\<close>, the event loop and the callbacks are put together: an invariant of the whole
  state that the event loop keeps.
\<close>

section \<open>Receiving\<close>

lemma recv_loop_result:
  "recv_loop q got n = (rc, got', q') \<Longrightarrow>
     (rc = - 1 \<or> rc = 0 \<or> rc = int (length got')) \<and> (\<exists>bs. got' = got @ bs \<and> length bs \<le> n)"
proof (induction q got n arbitrary: rc got' q' rule: recv_loop.induct)
  case (1 q got n)
  obtain r q1 where s: "recv_sys q n = (r, q1)" by force
  show ?case
  proof (cases "n = 0 \<or> (\<exists>bs. r = Sys_ok bs \<and> bs \<noteq> [])")
    case False
    then show ?thesis using 1(2) s by (cases r) (auto simp: recv_loop.simps [of q got n])
  next
    case True
    show ?thesis
    proof (cases "n = 0")
      case False
      then obtain bs where r: "r = Sys_ok bs" "bs \<noteq> []" using True by blast
      have "length bs \<le> n" using s r by (induction q n rule: recv_sys.induct) (auto split: if_splits)
      moreover have "recv_loop q1 (got @ bs) (n - length bs) = (rc, got', q')"
        using 1(2) False s r by (simp add: recv_loop.simps [of q got n])
      ultimately show ?thesis using 1(1) [OF False s [symmetric] r(1,2)] by fastforce
    qed (use 1(2) in \<open>auto simp: recv_loop.simps [of q got 0]\<close>)
  qed
qed

lemma srv_recv_one:
  assumes "srv_recv fd 1 s = (rc, got, s')"
  shows "rc \<le> 0 \<or> (\<exists>b. got = [b]) \<and> rc = 1" and "\<exists>rx. s' = s\<lparr>sv_rx := rx\<rparr>"
  using assms recv_loop_result [of "sv_rx s fd" "[]" 1]
  by (auto simp: srv_recv_def recv_bytes_def le_Suc_eq length_Suc_conv split: prod.splits)

lemma srv_recv_state: "srv_recv fd n s = (rc, got, s') \<Longrightarrow> \<exists>rx. s' = s\<lparr>sv_rx := rx\<rparr>"
  by (auto simp: srv_recv_def split: prod.splits)

lemma store_at_head:
  "store_at off bs b = Inr b' \<Longrightarrow> 0 < off \<Longrightarrow> b \<noteq> [] \<Longrightarrow> b' \<noteq> [] \<and> hd b' = hd b"
  by (cases b; cases off) (auto simp: store_at_def write_mem_def split: if_splits)

lemma recv_length_head:
  "recv_length n fd cnt buff buf s = Inr (r, buf', s') \<Longrightarrow> buf \<noteq> [] \<Longrightarrow>
     buf' \<noteq> [] \<and> hd buf' = hd buf \<and> (\<exists>rx. s' = s\<lparr>sv_rx := rx\<rparr>)"
proof (induction n fd cnt buff buf s arbitrary: r buf' s' rule: recv_length.induct)
  case (2 n fd cnt buff buf s)
  obtain rc got s1 where r: "srv_recv fd 1 s = (rc, got, s1)" by (metis prod_cases3)
  obtain rx where s1: "s1 = s\<lparr>sv_rx := rx\<rparr>" using srv_recv_one(2) [OF r] by blast
  show ?case
  proof (cases "rc \<le> 0")
    case True
    then show ?thesis using 2(2,3) r s1 by (auto simp: Let_def)
  next
    case False
    with 2(2) r obtain b1 where b1: "store_at (1 + cnt) got buf = Inr b1" by (auto simp: Let_def)
    then have h: "b1 \<noteq> []" "hd b1 = hd buf" using store_at_head [OF b1] 2(3) by auto
    show ?thesis using 2(1) [OF refl r [symmetric] refl False b1] 2(2) r False b1 h s1
      by (auto simp: Let_def split: if_splits)
  qed
qed simp

lemma written_head: "b \<noteq> [] \<Longrightarrow> hd b = Some x \<Longrightarrow> \<exists>bs. written b = x # bs"
  by (cases b) (simp_all add: written_def)

lemma unpack_low_byte: "b < 16 \<Longrightarrow> unpack_mqtt_packet (b # bs) = Inl Null_call"
proof -
  assume "b < 16"
  then have "drop_bit 4 b = 0" by (simp add: drop_bit_eq_div word_less_nat_alt word_arith_nat_div)
  then show ?thesis by (simp add: unpack_mqtt_packet_def unpack_u8_def hdr_type_def call_table_def unpack_handlers_def)
qed

section \<open>No packet reaches a handler\<close>

text \<open>
  \<^verbatim>\<open>recv_packet\<close> lets only first bytes from 1 to 14 pass, whose upper half, the packet type, is 0.
\<close>

lemma recv_packet_low:
  assumes "recv_packet E fd buf s = Inr (n, buf', cmd, s')"
  shows "n \<in> {- 1, - 2, - 3} \<and> (\<exists>rx. s' = s\<lparr>sv_rx := rx\<rparr>)
    \<or> 0 < n \<and> (\<exists>b bs. written buf' = b # bs \<and> 1 \<le> b \<and> b < 16)"
proof -
  obtain rc got s1 where r: "srv_recv fd 1 s = (rc, got, s1)" by (metis prod_cases3)
  obtain rx1 where s1: "s1 = s\<lparr>sv_rx := rx1\<rparr>" using srv_recv_one(2) [OF r] by blast
  show ?thesis
  proof (cases "rc \<le> 0")
    case True
    then show ?thesis using assms r s1 by (auto simp: recv_packet_def Let_def)
  next
    case False
    then obtain b where b: "got = [b]" using srv_recv_one(1) [OF r] by blast
    from assms r False b obtain b1 where b1: "store_at 0 [b] buf = Inr b1" by (auto simp: recv_packet_def Let_def)
    then have h1: "b1 \<noteq> []" "hd b1 = Some b" by (auto simp: store_at_def write_mem_def split: if_splits)
    show ?thesis
    proof (cases "14 < b \<or> 1 > b")
      case True
      then show ?thesis using assms r False b b1 s1 by (auto simp: recv_packet_def Let_def)
    next
      case byte: False
      then have low: "1 \<le> b" "b < 16" by (auto simp: word_less_nat_alt word_le_nat_alt)
      from assms r False b b1 byte obtain lr b2 s2 where l: "recv_length 5 fd 0 [] b1 s1 = Inr (lr, b2, s2)"
        by (auto simp: recv_packet_def Let_def)
      then have h2: "b2 \<noteq> []" "hd b2 = Some b" "\<exists>rx. s2 = s1\<lparr>sv_rx := rx\<rparr>"
        using recv_length_head [OF l h1(1)] h1 by auto
      show ?thesis
      proof (cases lr)
        case None
        then show ?thesis using assms r False b b1 byte l h2 s1 by (auto simp: recv_packet_def Let_def)
      next
        case (Some buff)
        from assms r False b b1 byte l Some obtain tlen tl where t: "mqtt_decode_length buff = Inr (tlen, tl)"
          by (auto simp: recv_packet_def Let_def)
        show ?thesis
        proof (cases "tlen > max_request_size (se_conf E)")
          case True
          then show ?thesis using assms r False b b1 byte l Some t h2 s1 by (auto simp: recv_packet_def Let_def)
        next
          case small: False
          obtain m got2 s3 where r3: "srv_recv fd (unat tlen) s2 = (m, got2, s3)" by (metis prod_cases3)
          from assms r False b b1 byte l Some t small r3 have st: "store_at 2 got2 b2 = Inr buf'" "0 < n"
            by (auto simp: recv_packet_def Let_def split: if_splits)
          from store_at_head [OF st(1)] h2 have "buf' \<noteq> []" "hd buf' = Some b" by auto
          then show ?thesis using written_head low st(2) by blast
        qed
      qed
    qed
  qed
qed

lemma on_read_outcome:
  assumes "on_read E cb s = Inr s'"
  shows "\<exists>rx. s' = s\<lparr>sv_rx := rx\<rparr> \<or> drop_client cb (s\<lparr>sv_rx := rx\<rparr>) = Inr s'"
proof -
  from assms obtain c n buf cmd s1 where r:
    "recv_packet E (cb_fd c) (malloc (unat (max_request_size (se_conf E)))) s = Inr (n, buf, cmd, s1)"
    "get_closure cb s = Inr c" by (auto simp: on_read_def)
  from recv_packet_low [OF r(1)] show ?thesis
  proof
    assume "n \<in> {- 1, - 2, - 3} \<and> (\<exists>rx. s1 = s\<lparr>sv_rx := rx\<rparr>)"
    then show ?thesis using assms r by (auto simp: on_read_def)
  next
    assume "0 < n \<and> (\<exists>b bs. written buf = b # bs \<and> 1 \<le> b \<and> b < 16)"
    then show ?thesis using assms r by (auto simp: on_read_def dispatch_def unpack_low_byte Let_def split: if_splits)
  qed
qed

section \<open>The state of a running server\<close>

text \<open>
  No closure has a client or a reply to send, no topic a subscriber, no client exists, and nothing has been sent.
\<close>

definition mute :: "srv \<Rightarrow> bool" where
  "mute s \<longleftrightarrow>
     (\<forall>a c. om_closures (sv_mem s) a = Some c \<longrightarrow> cb_obj c = None \<and> cb_payload c = None)
     \<and> (\<forall>a t. om_topics (sv_mem s) a = Some t \<longrightarrow> tp_subs t = [])
     \<and> om_clients (sv_mem s) = (\<lambda>_. None) \<and> ht_size (sol_clients (sv_sol s)) = 0
     \<and> tab_ok (sol_closures (sv_sol s)) \<and> ht_destructor (sol_closures (sv_sol s)) = closure_destructor
     \<and> sv_wire s = (\<lambda>_. []) \<and> bytes_sent (sv_info s) = 0 \<and> messages_sent (sv_info s) = 0 \<and> messages_recv (sv_info s) = 0"

lemma mute_upd [simp]:
  "mute (s\<lparr>sv_rx := rx\<rparr>) = mute s" "mute (s\<lparr>sv_loop := l\<rparr>) = mute s" "mute (s\<lparr>sv_net := n\<rparr>) = mute s"
  "mute (s\<lparr>sv_closed := fds\<rparr>) = mute s"
  by (simp_all add: mute_def)

lemma srv_report_rest [simp]:
  "sv_sol (srv_report es s) = sv_sol s" "sv_mem (srv_report es s) = sv_mem s" "sv_info (srv_report es s) = sv_info s"
  "sv_rx (srv_report es s) = sv_rx s" "sv_tx (srv_report es s) = sv_tx s" "sv_wire (srv_report es s) = sv_wire s"
  "sv_closed (srv_report es s) = sv_closed s" "sv_net (srv_report es s) = sv_net s"
  "el_tasks (sv_loop (srv_report es s)) = el_tasks (sv_loop s)" "el_periodic_nr (sv_loop (srv_report es s)) = el_periodic_nr (sv_loop s)"
  "el_epoll (sv_loop (srv_report es s)) = epoll_report es (el_epoll (sv_loop s))"
  "get_closure a (srv_report es s) = get_closure a s" "get_client p (srv_report es s) = get_client p s"
  by (simp_all add: srv_report_def get_closure_def get_client_def)

lemma mute_close: "mute s \<Longrightarrow> mute (srv_close fd s)"
  by (simp add: srv_close_def mute_def)

lemma mute_drop: "mute s \<Longrightarrow> drop_client cb s \<noteq> Inr s'"
  by (auto simp: drop_client_def get_closure_def get_client_def srv_close_def mute_def Let_def)

lemma mute_on_read: "mute s \<Longrightarrow> on_read E cb s = Inr s' \<Longrightarrow> mute s'"
  using on_read_outcome [of E cb s s'] mute_drop [of "s\<lparr>sv_rx := rx\<rparr>" cb s' for rx] by fastforce

lemma mute_on_write: "mute s \<Longrightarrow> on_write cb s \<noteq> Inr s'"
  by (auto simp: on_write_def get_closure_def mute_def)

lemma accept_new_client_state:
  "accept_new_client E fd s = (rc, conn, s') \<Longrightarrow> \<exists>n. s' = s\<lparr>sv_net := n\<rparr>"
  by (auto simp: accept_new_client_def Let_def split: prod.splits option.splits if_splits)

lemma table_put_values:
  "table_put E t key a = Inr t' \<Longrightarrow> tab_ok t \<Longrightarrow> tab_ok t' \<and> ht_destructor t' = ht_destructor t
     \<and> vals (ht_entries t') \<subseteq># add_mset (Some a) (vals (ht_entries t))"
  by (auto simp: table_put_def split: option.splits prod.splits if_splits dest: put_values(1))

lemma mute_on_accept:
  assumes "mute s" "on_accept E cb s = Inr s'"
  shows "mute s'"
proof -
  from assms(2) obtain sc where sc: "get_closure cb s = Inr sc" by (auto simp: on_accept_def)
  obtain rc conn s1 where a: "accept_new_client E (cb_fd sc) s = (rc, conn, s1)" by (metis prod_cases3)
  then obtain n where s1: "s1 = s\<lparr>sv_net := n\<rparr>" using accept_new_client_state by blast
  let ?a = "om_next (sv_mem s)"
  from assms(2) sc a s1 obtain t where t: "table_put E (sol_closures (sv_sol s)) (se_uuid E ?a) ?a = Inr t"
    by (auto simp: on_accept_def Let_def put_mem_def split: option.splits)
  have "tab_ok t" "ht_destructor t = closure_destructor"
    using table_put_values [OF t] assms(1) by (simp_all add: mute_def)
  with assms sc a s1 t show ?thesis
    by (auto simp: on_accept_def Let_def put_mem_def set_closure_def upd_info_def mute_def split: option.splits if_splits)
qed

lemma mute_publish_message:
  "mute s \<Longrightarrow> publish_message i t pl s = (case sol_topic_get (sv_sol s) t of None \<Rightarrow> Inr s
     | Some a \<Rightarrow> if om_topics (sv_mem s) a = None then Inl Use_after_free else Inr s)"
  by (auto simp: publish_message_def mute_def Let_def split: option.splits)

lemma mute_publish_message_same: "mute s \<Longrightarrow> publish_message i t pl s = Inr s' \<Longrightarrow> s' = s"
  by (auto simp: mute_publish_message split: option.splits if_splits)

lemma mute_publish_stats:
  assumes "mute s" "publish_stats now su s = Inr s'"
  shows "s' = s"
proof -
  note same = mute_publish_message_same [OF assms(1)]
  from assms(2) obtain t1 t2 t3 t4 t5 t6 p1 p2 p3 p4 p5 p6 s1 s2 s3 s4 s5 where
    "publish_message 0 t1 p1 s = Inr s1" "publish_message 0 t2 p2 s1 = Inr s2" "publish_message 0 t3 p3 s2 = Inr s3"
    "publish_message 0 t4 p4 s3 = Inr s4" "publish_message 0 t5 p5 s4 = Inr s5" "publish_message 0 t6 p6 s5 = Inr s'"
    unfolding publish_stats_def Let_def rbind_eq_Inr by blast
  then show ?thesis using same by metis
qed

lemma mute_call: "mute s \<Longrightarrow> call_closure E clock p s = Inr s' \<Longrightarrow> mute s'"
proof -
  assume m: "mute s" and r: "call_closure E clock p s = Inr s'"
  then obtain c where c: "get_closure p s = Inr c" by (auto simp: call_closure_def)
  show "mute s'"
  proof (cases "cb_call c")
    case On_read
    then show ?thesis using r c mute_on_read [OF m] by (simp add: call_closure_def)
  next
    case On_write
    then show ?thesis using r c mute_on_write [OF m] by (simp add: call_closure_def)
  next
    case On_accept
    then show ?thesis using r c mute_on_accept [OF m] by (simp add: call_closure_def)
  next
    case Publish_stats
    then show ?thesis using r c m mute_publish_stats [OF m] by (auto simp: call_closure_def)
  qed
qed

interpretation quiet: loop_client mute srv_report srv_close "call_closure E clock" sv_loop for E clock
  by unfold_locales (simp add: srv_report_def, fact mute_close, fact mute_call)

lemma topic_create_mem:
  "topic_create name m = (a, m') \<Longrightarrow> a = om_next m \<and> m' = m\<lparr>om_topics := (om_topics m)(a \<mapsto> topic_init name), om_next := Suc a\<rparr>"
  by (auto simp: topic_create_def Let_def set_topic_def)

lemma put_topics_mem:
  "put_topics names (sol, m) = Inr (sol', m') \<Longrightarrow> \<forall>a t. om_topics m a = Some t \<longrightarrow> tp_subs t = [] \<Longrightarrow>
     sol_clients sol' = sol_clients sol \<and> sol_closures sol' = sol_closures sol \<and> om_clients m' = om_clients m
     \<and> om_closures m' = om_closures m \<and> (\<forall>a t. om_topics m' a = Some t \<longrightarrow> tp_subs t = [])"
proof (induction names arbitrary: sol m)
  case (Cons name names)
  obtain a m1 where c: "topic_create name m = (a, m1)" by force
  note m1 = topic_create_mem [OF c]
  define sol1 where "sol1 = sol\<lparr>sol_topics := trie_insert (sol_topics sol) name (Some a)\<rparr>"
  have p: "put_topics names (sol1, m1) = Inr (sol', m')"
    using Cons.prems(1) c m1 by (simp add: sol_topic_put_def topic_init_def sol1_def)
  have "\<forall>a t. om_topics m1 a = Some t \<longrightarrow> tp_subs t = []"
    using m1 Cons.prems(2) by (simp add: topic_init_def)
  note IH = Cons.IH [OF p this]
  have "sol_clients sol1 = sol_clients sol" "sol_closures sol1 = sol_closures sol" "om_clients m1 = om_clients m"
    "om_closures m1 = om_closures m" using m1 by (simp_all add: sol1_def)
  with IH show ?case by argo
qed simp

lemma server_init_mute:
  assumes "server_init E n tfd ok now rx tx = Inr s"
  shows "mute s"
proof -
  from assms obtain fd where p: "put_topics sys_topics (init_sol, init_mem E fd) = Inr (sv_sol s, sv_mem s)"
    and s: "sv_wire s = (\<lambda>_. [])" "bytes_sent (sv_info s) = 0" "messages_sent (sv_info s) = 0" "messages_recv (sv_info s) = 0"
    by (auto simp: server_init_def Let_def)
  from put_topics_mem [OF p] s show ?thesis
    by (auto simp: mute_def init_mem_def init_sol_def empty_mem_def new_table_values split: if_splits) (simp add: new_table_def)
qed

lemma map_loop_closures:
  "om_clients (snd (map_loop closure_destructor es m)) = om_clients m"
proof (induction es arbitrary: m)
  case (Cons e es)
  have "om_clients (snd (closure_destructor e m)) = om_clients m"
    by (auto simp: closure_destructor_def split: option.splits)
  then show ?case using Cons by (auto simp: Let_def split: prod.splits)
qed simp

lemma start_server_mute:
  assumes "start_server E n tfd ok now rx tx clock low ws = Inr (rc, s)"
  shows "sv_wire s = (\<lambda>_. []) \<and> om_clients (sv_mem s) = (\<lambda>_. None) \<and> bytes_sent (sv_info s) = 0
    \<and> messages_sent (sv_info s) = 0 \<and> messages_recv (sv_info s) = 0"
proof -
  from assms obtain s0 where i: "server_init E n tfd ok now rx tx = Inr s0" and r: "run_server E clock low ws s0 = Inr (rc, s)"
    by (auto simp: start_server_def)
  from r obtain w s1 where w: "evloop_wait low srv_report srv_close (call_closure E clock) sv_loop ws (replicate 256 None) s0 = Inr (w, s1)"
    by (auto simp: run_server_def)
  have m: "mute s1" by (rule quiet.wait_inv [OF server_init_mute [OF i] w])
  show ?thesis
  proof (cases w)
    case None
    then show ?thesis using r w m by (auto simp: run_server_def mute_def)
  next
    case (Some v)
    then show ?thesis using r w m
      by (auto simp: run_server_def mute_def Let_def put_mem_def hashtable_release_def hashtable_map_def map_loop_closures
          split: if_splits)
  qed
qed

text \<open>
  C1 (server_mute): the whole program, with any options and any configuration file, from start-up through any sequence of events, whatever the clients send and whatever the kernel answers: as long as it
  has not crashed, the server has never put a byte on any socket, has counted no message received, and has not registered a single client. (A byte outside 1 to 14
  from a client crashes it, since no client is registered, and with a first byte from 1 to 14 a null handler is called.)
\<close>

theorem server_mute:
  assumes "sol_program SOMAXCONN evfd opts files E n tfd ok now rx tx clock low ws = Inr (Some (rc, s))"
  shows "sv_wire s = (\<lambda>_. []) \<and> om_clients (sv_mem s) = (\<lambda>_. None) \<and> bytes_sent (sv_info s) = 0
    \<and> messages_sent (sv_info s) = 0 \<and> messages_recv (sv_info s) = 0"
proof -
  from assms obtain c where "start_server (E\<lparr>se_conf := c\<rparr>) n tfd ok now rx tx clock low ws = Inr (rc, s)"
    by (auto simp: sol_program_def split: option.splits prod.splits)
  then show ?thesis by (rule start_server_mute)
qed

text \<open>The configuration without options and without a file.\<close>

definition default_config :: config where
  "default_config = \<lparr>version = bytes ''0.0.1'', run_fd = 9, loglevel = WARNING, epoll_timeout = - 1, socket_family = INET,
     logpath = bytes ''/tmp/sol.log'', hostname = bytes ''127.0.0.1'', port = bytes ''1883'',
     max_memory = 2147483648, max_request_size = 2097152, tcp_backlog = 128, stats_pub_interval = 10\<rparr>"

lemma sol_main_default: "sol_main 128 9 [] (\<lambda>_. None) = Inr (Some (default_config, []))"
proof -
  have r: "read_memory_with_mul (bytes ''2GB'') = Inr 2147483648" "read_memory_with_mul (bytes ''2MB'') = Inr 2097152"
    "read_time_with_mul (bytes ''10s'') = Inr 10" by code_simp+
  then show ?thesis by (simp add: sol_main_def config_set_default_def config_load_def config_print_def default_config_def)
qed

text \<open>A concrete environment: TCP, a kernel that grants everything, and one-letter identifiers.\<close>

definition sample_kern :: "nat kern" where
  "sample_kern = \<lparr>k_socket = (\<lambda>_. 3), k_getaddrinfo = (\<lambda>_ _. Some [0]), k_getfl = (\<lambda>_. True), k_setfl = (\<lambda>_. True),
     k_nodelay = (\<lambda>_. True), k_reuse = (\<lambda>_. True), k_bind = (\<lambda>_ _. True), k_listen = (\<lambda>_. True), k_accept = (\<lambda>_ _. 7),
     k_ntop = (\<lambda>_. True)\<rparr>"

definition sample_env :: senv where
  "sample_env = \<lparr>se_conf = default_config, se_can = (\<lambda>_. True), se_fuel = 9,
     se_kern = sample_kern, se_getpeername = (\<lambda>_. True), se_peer_ip = (\<lambda>_. Some []), se_getsockname = (\<lambda>_. True),
     se_uuid = (\<lambda>_. [99]), se_puback = (\<lambda>_ _ s. Inr (0, s)), se_pubrec = (\<lambda>_ _ s. Inr (0, s)),
     se_pubcomp = (\<lambda>_ _ s. Inr (0, s)), se_pingreq = (\<lambda>_ _ s. Inr (0, s))\<rparr>"

definition no_net :: "nat net" where
  "no_net = \<lparr>n_socks = (\<lambda>_. None), n_unlinked = [], n_accepts = 0\<rparr>"

lemma put_topics_total: "\<exists>sol' m'. put_topics names (sol, m) = Inr (sol', m')"
proof (induction names arbitrary: sol m)
  case (Cons name names)
  obtain a m1 where c: "topic_create name m = (a, m1)" by force
  then show ?case using Cons topic_create_mem [OF c] by (simp add: sol_topic_put_def topic_init_def)
qed simp

lemma sample_init:
  "\<exists>s. server_init sample_env no_net 4 True 0 rx tx = Inr s \<and> get_closure 0 s = Inr \<lparr>cb_fd = 3, cb_obj = None, cb_args = 0,
       cb_closure_id = [99], cb_payload = None, cb_call = On_accept\<rparr>
     \<and> el_periodic_nr (sv_loop s) = 1 \<and> el_tasks (sv_loop s) = [Some \<lparr>pt_timerfd = 4, pt_closure = 1\<rparr>, None, None, None]
     \<and> sol_closures (sv_sol s) = new_table closure_destructor
     \<and> el_epoll (sv_loop s) = [3 \<mapsto> (Want_in, U_ptr 0), 4 \<mapsto> (Want_in, U_fd 4)]"
proof -
  have l: "make_listen sample_kern 128 host pt 1 no_net = Inr (3, no_net\<lparr>n_socks := (n_socks no_net)(3 \<mapsto> \<lparr>so_nonblock = True,
      so_nodelay = True, so_reuse = True, so_bound = Some (Inet_addr 0), so_backlog = Some 128\<rparr>)\<rparr>)" for host pt
    by (simp add: make_listen_def create_and_bind_def create_and_bind_tcp_def sample_kern_def set_nonblocking_def
        set_tcp_nodelay_def fresh_sock_def no_net_def upd_sock_def open_sock_def Let_def)
  obtain sol m where p: "put_topics sys_topics (init_sol, init_mem sample_env 3) = Inr (sol, m)"
    using put_topics_total by blast
  from put_topics_mem [OF p] have "om_closures m = om_closures (init_mem sample_env 3)" "sol_closures sol = sol_closures init_sol"
    by (simp_all add: init_mem_def empty_mem_def)
  then show ?thesis using l p
    by (simp add: server_init_def sample_env_def default_config_def evloop_create_def evloop_init_def evloop_add_callback_def
        epoll_add_def evloop_add_periodic_task_def with_room_def ep_data_def Let_def get_closure_def init_mem_def init_sol_def
        numeral_eq_Suc)
qed

lemma sample_accept:
  assumes "get_closure 0 s = Inr \<lparr>cb_fd = 3, cb_obj = None, cb_args = 0, cb_closure_id = [99], cb_payload = None, cb_call = On_accept\<rparr>"
    and "sol_closures (sv_sol s) = new_table closure_destructor"
  shows "\<exists>s'. call_closure sample_env clock 0 s = Inr s' \<and> nclients (sv_info s') = nclients (sv_info s) + 1"
proof -
  have acc: "accept_new_client sample_env 3 s = (0, Some (7, []), s\<lparr>sv_net := n\<rparr>)"
    if "snd (accept_connection sample_kern 1 3 (sv_net s)) = n" for n
    using that by (auto simp: accept_new_client_def sample_env_def sample_kern_def default_config_def accept_connection_def Let_def)
  have put: "table_put sample_env (new_table closure_destructor) [99] a = Inr (put_at (new_table closure_destructor) 0 [99] (Some a))" for a
    by (simp add: table_put_def put_now [OF hash_c] sample_env_def del: hashtable_put.simps)
  show ?thesis using assms acc [OF refl] put
    by (simp add: call_closure_def on_accept_def Let_def put_mem_def upd_info_def) (simp add: sample_env_def)
qed

definition accept_event :: ep_event where
  "accept_event = \<lparr>ev_err = False, ev_hup = False, ev_in = True, ev_out = False, ev_data = U_ptr 0\<rparr>"

theorem server_mute_witness:
  "\<exists>rc s. sol_program 128 9 [] (\<lambda>_. None) sample_env no_net 4 True 0 (\<lambda>_. []) (\<lambda>_. []) (0, []) (\<lambda>_. 77) [Wait_events [accept_event]] = Inr (Some (rc, s))
    \<and> sv_wire s = (\<lambda>_. []) \<and> om_clients (sv_mem s) = (\<lambda>_. None) \<and> bytes_sent (sv_info s) = 0
    \<and> messages_sent (sv_info s) = 0 \<and> messages_recv (sv_info s) = 0"
proof -
  obtain s where s: "server_init sample_env no_net 4 True 0 (\<lambda>_. []) (\<lambda>_. []) = Inr s"
    "get_closure 0 s = Inr \<lparr>cb_fd = 3, cb_obj = None, cb_args = 0, cb_closure_id = [99], cb_payload = None, cb_call = On_accept\<rparr>"
    "el_periodic_nr (sv_loop s) = 1" "el_tasks (sv_loop s) = [Some \<lparr>pt_timerfd = 4, pt_closure = 1\<rparr>, None, None, None]"
    "sol_closures (sv_sol s) = new_table closure_destructor" using sample_init by blast
  from sample_accept [of "srv_report [accept_event] s"] s(2,5) obtain s' where
    c: "call_closure sample_env (0, []) 0 (srv_report [accept_event] s) = Inr s'" by auto
  have "find_periodic (\<lambda>_. 77) (Some accept_event # es) (el_tasks (sv_loop s)) 0 (el_periodic_nr (sv_loop s)) = Inr None" for es
    unfolding s(3,4) by (simp add: udata_fd_def accept_event_def)
  then have "start_server sample_env no_net 4 True 0 (\<lambda>_. []) (\<lambda>_. []) (0, []) (\<lambda>_. 77) [Wait_events [accept_event]] = Inr (None, s')"
    using s(1) c by (simp add: start_server_def run_server_def handle_event_def ev_broken_def) (simp add: accept_event_def)
  moreover have "sample_env\<lparr>se_conf := default_config\<rparr> = sample_env" by (simp add: sample_env_def)
  ultimately have "sol_program 128 9 [] (\<lambda>_. None) sample_env no_net 4 True 0 (\<lambda>_. []) (\<lambda>_. []) (0, []) (\<lambda>_. 77) [Wait_events [accept_event]] = Inr (Some (None, s'))"
    by (simp add: sol_program_def sol_main_default)
  from server_mute [OF this] this show ?thesis by blast
qed

text \<open>
  C2 (on_read_real_packet): every MQTT control packet starts with a byte of 16 or more. When the first byte of one arrives from a client, the server drops the
  client as sending rubbish; and a client that has not connected is dropped by reading through a null pointer.
\<close>

theorem on_read_real_packet:
  assumes "get_closure cb s = Inr c" and "avail (sv_rx s (cb_fd c)) = b # rest" and "16 \<le> b" and "0 < max_request_size (se_conf E)"
  shows "\<exists>rx. on_read E cb s = drop_client cb (s\<lparr>sv_rx := rx\<rparr>) \<and> avail (rx (cb_fd c)) = rest
    \<and> (cb_obj c = None \<longrightarrow> on_read E cb s = Inl Null_deref)"
proof -
  from recv_loop_enough [of 1 "sv_rx s (cb_fd c)" "[]"] assms(2) obtain q where
    q: "recv_loop (sv_rx s (cb_fd c)) [] 1 = (1, [b], q)" "avail q = rest" by auto
  define rx where "rx = (sv_rx s)(cb_fd c := q)"
  have r: "srv_recv (cb_fd c) 1 s = (1, [b], s\<lparr>sv_rx := rx\<rparr>)" using q by (simp add: srv_recv_def recv_bytes_def rx_def)
  have "0 < unat (max_request_size (se_conf E))" using assms(4) by (simp add: unat_gt_0 word_gt_0)
  then have st: "\<exists>b1. store_at 0 [b] (malloc (unat (max_request_size (se_conf E)))) = Inr b1"
    by (simp add: store_at_def write_mem_def)
  have b: "14 < b" using assms(3) by (simp add: word_less_nat_alt word_le_nat_alt)
  have "on_read E cb s = drop_client cb (s\<lparr>sv_rx := rx\<rparr>)"
    using assms(1) r st b by (auto simp: on_read_def recv_packet_def)
  moreover have "cb_obj c = None \<Longrightarrow> drop_client cb (s\<lparr>sv_rx := rx\<rparr>) = Inl Null_deref"
    using assms(1) by (auto simp: drop_client_def get_closure_def get_client_def Let_def srv_close_def)
  ultimately show ?thesis using q(2) by (auto simp: rx_def)
qed

text \<open>A server with one accepted connection: closure 2 on descriptor 7.\<close>

definition sample_closure :: closure where
  "sample_closure = \<lparr>cb_fd = 7, cb_obj = None, cb_args = 2, cb_closure_id = [99], cb_payload = None, cb_call = On_read\<rparr>"

definition sample_srv :: srv where
  "sample_srv = \<lparr>sv_sol = init_sol, sv_mem = empty_mem\<lparr>om_closures := [2 \<mapsto> sample_closure], om_next := 3\<rparr>,
     sv_info = \<lparr>nclients = 1, nconnections = 1, start_time = 0, bytes_recv = 0, bytes_sent = 0, messages_sent = 0, messages_recv = 0\<rparr>,
     sv_loop = evloop_create 256 (- 1), sv_net = no_net, sv_rx = (\<lambda>_. []), sv_tx = (\<lambda>_. [Snd_room 1000]), sv_wire = (\<lambda>_. []), sv_closed = []\<rparr>"

theorem on_read_real_packet_witness:
  "\<exists>rx. on_read sample_env 2 (sample_srv\<lparr>sv_rx := (\<lambda>_. [Sk_data [16, 12]])\<rparr>)
        = drop_client 2 (sample_srv\<lparr>sv_rx := (\<lambda>_. [Sk_data [16, 12]])\<rparr>\<lparr>sv_rx := rx\<rparr>)
    \<and> avail (rx (cb_fd sample_closure)) = [12]
    \<and> (cb_obj sample_closure = None \<longrightarrow> on_read sample_env 2 (sample_srv\<lparr>sv_rx := (\<lambda>_. [Sk_data [16, 12]])\<rparr>) = Inl Null_deref)"
  by (rule on_read_real_packet [where b = 16])
     (simp_all add: get_closure_def sample_srv_def sample_env_def default_config_def)

end
