(* ===== verification/Runs.thy ===== *)
theory Runs
  imports Sol_Prelude
begin

text \<open>
  Runs of a transition system, as interfaces: an invariant that every step keeps, a preorder of states along which every step goes, and a simulation of operations that may
  fail by an abstract machine. What holds of one step then holds of every run. The broker provides all three.
\<close>

locale invariant_run =
  fixes step :: "'s \<Rightarrow> 's \<Rightarrow> bool" and inv :: "'s \<Rightarrow> bool"
  assumes keeps: "step s s' \<Longrightarrow> inv s \<Longrightarrow> inv s'"
begin

lemma run_keeps: "step\<^sup>*\<^sup>* s s' \<Longrightarrow> inv s \<Longrightarrow> inv s'"
  by (induction rule: rtranclp_induct) (blast intro: keeps)+

end

locale ordered_run = invariant_run +
  fixes le :: "'a \<Rightarrow> 'a \<Rightarrow> bool"
  assumes le_refl: "le s s" and le_trans: "le s t \<Longrightarrow> le t u \<Longrightarrow> le s u"
    and step_le: "step s s' \<Longrightarrow> inv s \<Longrightarrow> le s s'"
begin

lemma run_le: "step\<^sup>*\<^sup>* s s' \<Longrightarrow> inv s \<Longrightarrow> le s s'"
  by (induction rule: rtranclp_induct) (blast intro: le_refl le_trans step_le run_keeps)+

text \<open>A property that can only become true stays true.\<close>

lemma run_stable:
  assumes "\<And>s s'. le s s' \<Longrightarrow> P s \<Longrightarrow> P s'"
  shows "step\<^sup>*\<^sup>* s s' \<Longrightarrow> inv s \<Longrightarrow> P s \<Longrightarrow> P s'"
  using assms run_le by blast

end

text \<open>Operations one after the other, up to the first fault.\<close>

fun run_ops :: "('o \<Rightarrow> 's \<Rightarrow> 's res) \<Rightarrow> 'o list \<Rightarrow> 's \<Rightarrow> 's res" where
  "run_ops step [] s = Inr s"
| "run_ops step (x # xs) s = rbind (step x s) (run_ops step xs)"

text \<open>\<open>ready\<close> says that the operations still to come can be carried out.\<close>

locale simulation =
  fixes step :: "'o \<Rightarrow> 's \<Rightarrow> 's res" and spec :: "'o \<Rightarrow> 'a \<Rightarrow> 'a" and abs :: "'s \<Rightarrow> 'a" and ready :: "'o list \<Rightarrow> 's \<Rightarrow> bool"
  assumes simulates: "ready (x # xs) s \<Longrightarrow> \<exists>s'. step x s = Inr s' \<and> abs s' = spec x (abs s) \<and> ready xs s'"
begin

lemma run_simulates: "ready xs s \<Longrightarrow> \<exists>s'. run_ops step xs s = Inr s' \<and> abs s' = fold spec xs (abs s) \<and> ready [] s'"
proof (induction xs arbitrary: s)
  case (Cons x xs)
  from simulates [OF Cons.prems] obtain s1 where "step x s = Inr s1" "abs s1 = spec x (abs s)" "ready xs s1" by blast
  with Cons.IH [of s1] show ?case by auto
qed simp

end

end
