(* ===== verification/Broker.thy ===== *)
theory Broker
  imports Server_Run Runs
begin

text \<open>
  The invariant of the broker's data: the trie of topics, the objects in the store and the two tables, and that every callback and every handler keeps it. The
  step relation \<open>srv_step\<close> lets the callbacks and the handlers run in any order, with any packets and any data arriving in between; the
  reception of a packet is left out of it because of what \<open>Server_Run\<close> shows.
\<close>

section \<open>The invariant\<close>

text \<open>Nothing is allocated at or above the next address.\<close>

definition fresh_ok :: "omem \<Rightarrow> bool" where
  "fresh_ok m \<longleftrightarrow> (\<forall>a \<ge> om_next m. om_clients m a = None \<and> om_topics m a = None \<and> om_subs m a = None \<and> om_closures m a = None)"

text \<open>Every name in the trie leads to a live topic of that name, and every subscriber of a topic is live.\<close>

definition topics_ok :: "sol \<Rightarrow> omem \<Rightarrow> bool" where
  "topics_ok sol m \<longleftrightarrow> wf_tnode (trie_root (sol_topics sol))
     \<and> (\<forall>name t. trie_map (sol_topics sol) name = Some t \<longrightarrow> (\<exists>tp. om_topics m t = Some tp \<and> tp_name tp = name))
     \<and> (\<forall>t tp a. om_topics m t = Some tp \<longrightarrow> a \<in> set (tp_subs tp) \<longrightarrow> om_subs m a \<noteq> None)"

text \<open>A table owns its values: each is the address of a live object, and no two entries have the same one.\<close>

definition owns :: "(nat, omem) hashtable \<Rightarrow> (nat \<Rightarrow> 'o option) \<Rightarrow> bool" where
  "owns t h \<longleftrightarrow> tab_ok t \<and> (\<forall>v \<in># vals (ht_entries t). \<exists>a. v = Some a \<and> h a \<noteq> None) \<and> (\<forall>v. count (vals (ht_entries t)) v \<le> 1)"

definition core_ok :: "sol \<Rightarrow> omem \<Rightarrow> bool" where
  "core_ok sol m \<longleftrightarrow> fresh_ok m \<and> topics_ok sol m \<and> \<not> om_bad m
     \<and> owns (sol_clients sol) (om_clients m) \<and> ht_destructor (sol_clients sol) = client_destructor
     \<and> owns (sol_closures sol) (om_closures m) \<and> ht_destructor (sol_closures sol) = closure_destructor"

abbreviation srv_ok :: "srv \<Rightarrow> bool" where
  "srv_ok s \<equiv> core_ok (sv_sol s) (sv_mem s)"

lemma owns_mono: "owns t h \<Longrightarrow> dom h \<subseteq> dom h' \<Longrightarrow> owns t h'"
  unfolding owns_def by (meson domIff subsetD)

lemma owns_put:
  assumes "owns t h" "h a = None" "table_put E t key a = Inr t'"
  shows "owns t' (h(a \<mapsto> x)) \<and> ht_destructor t' = ht_destructor t"
proof -
  have p: "tab_ok t'" "ht_destructor t' = ht_destructor t" "vals (ht_entries t') \<subseteq># add_mset (Some a) (vals (ht_entries t))"
    using table_put_values [OF assms(3)] assms(1) by (auto simp: owns_def)
  have new: "Some a \<notin># vals (ht_entries t)" using assms(1,2) by (auto simp: owns_def)
  have c: "count (vals (ht_entries t')) v \<le> count (add_mset (Some a) (vals (ht_entries t))) v" for v
    using p(3) by (rule mset_subset_eq_count)
  have "count (vals (ht_entries t')) v \<le> 1" for v
    using c [of v] new assms(1) by (auto simp: owns_def count_eq_zero_iff split: if_splits intro: order_trans)
  moreover have "\<exists>b. v = Some b \<and> (h(a \<mapsto> x)) b \<noteq> None" if "v \<in># vals (ht_entries t')" for v
    using mset_subset_eqD [OF p(3) that] assms(1) by (fastforce simp: owns_def)
  ultimately show ?thesis using p by (auto simp: owns_def)
qed

lemma owns_del:
  assumes "owns t h" "hashtable_del t key m = (t', m', st)"
  shows "ht_destructor t' = ht_destructor t \<and>
    (t' = t \<and> m' = m \<or> (\<exists>e a. he_val e = Some a \<and> h a \<noteq> None \<and> owns t' (h(a := None)) \<and> m' = snd (ht_destructor t e m)))"
proof -
  note d = del_values [OF assms(2)]
  have "\<exists>a. he_val e = Some a \<and> h a \<noteq> None \<and> owns t' (h(a := None))"
    if e: "he_val e \<in># vals (ht_entries t)" and t': "vals (ht_entries t') = vals (ht_entries t) - {#he_val e#}" for e
  proof -
    from e assms(1) obtain a where a: "he_val e = Some a" "h a \<noteq> None" by (auto simp: owns_def)
    have "count (vals (ht_entries t)) (Some a) \<le> 1" using assms(1) by (auto simp: owns_def)
    then have "Some a \<notin># vals (ht_entries t')" using t' a by (simp add: not_in_iff)
    moreover have "v \<in># vals (ht_entries t)" if "v \<in># vals (ht_entries t')" for v
      using that t' by (simp add: in_diffD)
    moreover have "count (vals (ht_entries t')) v \<le> 1" for v
      using assms(1) t' by (auto simp: owns_def intro: order_trans [OF diff_le_self])
    ultimately have "owns t' (h(a := None))" using d assms(1) unfolding owns_def by (metis fun_upd_apply)
    with a show ?thesis by blast
  qed
  then show ?thesis using d assms(1) unfolding owns_def [of t] by blast
qed

section \<open>Topics and subscribers\<close>

lemma trie_insert_map:
  assumes "wf_tnode (trie_root t)"
  shows "wf_tnode (trie_root (trie_insert t key (Some x))) \<and> trie_map (trie_insert t key (Some x)) = (trie_map t)(key \<mapsto> x)"
proof -
  obtain r s where r: "trie_node_insert (trie_root t) key (Some x) (trie_count t) = (r, s)" by force
  from node_insert_spec [OF assms r] r show ?thesis by (simp add: trie_insert_def trie_map_def)
qed

lemma sol_topic_get_map: "sol_topic_get sol name = trie_map (sol_topics sol) name"
  by (simp add: sol_topic_get_def trie_find_map)

lemma new_topic_ok:
  assumes "core_ok sol m" "topic_create name m = (t, m1)"
  shows "\<exists>sol1. sol_topic_put sol (Some t) m1 = Inr sol1 \<and> core_ok sol1 m1 \<and> trie_map (sol_topics sol1) = (trie_map (sol_topics sol))(name \<mapsto> t)
    \<and> om_topics m1 = (om_topics m)(t \<mapsto> topic_init name) \<and> om_subs m1 = om_subs m \<and> om_clients m1 = om_clients m
    \<and> om_closures m1 = om_closures m \<and> sol_clients sol1 = sol_clients sol \<and> sol_closures sol1 = sol_closures sol \<and> om_topics m t = None"
proof -
  have m1: "t = om_next m" "m1 = m\<lparr>om_topics := (om_topics m)(t \<mapsto> topic_init name), om_next := Suc t\<rparr>"
    using topic_create_mem [OF assms(2)] by blast+
  define sol1 where "sol1 = sol\<lparr>sol_topics := trie_insert (sol_topics sol) name (Some t)\<rparr>"
  have wf: "wf_tnode (trie_root (sol_topics sol))" using assms(1) by (simp add: core_ok_def topics_ok_def)
  note i = trie_insert_map [OF wf, of name t]
  have none: "om_topics m t = None" using assms(1) m1(1) by (simp add: core_ok_def fresh_ok_def)
  have f: "fresh_ok m1" using assms(1) m1 by (simp add: core_ok_def fresh_ok_def)
  have ts: "topics_ok sol1 m1" using assms(1) m1(2) i none
    by (auto simp: core_ok_def topics_ok_def sol1_def topic_init_def) (metis option.distinct(1))+
  have "core_ok sol1 m1" using assms(1) m1(2) f ts by (simp add: core_ok_def sol1_def)
  moreover have "sol_topic_put sol (Some t) m1 = Inr sol1" using m1 by (simp add: sol_topic_put_def sol1_def topic_init_def)
  ultimately show ?thesis using i m1(2) none by (auto simp: sol1_def)
qed

lemma new_subscriber_ok:
  assumes "core_ok sol m" "new_subscriber client qos m = (a, m1)"
  shows "core_ok sol m1 \<and> om_subs m1 = (om_subs m)(a \<mapsto> \<lparr>su_qos = qos, su_client = client\<rparr>) \<and> om_subs m a = None
    \<and> om_topics m1 = om_topics m \<and> om_clients m1 = om_clients m \<and> om_closures m1 = om_closures m"
proof -
  have m1: "a = om_next m" "m1 = m\<lparr>om_subs := (om_subs m)(a \<mapsto> \<lparr>su_qos = qos, su_client = client\<rparr>), om_next := Suc a\<rparr>"
    using assms(2) by (auto simp: new_subscriber_def Let_def)
  have "fresh_ok m1" using assms(1) m1 by (simp add: core_ok_def fresh_ok_def)
  moreover have "topics_ok sol m1" using assms(1) m1(2) by (auto simp: core_ok_def topics_ok_def)
  ultimately show ?thesis using assms(1) m1 by (simp add: core_ok_def fresh_ok_def)
qed

text \<open>The topics a callback of the wildcard subscription pushes to, in order, and the store after pushing a subscriber to each of a list of topics.\<close>

fun pushed :: "nat tnode \<Rightarrow> nat list" and pusheds :: "nat tnode list \<Rightarrow> nat list" where
  "pushed (TNode ch children data) = (case data of None \<Rightarrow> [] | Some t \<Rightarrow> pusheds children @ [t])"
| "pusheds [] = []"
| "pusheds (n # ns) = pushed n @ pusheds ns"

definition push_all :: "nat \<Rightarrow> nat list \<Rightarrow> omem \<Rightarrow> omem" where
  "push_all sub ts m = m\<lparr>om_topics := (\<lambda>t. map_option (\<lambda>tp. tp\<lparr>tp_subs := replicate (count_list ts t) sub @ tp_subs tp\<rparr>) (om_topics m t))\<rparr>"

lemma push_all_Nil [simp]: "push_all sub [] m = m"
  by (simp add: push_all_def option.map_ident)

lemma replicate_swap: "replicate j x @ replicate i x @ l = replicate i x @ replicate j x @ l"
  using append_replicate_commute [of j x i] by (metis append.assoc)

lemma push_all_append: "push_all sub ys (push_all sub xs m) = push_all sub (xs @ ys) m"
proof -
  have "om_topics (push_all sub ys (push_all sub xs m)) t = om_topics (push_all sub (xs @ ys) m) t" for t
    using replicate_swap [of "count_list ys t" sub "count_list xs t"]
    by (cases "om_topics m t") (simp_all add: push_all_def replicate_add)
  then show ?thesis by (auto simp: push_all_def)
qed

lemma push_all_dom [simp]: "om_topics (push_all sub ts m) t = None \<longleftrightarrow> om_topics m t = None"
  "(\<exists>tp. om_topics (push_all sub ts m) t = Some tp) \<longleftrightarrow> (\<exists>tp. om_topics m t = Some tp)"
  by (auto simp: push_all_def)

lemma push_subscriber_all: "om_topics m t \<noteq> None \<Longrightarrow> push_subscriber (Some t) sub m = Inr (push_all sub [t] m)"
  by (auto simp: push_subscriber_def push_all_def set_topic_def fun_eq_iff option.map_ident)

lemma recursive_subscription_pushed:
  "\<forall>t \<in> set (pushed n). om_topics m t \<noteq> None \<Longrightarrow> recursive_subscription n sub m = Inr (push_all sub (pushed n) m)"
  "\<forall>t \<in> set (pusheds ns). om_topics m t \<noteq> None \<Longrightarrow> recursive_subscriptions ns sub m = Inr (push_all sub (pusheds ns) m)"
  by (induction n sub m and ns sub m rule: recursive_subscription_recursive_subscriptions.induct)
     (auto simp: push_all_append push_subscriber_all split: option.splits)

lemma push_all_ok:
  assumes "core_ok sol m" "om_subs m sub \<noteq> None"
  shows "core_ok sol (push_all sub ts m)"
proof -
  have "fresh_ok (push_all sub ts m)" using assms(1) by (auto simp: core_ok_def fresh_ok_def push_all_def)
  moreover have "topics_ok sol (push_all sub ts m)" using assms unfolding core_ok_def topics_ok_def push_all_def
    by (fastforce simp: set_replicate_conv_if split: if_splits)
  ultimately show ?thesis using assms(1) by (simp add: core_ok_def push_all_def)
qed

lemma push_all_rest [simp]:
  "om_subs (push_all sub ts m) = om_subs m" "om_clients (push_all sub ts m) = om_clients m"
  "om_closures (push_all sub ts m) = om_closures m"
  by (simp_all add: push_all_def)

lemma pushed_own: "tn_data n = Some t \<Longrightarrow> t \<in> set (pushed n)"
  by (cases n) auto

lemma pushed_below:
  "set (pushed n) \<subseteq> snd ` set (entries n)" "set (pusheds ns) \<subseteq> snd ` set (entries_of ns)"
  by (induction n and ns rule: pushed_pusheds.induct) (auto simp: image_Un image_image split_beta split: option.splits)

lemma postorder_below:
  fixes n :: "'d tnode" and ns :: "'d tnode list"
  shows "x \<in> set (postorder n) \<Longrightarrow> snd ` set (entries x) \<subseteq> snd ` set (entries n)"
    and "x \<in> set (postorder_of ns) \<Longrightarrow> snd ` set (entries x) \<subseteq> snd ` set (entries_of ns)"
proof (induction n and ns rule: postorder_postorder_of.induct)
  case (1 c ch d)
  then show ?case by (cases "x = TNode c ch d") auto
next
  case (3 n ns)
  have "snd ` set (entries_of (n # ns)) = snd ` set (entries n) \<union> snd ` set (entries_of ns)"
    by (simp add: image_Un image_image split_beta)
  then show ?case using 3 by auto
qed simp

lemma all_pushed: "set (concat (map pushed (postorder n))) = snd ` set (entries n)"
proof
  show "set (concat (map pushed (postorder n))) \<subseteq> snd ` set (entries n)"
    using pushed_below(1) postorder_below(1) by fastforce
  show "snd ` set (entries n) \<subseteq> set (concat (map pushed (postorder n)))"
  proof
    fix t assume "t \<in> snd ` set (entries n)"
    then have "Some t \<in> set (map tn_data (filter (\<lambda>n. tn_data n \<noteq> None) (postorder n)))"
      unfolding postorder_data(1) by force
    then show "t \<in> set (concat (map pushed (postorder n)))" using pushed_own by fastforce
  qed
qed

lemma fold_subscription:
  assumes "\<forall>n \<in> set ns. \<forall>t \<in> set (pushed n). om_topics m t \<noteq> None"
  shows "fold (\<lambda>node r. rbind r (recursive_subscription node sub)) ns (Inr m) = Inr (push_all sub (concat (map pushed ns)) m)"
  using assms
proof (induction ns arbitrary: m)
  case (Cons n ns)
  then show ?case by (simp add: recursive_subscription_pushed push_all_append)
qed simp

section \<open>What a topic's subscribers are\<close>

text \<open>The abstract view: the subscriptions of a topic name, the latest first.\<close>

definition subs_at :: "sol \<Rightarrow> omem \<Rightarrow> u8 list \<Rightarrow> subscriber list" where
  "subs_at sol m name = (case sol_topic_get sol name of None \<Rightarrow> []
     | Some t \<Rightarrow> (case om_topics m t of None \<Rightarrow> [] | Some tp \<Rightarrow> map (the \<circ> om_subs m) (tp_subs tp)))"

lemma subs_at_cong:
  "sol_topics sol' = sol_topics sol \<Longrightarrow> om_topics m' = om_topics m \<Longrightarrow> om_subs m' = om_subs m \<Longrightarrow> subs_at sol' m' = subs_at sol m"
  by (rule ext) (simp add: subs_at_def sol_topic_get_def split: option.splits)

lemma topics_live: "core_ok sol m \<Longrightarrow> trie_map (sol_topics sol) k = Some t \<Longrightarrow> \<exists>tp. om_topics m t = Some tp \<and> tp_name tp = k"
  by (simp add: core_ok_def topics_ok_def)

lemma topics_inj:
  "core_ok sol m \<Longrightarrow> trie_map (sol_topics sol) k = Some t \<Longrightarrow> trie_map (sol_topics sol) k' = Some t \<Longrightarrow> k = k'"
  using topics_live [of sol m k t] topics_live [of sol m k' t] by auto

lemma subs_at_push:
  assumes "core_ok sol m" "om_subs m sub = Some x"
  shows "subs_at sol (push_all sub ts m) k =
    replicate (case sol_topic_get sol k of None \<Rightarrow> 0 | Some t \<Rightarrow> count_list ts t) x @ subs_at sol m k"
proof (cases "sol_topic_get sol k")
  case (Some t)
  with topics_live [OF assms(1)] obtain tp where "om_topics m t = Some tp" by (auto simp: sol_topic_get_map)
  with Some assms(2) show ?thesis by (simp add: subs_at_def push_all_def)
qed (simp add: subs_at_def)

lemma subs_at_subs:
  assumes "core_ok sol m" "om_topics m' = om_topics m" "\<And>a. om_subs m a \<noteq> None \<Longrightarrow> om_subs m' a = om_subs m a"
  shows "subs_at sol m' k = subs_at sol m k"
proof -
  have "om_topics m t = Some tp \<Longrightarrow> a \<in> set (tp_subs tp) \<Longrightarrow> om_subs m' a = om_subs m a" for t tp a
    using assms(1,3) unfolding core_ok_def topics_ok_def by blast
  then show ?thesis using assms(2) by (auto simp: subs_at_def split: option.splits)
qed

lemma subs_at_new_sub:
  assumes "core_ok sol m" "new_subscriber client qos m = (a, m1)"
  shows "subs_at sol m1 k = subs_at sol m k"
  using new_subscriber_ok [OF assms] by (intro subs_at_subs [OF assms(1)]) auto

lemma topic_add_subscriber_spec:
  assumes "core_ok sol m" "sol_topic_get sol name = Some t"
  shows "\<exists>m'. topic_add_subscriber (Some t) obj qos True m = Inr m' \<and> core_ok sol m'
    \<and> subs_at sol m' = (subs_at sol m)(name := \<lparr>su_qos = qos, su_client = obj\<rparr> # subs_at sol m name)
    \<and> om_clients m' = om_clients m \<and> om_closures m' = om_closures m"
proof -
  obtain a m1 where n: "new_subscriber obj qos m = (a, m1)" by force
  note ok = new_subscriber_ok [OF assms(1) n]
  from topics_live [OF assms(1)] assms(2) ok have live: "om_topics m1 t \<noteq> None" by (auto simp: sol_topic_get_map)
  have "(case sol_topic_get sol k of None \<Rightarrow> 0 | Some t' \<Rightarrow> count_list [t] t') = (if k = name then 1 else 0)" for k
  proof (cases "k = name")
    case False
    then have "sol_topic_get sol k \<noteq> Some t" using topics_inj [OF assms(1)] assms(2) by (metis sol_topic_get_map)
    then show ?thesis using False by (cases "sol_topic_get sol k") auto
  qed (simp add: assms(2))
  moreover have "core_ok sol m1" "om_subs m1 a = Some \<lparr>su_qos = qos, su_client = obj\<rparr>" using ok by simp_all
  ultimately have "subs_at sol (push_all a [t] m1) = (subs_at sol m)(name := \<lparr>su_qos = qos, su_client = obj\<rparr> # subs_at sol m name)"
    by (simp add: subs_at_push subs_at_new_sub [OF assms(1) n] fun_eq_iff)
  moreover have "topic_add_subscriber (Some t) obj qos True m = Inr (push_all a [t] m1)"
    using n push_subscriber_all [OF live] by (simp add: topic_add_subscriber_def)
  moreover have "core_ok sol (push_all a [t] m1)" using ok by (intro push_all_ok) simp_all
  ultimately show ?thesis using ok by simp
qed

lemma new_topic_subs:
  assumes "core_ok sol m" "sol_topic_get sol name = None" "topic_create name m = (t, m1)" "sol_topic_put sol (Some t) m1 = Inr sol1"
  shows "subs_at sol1 m1 = subs_at sol m"
proof
  fix k
  from new_topic_ok [OF assms(1,3)] assms(4) have n:
    "trie_map (sol_topics sol1) = (trie_map (sol_topics sol))(name \<mapsto> t)" "om_topics m1 = (om_topics m)(t \<mapsto> topic_init name)"
    "om_subs m1 = om_subs m" "om_topics m t = None" by auto
  have "trie_map (sol_topics sol) k \<noteq> Some t" using topics_live [OF assms(1), of k t] n(4) by auto
  then show "subs_at sol1 m1 k = subs_at sol m k" using n assms(2)
    by (auto simp: subs_at_def sol_topic_get_map topic_init_def split: option.splits)
qed

lemma topic_exists_or_created:
  assumes "core_ok sol m"
  shows "\<exists>t sol1 m1. (case sol_topic_get sol name of
         None \<Rightarrow> (let (t, m) = topic_create name m in rbind (sol_topic_put sol (Some t) m) (\<lambda>sol. Inr (t, sol, m)))
       | Some t \<Rightarrow> Inr (t, sol, m)) = Inr (t, sol1, m1) \<and> core_ok sol1 m1 \<and> subs_at sol1 m1 = subs_at sol m \<and> sol_topic_get sol1 name = Some t
     \<and> (\<forall>k. sol_topic_get sol1 k = None \<longleftrightarrow> sol_topic_get sol k = None \<and> k \<noteq> name)
     \<and> om_clients m1 = om_clients m \<and> om_closures m1 = om_closures m \<and> om_subs m1 = om_subs m
     \<and> sol_clients sol1 = sol_clients sol \<and> sol_closures sol1 = sol_closures sol"
proof (cases "sol_topic_get sol name")
  case None
  obtain t m1 where c: "topic_create name m = (t, m1)" by force
  from new_topic_ok [OF assms c] obtain sol1 where s: "sol_topic_put sol (Some t) m1 = Inr sol1" "core_ok sol1 m1"
    "trie_map (sol_topics sol1) = (trie_map (sol_topics sol))(name \<mapsto> t)"
    "om_clients m1 = om_clients m" "om_closures m1 = om_closures m" "om_subs m1 = om_subs m"
    "sol_clients sol1 = sol_clients sol" "sol_closures sol1 = sol_closures sol" by blast
  then show ?thesis using None c new_topic_subs [OF assms None c s(1)] by (simp add: sol_topic_get_map)
qed (use assms in auto)

section \<open>Subscribing\<close>

text \<open>Which topics a subscription reaches: the named one, and with a wildcard every topic below it that exists, when it exists itself.\<close>

definition reached :: "sol \<Rightarrow> bool \<Rightarrow> u8 list \<Rightarrow> u8 list \<Rightarrow> bool" where
  "reached sol wildcard name k \<longleftrightarrow>
     k = name \<or> wildcard \<and> sol_topic_get sol name \<noteq> None \<and> sol_topic_get sol k \<noteq> None \<and> prefix name k"

lemma wildcard_walk:
  assumes "core_ok sol m" "sol_topic_get sol name = Some t" "om_subs m sub \<noteq> None"
  shows "\<exists>ts. trie_prefix_map_tuple (sol_topics sol) (Some name) (\<lambda>node r. rbind r (recursive_subscription node sub)) (Inr m)
      = Inr (push_all sub ts m) \<and> (\<forall>k t. sol_topic_get sol k = Some t \<longrightarrow> (t \<in> set ts \<longleftrightarrow> prefix name k))"
proof -
  let ?r = "trie_root (sol_topics sol)"
  have wf: "wf_tnode ?r" using assms(1) by (simp add: core_ok_def topics_ok_def)
  have some: "lookup ?r name = Some t" using assms(2) by (simp add: sol_topic_get_map trie_map_def)
  then obtain n where n: "trie_node_find ?r name = Some n"
    using find_prefix_None [OF wf, of name "[]"] by (cases "trie_node_find ?r name") auto
  note pre = find_prefix [OF wf n]
  have val: "x \<in> snd ` set (entries n) \<longleftrightarrow> (\<exists>k. lookup ?r (name @ k) = Some x)" for x
    using pre lookup_entries [of n _ x] by force
  have live: "\<forall>x \<in> set (postorder n). \<forall>t \<in> set (pushed x). om_topics m t \<noteq> None"
  proof (intro ballI)
    fix x u assume "x \<in> set (postorder n)" "u \<in> set (pushed x)"
    then have "u \<in> snd ` set (entries n)" using all_pushed [of n] by auto
    then obtain k where "trie_map (sol_topics sol) k = Some u" using val by (auto simp: trie_map_def)
    then show "om_topics m u \<noteq> None" using topics_live [OF assms(1)] by blast
  qed
  have "u \<in> set (concat (map pushed (postorder n))) \<longleftrightarrow> prefix name k" if "sol_topic_get sol k = Some u" for k u
  proof -
    have "u \<in> snd ` set (entries n) \<longleftrightarrow> (\<exists>k'. trie_map (sol_topics sol) (name @ k') = Some u)" using val by (simp add: trie_map_def)
    also have "\<dots> \<longleftrightarrow> prefix name k"
      using that topics_inj [OF assms(1)] by (metis prefix_def sol_topic_get_map)
    finally show ?thesis by (simp only: all_pushed)
  qed
  then show ?thesis using n fold_subscription [OF live]
    by (auto simp: trie_prefix_map_tuple_def map_func_postorder)
qed

lemma subscribe_name_spec:
  assumes "core_ok sol m"
  shows "\<exists>sol' m' c. subscribe_name obj name qos wildcard (sol, m) = Inr (sol', m') \<and> core_ok sol' m'
    \<and> (\<forall>k. subs_at sol' m' k = replicate (c k) \<lparr>su_qos = qos, su_client = obj\<rparr> @ subs_at sol m k)
    \<and> (\<forall>k. 0 < c k \<longleftrightarrow> reached sol wildcard name k)
    \<and> (\<not> (wildcard \<and> sol_topic_get sol name \<noteq> None) \<longrightarrow> c name = 1) \<and> (wildcard \<and> sol_topic_get sol name \<noteq> None \<longrightarrow> 2 \<le> c name)
    \<and> (\<forall>k. sol_topic_get sol' k = None \<longleftrightarrow> sol_topic_get sol k = None \<and> k \<noteq> name)
    \<and> om_clients m' = om_clients m \<and> om_closures m' = om_closures m
    \<and> sol_clients sol' = sol_clients sol \<and> sol_closures sol' = sol_closures sol"
proof (cases "wildcard \<and> sol_topic_get sol name \<noteq> None")
  case False
  then have shape: "subscribe_name obj name qos wildcard (sol, m) = rbind (case sol_topic_get sol name of
         None \<Rightarrow> (let (t, m) = topic_create name m in rbind (sol_topic_put sol (Some t) m) (\<lambda>sol. Inr (t, sol, m)))
       | Some t \<Rightarrow> Inr (t, sol, m)) (\<lambda>(t, sol, m). rbind (topic_add_subscriber (Some t) obj qos True m) (\<lambda>m. Inr (sol, m)))"
    by (auto simp: subscribe_name_def split: option.splits)
  from topic_exists_or_created [OF assms, of name] obtain t sol1 m1 where t: "(case sol_topic_get sol name of
         None \<Rightarrow> (let (t, m) = topic_create name m in rbind (sol_topic_put sol (Some t) m) (\<lambda>sol. Inr (t, sol, m)))
       | Some t \<Rightarrow> Inr (t, sol, m)) = Inr (t, sol1, m1)" "core_ok sol1 m1" "subs_at sol1 m1 = subs_at sol m" "sol_topic_get sol1 name = Some t"
     "\<forall>k. sol_topic_get sol1 k = None \<longleftrightarrow> sol_topic_get sol k = None \<and> k \<noteq> name"
     "om_clients m1 = om_clients m" "om_closures m1 = om_closures m"
     "sol_clients sol1 = sol_clients sol" "sol_closures sol1 = sol_closures sol" by blast
  from topic_add_subscriber_spec [OF t(2,4), of obj qos] obtain m2 where
    "topic_add_subscriber (Some t) obj qos True m1 = Inr m2" "core_ok sol1 m2"
    "subs_at sol1 m2 = (subs_at sol1 m1)(name := \<lparr>su_qos = qos, su_client = obj\<rparr> # subs_at sol1 m1 name)"
    "om_clients m2 = om_clients m1" "om_closures m2 = om_closures m1" by blast
  then show ?thesis using shape t False
    by (intro exI [of _ sol1] exI [of _ m2] exI [of _ "\<lambda>k. if k = name then 1 else 0"]) (simp add: reached_def)
next
  case True
  then obtain t where t: "sol_topic_get sol name = Some t" by blast
  obtain sub m1 where n: "new_subscriber obj qos m = (sub, m1)" by force
  note ok = new_subscriber_ok [OF assms n]
  from ok have sub: "core_ok sol m1" "om_subs m1 sub = Some \<lparr>su_qos = qos, su_client = obj\<rparr>" by simp_all
  with wildcard_walk [OF sub(1) t, of sub] obtain ts where ts: "trie_prefix_map_tuple (sol_topics sol) (Some name)
      (\<lambda>node r. rbind r (recursive_subscription node sub)) (Inr m1) = Inr (push_all sub ts m1)"
    "\<forall>k t. sol_topic_get sol k = Some t \<longrightarrow> (t \<in> set ts \<longleftrightarrow> prefix name k)" by auto
  define c1 where "c1 = (\<lambda>k. case sol_topic_get sol k of None \<Rightarrow> 0 | Some t \<Rightarrow> count_list ts t)"
  define m2 where "m2 = push_all sub ts m1"
  have m2: "core_ok sol m2" "subs_at sol m2 k = replicate (c1 k) \<lparr>su_qos = qos, su_client = obj\<rparr> @ subs_at sol m k" for k
    using push_all_ok [OF sub(1), of sub ts] subs_at_push [OF sub, of ts k] sub subs_at_new_sub [OF assms n]
    by (simp_all add: m2_def c1_def)
  have c1: "0 < c1 k \<longleftrightarrow> sol_topic_get sol k \<noteq> None \<and> prefix name k" for k
    using ts(2) by (auto simp: c1_def count_list_0_iff split: option.splits simp flip: neq0_conv)
  from topic_add_subscriber_spec [OF m2(1) t, of obj qos] obtain m3 where m3:
    "topic_add_subscriber (Some t) obj qos True m2 = Inr m3" "core_ok sol m3"
    "subs_at sol m3 = (subs_at sol m2)(name := \<lparr>su_qos = qos, su_client = obj\<rparr> # subs_at sol m2 name)"
    "om_clients m3 = om_clients m2" "om_closures m3 = om_closures m2" by blast
  have "subscribe_name obj name qos wildcard (sol, m) = Inr (sol, m3)"
    using True t n ts(1) m3(1) by (simp add: subscribe_name_def m2_def)
  moreover have "subs_at sol m3 k = replicate ((c1(name := Suc (c1 name))) k) \<lparr>su_qos = qos, su_client = obj\<rparr> @ subs_at sol m k" for k
    using m3(3) m2(2) by simp
  moreover have "0 < (c1(name := Suc (c1 name))) k \<longleftrightarrow> reached sol wildcard name k" for k
    using True c1 [of k] by (auto simp: reached_def)
  moreover have "2 \<le> (c1(name := Suc (c1 name))) name" using c1 [of name] t by simp
  moreover have "om_clients m3 = om_clients m" "om_closures m3 = om_closures m" using m3(4,5) ok by (simp_all add: m2_def)
  moreover have "\<forall>k. sol_topic_get sol k = None \<longleftrightarrow> sol_topic_get sol k = None \<and> k \<noteq> name" using t by auto
  ultimately show ?thesis using m3(2) True t
    by (intro exI [of _ sol] exI [of _ m3] exI [of _ "c1(name := Suc (c1 name))"]) simp
qed

section \<open>Every operation keeps the invariant\<close>

lemma neutral [simp]:
  "sv_sol (srv_close fd s) = sv_sol s" "sv_mem (srv_close fd s) = sv_mem s"
  "sv_sol (upd_info f s) = sv_sol s" "sv_mem (upd_info f s) = sv_mem s"
  "sv_sol (client_gone s) = sv_sol s" "sv_mem (client_gone s) = sv_mem s"
  "sv_sol (snd (srv_send fd buf s)) = sv_sol s" "sv_mem (snd (srv_send fd buf s)) = sv_mem s"
  "sv_sol (put_mem m s) = sv_sol s" "sv_mem (put_mem m s) = m"
  by (simp_all add: srv_close_def upd_info_def client_gone_def srv_send_def put_mem_def Let_def split_beta)

lemma set_closure_ok:
  assumes "core_ok sol m" "om_closures m a \<noteq> None"
  shows "core_ok sol (set_closure a c m)"
proof -
  have "fresh_ok (set_closure a c m)" using assms by (auto simp: core_ok_def fresh_ok_def set_closure_def)
  moreover have "owns (sol_closures sol) (om_closures (set_closure a c m))"
    using assms owns_mono [of "sol_closures sol" "om_closures m" "(om_closures m)(a \<mapsto> c)"] by (auto simp: core_ok_def set_closure_def)
  ultimately show ?thesis using assms(1) by (simp add: core_ok_def topics_ok_def set_closure_def)
qed

lemma fresh_closure_ok:
  assumes "core_ok sol m" "a = om_next m" "table_put E (sol_closures sol) key a = Inr t"
  shows "core_ok (sol\<lparr>sol_closures := t\<rparr>) ((set_closure a c m)\<lparr>om_next := Suc a\<rparr>)"
proof -
  have n: "om_closures m a = None" using assms(1,2) by (simp add: core_ok_def fresh_ok_def)
  have "owns (sol_closures sol) (om_closures m)" using assms(1) by (simp add: core_ok_def)
  from owns_put [where h = "om_closures m", OF this n assms(3), of c] assms(1) show ?thesis
    by (auto simp: core_ok_def fresh_ok_def topics_ok_def set_closure_def assms(2))
qed

lemma fresh_client_ok:
  assumes "core_ok sol m" "a = om_next m" "table_put E (sol_clients sol) key a = Inr t"
  shows "core_ok (sol\<lparr>sol_clients := t\<rparr>) ((set_client a c m)\<lparr>om_next := Suc a\<rparr>)"
proof -
  have n: "om_clients m a = None" using assms(1,2) by (simp add: core_ok_def fresh_ok_def)
  have "owns (sol_clients sol) (om_clients m)" using assms(1) by (simp add: core_ok_def)
  from owns_put [where h = "om_clients m", OF this n assms(3), of c] assms(1) show ?thesis
    by (auto simp: core_ok_def fresh_ok_def topics_ok_def set_client_def assms(2))
qed

lemma del_client_ok:
  assumes "srv_ok s"
  shows "\<exists>s'. del_client key s = Inr s' \<and> srv_ok s' \<and> om_closures (sv_mem s') = om_closures (sv_mem s)
    \<and> subs_at (sv_sol s') (sv_mem s') = subs_at (sv_sol s) (sv_mem s)"
proof -
  let ?t = "sol_clients (sv_sol s)"
  obtain t m st where d: "hashtable_del ?t key (sv_mem s) = (t, m, st)" by (metis prod_cases3)
  have o: "owns ?t (om_clients (sv_mem s))" "ht_destructor ?t = client_destructor" using assms by (simp_all add: core_ok_def)
  from owns_del [OF o(1) d] o(2) consider "t = ?t" "m = sv_mem s"
    | e a where "he_val e = Some a" "om_clients (sv_mem s) a \<noteq> None" "owns t ((om_clients (sv_mem s))(a := None))"
      "m = snd (client_destructor e (sv_mem s))" "ht_destructor t = client_destructor" by auto
  then show ?thesis
  proof cases
    case 1
    then show ?thesis using d assms by (auto simp: del_client_def core_ok_def)
  next
    case 2
    then have m: "m = (sv_mem s)\<lparr>om_clients := (om_clients (sv_mem s))(a := None)\<rparr>" by (auto simp: client_destructor_def)
    then have c: "core_ok (sv_sol s\<lparr>sol_clients := t\<rparr>) m" using assms 2 by (auto simp: core_ok_def fresh_ok_def topics_ok_def)
    then have "del_client key s = Inr (s\<lparr>sv_sol := (sv_sol s)\<lparr>sol_clients := t\<rparr>, sv_mem := m\<rparr>)" using d by (simp add: del_client_def core_ok_def)
    then show ?thesis using c m subs_at_cong [of "sv_sol s\<lparr>sol_clients := t\<rparr>" "sv_sol s" m "sv_mem s"] by simp
  qed
qed

lemma del_closure_ok:
  assumes "srv_ok s"
  shows "\<exists>s'. del_closure key s = Inr s' \<and> srv_ok s' \<and> om_clients (sv_mem s') = om_clients (sv_mem s)
    \<and> subs_at (sv_sol s') (sv_mem s') = subs_at (sv_sol s) (sv_mem s)"
proof -
  let ?t = "sol_closures (sv_sol s)"
  obtain t m st where d: "hashtable_del ?t key (sv_mem s) = (t, m, st)" by (metis prod_cases3)
  have o: "owns ?t (om_closures (sv_mem s))" "ht_destructor ?t = closure_destructor" using assms by (simp_all add: core_ok_def)
  from owns_del [OF o(1) d] o(2) consider "t = ?t" "m = sv_mem s"
    | e a where "he_val e = Some a" "om_closures (sv_mem s) a \<noteq> None" "owns t ((om_closures (sv_mem s))(a := None))"
      "m = snd (closure_destructor e (sv_mem s))" "ht_destructor t = closure_destructor" by auto
  then show ?thesis
  proof cases
    case 1
    then show ?thesis using d assms by (auto simp: del_closure_def core_ok_def)
  next
    case 2
    then have m: "m = (sv_mem s)\<lparr>om_closures := (om_closures (sv_mem s))(a := None)\<rparr>" by (auto simp: closure_destructor_def)
    then have c: "core_ok (sv_sol s\<lparr>sol_closures := t\<rparr>) m" using assms 2 by (auto simp: core_ok_def fresh_ok_def topics_ok_def)
    then have "del_closure key s = Inr (s\<lparr>sv_sol := (sv_sol s)\<lparr>sol_closures := t\<rparr>, sv_mem := m\<rparr>)" using d by (simp add: del_closure_def core_ok_def)
    then show ?thesis using c m subs_at_cong [of "sv_sol s\<lparr>sol_closures := t\<rparr>" "sv_sol s" m "sv_mem s"] by simp
  qed
qed

lemma del_both_ok:
  assumes "srv_ok s"
  shows "\<exists>s'. rbind (del_client k1 s) (\<lambda>s. rbind (del_closure k2 s) f) = f s' \<and> srv_ok s'
    \<and> subs_at (sv_sol s') (sv_mem s') = subs_at (sv_sol s) (sv_mem s)"
proof -
  from del_client_ok [OF assms] obtain s1 where s1: "del_client k1 s = Inr s1" "srv_ok s1"
    "subs_at (sv_sol s1) (sv_mem s1) = subs_at (sv_sol s) (sv_mem s)" by blast
  from del_closure_ok [OF s1(2)] obtain s2 where "del_closure k2 s1 = Inr s2" "srv_ok s2"
    "subs_at (sv_sol s2) (sv_mem s2) = subs_at (sv_sol s1) (sv_mem s1)" by blast
  with s1 show ?thesis by auto
qed

lemma set_payload_ok: "srv_ok s \<Longrightarrow> set_payload cb p n s = Inr s' \<Longrightarrow> srv_ok s'"
  by (auto simp: set_payload_def get_closure_def put_closure_def set_closure_ok)

lemma reply_ok: "srv_ok s \<Longrightarrow> reply cb pkt type s = Inr (rc, s') \<Longrightarrow> srv_ok s'"
  by (auto simp: reply_def set_payload_ok)

lemma connect_ok:
  assumes "srv_ok s" "connect_handler E cb pkt s = Inr (rc, s')"
  shows "srv_ok s'"
proof -
  from assms(2) obtain p b cid c where p: "pkt = Pkt_connect p" "con_client_id p = Some b" "cstring b = Inr cid" "get_closure cb s = Inr c"
    by (auto simp: connect_handler_def split: mqtt_packet.splits option.splits)
  show ?thesis
  proof (cases "hashtable_exists (sol_clients (sv_sol s)) cid = 0")
    case False
    have "srv_ok (srv_close (cb_fd c) s)" using assms(1) by simp
    from del_both_ok [OF this, of cid "cb_closure_id c" "\<lambda>s. Inr (- 1, client_gone s)"] False assms(2) p show ?thesis
      by (auto simp: connect_handler_def)
  next
    case True
    define a where "a = om_next (sv_mem s)"
    define cl where "cl = \<lparr>sc_client_id = cid, sc_fd = cb_fd c, sc_subscriptions = (if con_clean_session (con_byte p) then None else Some [])\<rparr>"
    define m where "m = (set_client a cl (sv_mem s))\<lparr>om_next := Suc a\<rparr>"
    from assms(2) p True obtain t where t: "table_put E (sol_clients (sv_sol s)) cid a = Inr t"
      by (auto simp: connect_handler_def a_def Let_def)
    define s1 where "s1 = put_closure cb (c\<lparr>cb_obj := Some a\<rparr>) ((put_mem m s)\<lparr>sv_sol := (sv_sol s)\<lparr>sol_clients := t\<rparr>\<rparr>)"
    have "core_ok ((sv_sol s)\<lparr>sol_clients := t\<rparr>) m" unfolding m_def by (rule fresh_client_ok [OF assms(1) a_def t])
    moreover have "om_closures m cb \<noteq> None" using p(4) by (auto simp: m_def set_client_def get_closure_def)
    ultimately have "srv_ok s1" by (simp add: s1_def put_closure_def set_closure_ok)
    moreover have "reply cb (Pkt_connack (mqtt_packet_connack 0x20 0 0)) CONNACK s1 = Inr (rc, s')"
      using assms(2) p True t
      by (simp add: connect_handler_def Let_def s1_def put_mem_def m_def cl_def flip: a_def)
    ultimately show ?thesis by (rule reply_ok)
  qed
qed

lemma disconnect_ok:
  assumes "srv_ok s" "disconnect_handler cb pkt s = Inr (rc, s')"
  shows "srv_ok s'"
proof -
  from assms(2) obtain c cl where c: "get_closure cb s = Inr c" "get_client (cb_obj c) s = Inr cl"
    by (auto simp: disconnect_handler_def)
  have "srv_ok (srv_close (sc_fd cl) s)" using assms(1) by simp
  from del_both_ok [OF this, of "sc_client_id cl" "cb_closure_id c" "\<lambda>s. Inr (- 1, client_gone s)"] assms(2) c show ?thesis
    by (auto simp: disconnect_handler_def)
qed

lemma drop_ok:
  assumes "srv_ok s" "drop_client cb s = Inr s'"
  shows "srv_ok s'"
proof -
  from assms(2) obtain c cl where c: "get_closure cb s = Inr c" "get_client (cb_obj c) (srv_close (cb_fd c) s) = Inr cl"
    by (auto simp: drop_client_def Let_def)
  have "srv_ok (srv_close (cb_fd c) s)" using assms(1) by simp
  from del_both_ok [OF this, of "sc_client_id cl" "cb_closure_id c" "\<lambda>s. Inr (client_gone s)"] assms(2) c show ?thesis
    by (auto simp: drop_client_def)
qed

lemma subscribe_tuples_ok:
  "subscribe_tuples obj n ts wc al da (sol, m) = Inr (rcs, d, sol', m') \<Longrightarrow> core_ok sol m \<Longrightarrow> core_ok sol' m' \<and> om_closures m' = om_closures m"
proof (induction n arbitrary: ts wc al da sol m rcs d)
  case (Suc n)
  from Suc.prems(1) obtain t ts' where ts: "ts = t # ts'" by (cases ts) auto
  from Suc.prems(1) ts obtain topic name wc1 al1 own where n: "deref (st_topic t) = Inr topic"
    "subscribe_topic topic (st_topic_len t) wc al = Inr (name, wc1, al1, own)" by fastforce
  from subscribe_name_spec [OF Suc.prems(2), of obj name "st_qos t" wc1] obtain sol1 m1 where
    s: "subscribe_name obj name (st_qos t) wc1 (sol, m) = Inr (sol1, m1)" "core_ok sol1 m1" "om_closures m1 = om_closures m" by blast
  from Suc.prems(1) ts n s obtain rcs1 where "subscribe_tuples obj n ts' wc1 al1 (da \<or> al1 \<and> own) (sol1, m1) = Inr (rcs1, d, sol', m')"
    by fastforce
  from Suc.IH [OF this s(2)] s(3) show ?case by simp
qed simp

lemma subscribe_ok:
  assumes "srv_ok s" "subscribe_handler cb pkt s = Inr (rc, s')"
  shows "srv_ok s'"
proof -
  from assms(2) obtain p c rcs sol m packed n where p: "pkt = Pkt_subscribe p" "get_closure cb s = Inr c"
    "subscribe_tuples (cb_obj c) (unat (sub_tuples_len p)) (sub_tuples p) False False False (sv_sol s, sv_mem s) = Inr (rcs, False, sol, m)"
    "set_payload cb packed n (s\<lparr>sv_sol := sol, sv_mem := m\<rparr>) = Inr s'"
    by (auto simp: subscribe_handler_def Let_def split: mqtt_packet.splits if_splits)
  from subscribe_tuples_ok [OF p(3) assms(1)] set_payload_ok [OF _ p(4)] show ?thesis by simp
qed

lemma publish_to_next:
  "publish_to (a # subs) p s = Inr r \<Longrightarrow> \<exists>p1 fd bytes f. publish_to subs p1 (upd_info f (snd (srv_send fd bytes s))) = Inr r"
  unfolding publish_to.simps rbind_eq_Inr Let_def split_beta by blast

lemma publish_to_same: "publish_to subs p s = Inr (p', s') \<Longrightarrow> sv_sol s' = sv_sol s \<and> sv_mem s' = sv_mem s"
proof (induction subs arbitrary: p s)
  case (Cons a subs)
  from publish_to_next [OF Cons.prems] obtain p1 fd bytes f where
    "publish_to subs p1 (upd_info f (snd (srv_send fd bytes s))) = Inr (p', s')" by blast
  from Cons.IH [OF this] show ?case by simp
qed simp

lemma topic_for_spec:
  assumes "srv_ok s"
  shows "\<exists>t s1. topic_for name s = Inr (t, s1) \<and> srv_ok s1 \<and> s1 = s\<lparr>sv_sol := sv_sol s1, sv_mem := sv_mem s1\<rparr>
    \<and> subs_at (sv_sol s1) (sv_mem s1) = subs_at (sv_sol s) (sv_mem s) \<and> sol_topic_get (sv_sol s1) name = Some t
    \<and> om_clients (sv_mem s1) = om_clients (sv_mem s) \<and> om_closures (sv_mem s1) = om_closures (sv_mem s)
    \<and> om_subs (sv_mem s1) = om_subs (sv_mem s)"
proof (cases "sol_topic_get (sv_sol s) name")
  case None
  from topic_exists_or_created [OF assms, of name] None show ?thesis
    by (auto simp: topic_for_def Let_def split_beta)
next
  case (Some t)
  then show ?thesis using assms by (auto simp: topic_for_def)
qed

lemma publish_ok:
  assumes "srv_ok s" "publish_handler cb pkt s = Inr (rc, s')"
  shows "srv_ok s'"
proof -
  from assms(2) obtain q where "pkt = Pkt_publish q" by (cases pkt) (simp_all add: publish_handler_def)
  with assms(2) obtain name t s1 p2 s2 and tp :: topic where p: "topic_for name (upd_info (\<lambda>i. i\<lparr>messages_recv := messages_recv i + 1\<rparr>) s) = Inr (t, s1)"
    "publish_to (tp_subs tp) q s1 = Inr (p2, s2)"
    and r: "(if hdr_qos (pub_header q) = 1 then reply cb (Pkt_ack (mqtt_packet_ack 0x40 (pub_pkt_id p2))) PUBACK s2
       else if hdr_qos (pub_header q) = 2 then reply cb (Pkt_ack (mqtt_packet_ack 0x50 (pub_pkt_id p2))) PUBREC s2
       else Inr (0, s2)) = Inr (rc, s')"
    by (auto simp: publish_handler_def Let_def)
  have "srv_ok (upd_info (\<lambda>i. i\<lparr>messages_recv := messages_recv i + 1\<rparr>) s)" using assms(1) by simp
  from topic_for_spec [OF this, of name] p(1) have "srv_ok s1" by auto
  then have "srv_ok s2" using publish_to_same [OF p(2)] by simp
  then show ?thesis using r reply_ok by (auto split: if_splits)
qed

lemma unsubscribe_ok: "srv_ok s \<Longrightarrow> unsubscribe_handler cb pkt s = Inr (rc, s') \<Longrightarrow> srv_ok s'"
  by (auto simp: unsubscribe_handler_def reply_ok split: mqtt_packet.splits)

lemma write_ok:
  assumes "srv_ok s" "on_write cb s = Inr s'"
  shows "srv_ok s'"
proof -
  from assms(2) obtain c fd bytes f where c: "get_closure cb s = Inr c"
    "sv_sol s' = sv_sol s" "sv_mem s' = set_closure cb (c\<lparr>cb_payload := None, cb_call := On_read\<rparr>) (sv_mem s)"
    by (auto simp: on_write_def put_closure_def Let_def split_beta split: option.splits)
  then show ?thesis using set_closure_ok [OF assms(1), of cb] by (auto simp: get_closure_def)
qed

lemma accept_ok:
  assumes "srv_ok s" "on_accept E cb s = Inr s'"
  shows "srv_ok s'"
proof -
  from assms(2) obtain sc where sc: "get_closure cb s = Inr sc" by (auto simp: on_accept_def)
  obtain rc conn s1 where a: "accept_new_client E (cb_fd sc) s = (rc, conn, s1)" by (metis prod_cases3)
  then obtain n where s1: "s1 = s\<lparr>sv_net := n\<rparr>" using accept_new_client_state by blast
  from assms(2) sc a s1 obtain t c where "table_put E (sol_closures (sv_sol s)) (se_uuid E (om_next (sv_mem s))) (om_next (sv_mem s)) = Inr t"
    "sv_sol s' = sv_sol s\<lparr>sol_closures := t\<rparr>" "sv_mem s' = (set_closure (om_next (sv_mem s)) c (sv_mem s))\<lparr>om_next := Suc (om_next (sv_mem s))\<rparr>"
    by (auto simp: on_accept_def Let_def put_mem_def split: option.splits)
  then show ?thesis using fresh_closure_ok [OF assms(1) refl] by simp
qed

lemma publish_message_ok: "srv_ok s \<Longrightarrow> publish_message i t pl s = Inr s' \<Longrightarrow> srv_ok s'"
  by (auto simp: publish_message_def Let_def dest!: publish_to_same split: option.splits)

lemma stats_ok:
  assumes "srv_ok s" "publish_stats now su s = Inr s'"
  shows "srv_ok s'"
proof -
  from assms(2) obtain t1 t2 t3 t4 t5 t6 p1 p2 p3 p4 p5 p6 s1 s2 s3 s4 s5 where
    "publish_message 0 t1 p1 s = Inr s1" "publish_message 0 t2 p2 s1 = Inr s2" "publish_message 0 t3 p3 s2 = Inr s3"
    "publish_message 0 t4 p4 s3 = Inr s4" "publish_message 0 t5 p5 s4 = Inr s5" "publish_message 0 t6 p6 s5 = Inr s'"
    unfolding publish_stats_def Let_def rbind_eq_Inr by blast
  then show ?thesis using assms(1) publish_message_ok by metis
qed

section \<open>The server as a transition system\<close>

text \<open>
  One step: a callback of the event loop, or a handler called with any packet, or the world outside moving: bytes arriving, room in a
  socket, the event loop registering descriptors.
\<close>

inductive srv_step :: "senv \<Rightarrow> srv \<Rightarrow> srv \<Rightarrow> bool" for E where
  accept: "on_accept E cb s = Inr s' \<Longrightarrow> srv_step E s s'"
| connect: "connect_handler E cb pkt s = Inr (rc, s') \<Longrightarrow> srv_step E s s'"
| disconnect: "disconnect_handler cb pkt s = Inr (rc, s') \<Longrightarrow> srv_step E s s'"
| subscribe: "subscribe_handler cb pkt s = Inr (rc, s') \<Longrightarrow> srv_step E s s'"
| unsubscribe: "unsubscribe_handler cb pkt s = Inr (rc, s') \<Longrightarrow> srv_step E s s'"
| publish: "publish_handler cb pkt s = Inr (rc, s') \<Longrightarrow> srv_step E s s'"
| dropped: "drop_client cb s = Inr s' \<Longrightarrow> srv_step E s s'"
| written: "on_write cb s = Inr s' \<Longrightarrow> srv_step E s s'"
| stats: "publish_stats now sutime s = Inr s' \<Longrightarrow> srv_step E s s'"
| outside: "srv_step E s (s\<lparr>sv_rx := rx, sv_tx := tx, sv_loop := loop, sv_closed := fds\<rparr>)"

lemma step_ok: "srv_step E s s' \<Longrightarrow> srv_ok s \<Longrightarrow> srv_ok s'"
  by (induction rule: srv_step.induct)
     ((rule accept_ok connect_ok disconnect_ok subscribe_ok unsubscribe_ok publish_ok drop_ok write_ok stats_ok, assumption, assumption) | simp)+

lemma put_topics_ok: "put_topics names (sol, m) = Inr (sol', m') \<Longrightarrow> core_ok sol m \<Longrightarrow> core_ok sol' m'"
proof (induction names arbitrary: sol m)
  case (Cons name names)
  obtain t m1 where c: "topic_create name m = (t, m1)" by force
  from new_topic_ok [OF Cons.prems(2) c] obtain sol1 where "sol_topic_put sol (Some t) m1 = Inr sol1" "core_ok sol1 m1" by blast
  then show ?case using Cons c by simp
qed simp

lemma init_ok: "core_ok init_sol (init_mem E fd)"
proof -
  have "trie_map (trie_init :: nat trie) = (\<lambda>_. None)" "wf_tnode (trie_root (trie_init :: nat trie))"
    using trie_create_ok(1) [unfolded trie_create_def trie_ok_def, THEN conjunct1] trie_create_ok(2) by (simp_all add: trie_create_def)
  then show ?thesis
    by (auto simp: core_ok_def fresh_ok_def topics_ok_def owns_def init_sol_def init_mem_def empty_mem_def new_table_values)
qed

lemma server_init_ok:
  assumes "server_init E n tfd ok now rx tx = Inr s"
  shows "srv_ok s"
proof -
  from assms obtain fd where "put_topics sys_topics (init_sol, init_mem E fd) = Inr (sv_sol s, sv_mem s)"
    by (auto simp: server_init_def Let_def)
  then show ?thesis using put_topics_ok init_ok by blast
qed

interpretation srv_inv: invariant_run "srv_step E" srv_ok for E
  by unfold_locales (rule step_ok)

text \<open>For the witnesses: the first step of a server that has just started, accepting a connection.\<close>

lemma sample_step:
  "\<exists>s s'. server_init sample_env no_net 4 True 0 (\<lambda>_. []) (\<lambda>_. []) = Inr s \<and> srv_step sample_env s s'
    \<and> nclients (sv_info s') = nclients (sv_info s) + 1"
proof -
  obtain s where s: "server_init sample_env no_net 4 True 0 (\<lambda>_. []) (\<lambda>_. []) = Inr s"
    "get_closure 0 s = Inr \<lparr>cb_fd = 3, cb_obj = None, cb_args = 0, cb_closure_id = [99], cb_payload = None, cb_call = On_accept\<rparr>"
    "sol_closures (sv_sol s) = new_table closure_destructor" using sample_init by blast
  from sample_accept [OF s(2,3), of "(0, [])"] obtain s' where
    c: "call_closure sample_env (0, []) 0 s = Inr s'" "nclients (sv_info s') = nclients (sv_info s) + 1" by blast
  then have "on_accept sample_env 0 s = Inr s'" using s(2) by (simp add: call_closure_def)
  then have "srv_step sample_env s s'" by (rule srv_step.accept)
  with s(1) c(2) show ?thesis by blast
qed

text \<open>
  C4 (broker_invariant): in every state the server reaches from start-up by accepting, answering, dropping clients and handling packets of any content in any order,
  the data is consistent: every topic name leads to a live topic of that name whose subscribers are live, the two tables hold each live client and closure at
  most once and nothing else, and therefore deleting a client or a closure, whatever the key, never touches freed memory.
\<close>

theorem broker_invariant:
  assumes "server_init E n tfd ok now rx tx = Inr s0" and "(srv_step E)\<^sup>*\<^sup>* s0 s"
  shows "topics_ok (sv_sol s) (sv_mem s) \<and> owns (sol_clients (sv_sol s)) (om_clients (sv_mem s))
    \<and> owns (sol_closures (sv_sol s)) (om_closures (sv_mem s))
    \<and> (\<forall>key. \<exists>s1 s2. del_client key s = Inr s1 \<and> del_closure key s = Inr s2)"
proof -
  have "srv_ok s" using srv_inv.run_keeps [OF assms(2)] server_init_ok [OF assms(1)] by blast
  then show ?thesis using del_client_ok [of s] del_closure_ok [of s] unfolding core_ok_def by blast
qed

theorem broker_invariant_witness:
  "\<exists>s0 s. server_init sample_env no_net 4 True 0 (\<lambda>_. []) (\<lambda>_. []) = Inr s0 \<and> srv_step sample_env s0 s
    \<and> nclients (sv_info s) = nclients (sv_info s0) + 1
    \<and> topics_ok (sv_sol s) (sv_mem s) \<and> owns (sol_clients (sv_sol s)) (om_clients (sv_mem s))
    \<and> owns (sol_closures (sv_sol s)) (om_closures (sv_mem s))
    \<and> (\<forall>key. \<exists>s1 s2. del_client key s = Inr s1 \<and> del_closure key s = Inr s2)"
proof -
  from sample_step obtain s0 s where s: "server_init sample_env no_net 4 True 0 (\<lambda>_. []) (\<lambda>_. []) = Inr s0" "srv_step sample_env s0 s"
    "nclients (sv_info s) = nclients (sv_info s0) + 1" by blast
  with broker_invariant [OF s(1) r_into_rtranclp [where r = "srv_step sample_env", OF s(2)]] show ?thesis by blast
qed

end
