(* ===== verification/Server_Handlers.thy ===== *)
theory Server_Handlers
  imports Broker
begin

text \<open>
  What each handler of the server does when it is called with a packet of its type: registering a client and its CONNACK,
  subscribing, delivering a message to the subscribers of a topic, and the ways in which freed memory is reached.
\<close>

section \<open>Sending\<close>

text \<open>A socket that takes up to \<open>M\<close> bytes in each of the next \<open>n\<close> calls.\<close>

definition roomy :: "nat \<Rightarrow> nat \<Rightarrow> snd_event list \<Rightarrow> bool" where
  "roomy M n q \<longleftrightarrow> n \<le> length q \<and> (\<forall>e \<in> set (take n q). \<exists>k \<ge> M. e = Snd_room k)"

lemma roomy_less: "roomy M n q \<Longrightarrow> k \<le> n \<Longrightarrow> roomy M k q"
  by (auto simp: roomy_def dest: set_take_subset_set_take [of k n q, THEN subsetD])

lemma roomy_Suc: "roomy M (Suc n) q \<Longrightarrow> \<exists>k q'. q = Snd_room k # q' \<and> M \<le> k \<and> roomy M n q'"
  by (cases q) (auto simp: roomy_def)

lemma srv_send_roomy:
  assumes "roomy M (Suc n) (sv_tx s fd)" "0 < length buf" "length buf \<le> M"
  shows "srv_send fd buf s = (int (length buf),
    s\<lparr>sv_tx := (sv_tx s)(fd := tl (sv_tx s fd)), sv_wire := (sv_wire s)(fd := sv_wire s fd @ buf)\<rparr>)"
proof -
  from roomy_Suc [OF assms(1)] obtain k q where q: "sv_tx s fd = Snd_room k # q" "M \<le> k" by blast
  then have "send_bytes (sv_tx s fd) buf = (int (length buf), buf, q)"
    using assms(2,3) order.strict_trans2 [of 0 "length buf" k] by (auto simp: send_bytes_def send_loop.simps [of _ "[]"] send_loop.simps [of _ _ "[]"] min_def)
  then show ?thesis using q by (simp add: srv_send_def)
qed

section \<open>Delivering a message\<close>

lemma bit_3: "bit (3 :: u8) n \<longleftrightarrow> n = 0 \<or> n = 1"
  using bit_mask_iff [of 2 n, where ?'a = u8] by (auto simp: mask_eq_exp_minus_1)

lemma bit_F9: "bit (0xF9 :: u8) n \<longleftrightarrow> n < 8 \<and> n \<noteq> 1 \<and> n \<noteq> 2"
proof -
  have "(0xF9 :: u8) = NOT (push_bit 1 3)" by code_simp
  then show ?thesis by (simp only: bit_not_iff bit_push_bit_iff bit_3) auto
qed

lemma qos_bits_off: "push_bit 1 (a AND 3) AND 0xF9 = (0 :: u8)"
  by (rule bit_word_eqI) (auto simp only: bit_and_iff bit_push_bit_iff bit_3 bit_F9 bit_0_eq bot_apply bot_bool_def)

lemma set_hdr_qos_again [simp]: "set_hdr_qos q (set_hdr_qos r h) = set_hdr_qos q h"
  by (simp only: set_hdr_qos_def bit.conj_disj_distrib2 qos_bits_off and.assoc and.idem or.right_neutral)

text \<open>A subscriber whose client is still there, the descriptor of that client, and what a descriptor gets of a message whose bytes depend on the QoS.\<close>

definition live_sub :: "omem \<Rightarrow> subscriber \<Rightarrow> bool" where
  "live_sub m x \<longleftrightarrow> (\<exists>a cl. su_client x = Some a \<and> om_clients m a = Some cl)"

definition sub_fd :: "omem \<Rightarrow> subscriber \<Rightarrow> int" where
  "sub_fd m x = sc_fd (the (om_clients m (the (su_client x))))"

definition inbox :: "omem \<Rightarrow> (u32 \<Rightarrow> u8 list) \<Rightarrow> subscriber list \<Rightarrow> int \<Rightarrow> u8 list" where
  "inbox m msg xs fd = concat (map (\<lambda>x. if sub_fd m x = fd then msg (su_qos x) else []) xs)"

lemma live_sub_get: "live_sub (sv_mem s) x \<Longrightarrow> \<exists>sc. get_client (su_client x) s = Inr sc \<and> sc_fd sc = sub_fd (sv_mem s) x"
  by (auto simp: live_sub_def sub_fd_def get_client_def)

lemma wire_publish_length: "0 < length (wire_publish h topic pid payload)"
  "length topic < 65536 \<Longrightarrow> length payload < 65536 \<Longrightarrow> length (wire_publish h topic pid payload) \<le> length topic + length payload + 9"
proof -
  show "0 < length (wire_publish h topic pid payload)" by (simp add: wire_publish_def)
  assume "length topic < 65536" "length payload < 65536"
  then have m: "length (publish_body h topic pid payload) < 200000" by (simp add: length_publish_body)
  then have "length (wire_publish h topic pid payload) = 1 + length_bytes (length (publish_body h topic pid payload)) + length (publish_body h topic pid payload)"
    by (simp add: wire_publish_def length_encode_loop unat_of_nat_small)
  then show "length (wire_publish h topic pid payload) \<le> length topic + length payload + 9"
    using length_bytes_bounds(2) [of "length (publish_body h topic pid payload)"] length_publish_body [of h topic pid payload] by (simp split: if_splits)
qed

lemma publish_to_one:
  assumes "om_subs (sv_mem s) a = Some x" "live_sub (sv_mem s) x" "length topic < 65536" "length payload < 65536"
    and "zero_free topic" "zero_free payload" "length topic + length payload + 9 \<le> M"
    and "roomy M (Suc n) (sv_tx s (sub_fd (sv_mem s) x))"
    and w: "w = wire_publish (set_hdr_qos (su_qos x) h) topic pid payload"
  shows "publish_to (a # subs) (publish_of h topic pid payload) s = publish_to subs (publish_of (set_hdr_qos (su_qos x) h) topic pid payload)
    (upd_info (\<lambda>i. i\<lparr>bytes_sent := bytes_sent i + int (length w), messages_sent := messages_sent i + 1\<rparr>)
      (s\<lparr>sv_tx := (sv_tx s)(sub_fd (sv_mem s) x := tl (sv_tx s (sub_fd (sv_mem s) x))),
         sv_wire := (sv_wire s)(sub_fd (sv_mem s) x := sv_wire s (sub_fd (sv_mem s) x) @ w)\<rparr>))"
proof -
  from live_sub_get [OF assms(2)] obtain sc where sc: "get_client (su_client x) s = Inr sc" "sc_fd sc = sub_fd (sv_mem s) x" by blast
  let ?p = "publish_of (set_hdr_qos (su_qos x) h) topic pid payload"
  have p: "publish_of h topic pid payload\<lparr>pub_header := set_hdr_qos (su_qos x) (pub_header (publish_of h topic pid payload))\<rparr> = ?p"
    by (simp add: publish_of_def)
  have pk: "pack_mqtt_packet (Pkt_publish ?p) PUBLISH = Inr (map Some w)"
    using pack_mqtt_publish_eq [OF assms(3-6)] w by (simp add: pack_mqtt_packet_def call_table_def pack_handlers_def)
  have len: "unat (publish_base_len ?p + remaininglen_offset (publish_base_len ?p)) = length w"
    using publish_sizes(1) [OF assms(3,4) refl] w by simp
  have "length w \<le> M" using wire_publish_length(2) [OF assms(3,4)] assms(7) w by (meson order_trans)
  moreover have "0 < length w" unfolding w by (rule wire_publish_length(1))
  ultimately have "srv_send (sub_fd (sv_mem s) x) w s = (int (length w), s\<lparr>sv_tx := (sv_tx s)(sub_fd (sv_mem s) x := tl (sv_tx s (sub_fd (sv_mem s) x))),
         sv_wire := (sv_wire s)(sub_fd (sv_mem s) x := sv_wire s (sub_fd (sv_mem s) x) @ w)\<rparr>)" by (intro srv_send_roomy [OF assms(8)])
  moreover have "read_cells (map Some w) (length w) = Inr w" using read_cells_map_Some [of "length w" w "[]"] by simp
  ultimately show ?thesis using assms(1) sc pk len by (simp add: p Let_def)
qed

text \<open>The whole loop, over a subscriber list that reads as \<open>xs\<close>.\<close>

lemma publish_to_delivers:
  assumes "length topic < 65536" "length payload < 65536" "zero_free topic" "zero_free payload" "length topic + length payload + 9 \<le> M"
    and "\<forall>x \<in> set xs. live_sub (sv_mem s) x \<and> roomy M (length xs) (sv_tx s (sub_fd (sv_mem s) x))"
    and "\<forall>a \<in> set subs. om_subs (sv_mem s) a \<noteq> None" and "xs = map (the \<circ> om_subs (sv_mem s)) subs"
  shows "\<exists>h' s'. publish_to subs (publish_of h topic pid payload) s = Inr (publish_of h' topic pid payload, s')
    \<and> sv_sol s' = sv_sol s \<and> sv_mem s' = sv_mem s \<and> sv_loop s' = sv_loop s
    \<and> sv_wire s' = (\<lambda>fd. sv_wire s fd @ inbox (sv_mem s) (\<lambda>q. wire_publish (set_hdr_qos q h) topic pid payload) xs fd)
    \<and> messages_sent (sv_info s') = messages_sent (sv_info s) + int (length xs) \<and> messages_recv (sv_info s') = messages_recv (sv_info s)
    \<and> (\<forall>fd n. roomy M (n + length xs) (sv_tx s fd) \<longrightarrow> roomy M n (sv_tx s' fd))"
  using assms(6-8)
proof (induction subs arbitrary: xs h s)
  case Nil
  then show ?case by (auto simp: inbox_def)
next
  case (Cons a subs)
  let ?m = "sv_mem s"
  from Cons.prems obtain x ys where x: "om_subs ?m a = Some x" "xs = x # ys" "ys = map (the \<circ> om_subs ?m) subs" by auto
  define w where "w = wire_publish (set_hdr_qos (su_qos x) h) topic pid payload"
  define s1 where "s1 = upd_info (\<lambda>i. i\<lparr>bytes_sent := bytes_sent i + int (length w), messages_sent := messages_sent i + 1\<rparr>)
      (s\<lparr>sv_tx := (sv_tx s)(sub_fd ?m x := tl (sv_tx s (sub_fd ?m x))), sv_wire := (sv_wire s)(sub_fd ?m x := sv_wire s (sub_fd ?m x) @ w)\<rparr>)"
  have r: "live_sub ?m x" "roomy M (Suc (length ys)) (sv_tx s (sub_fd ?m x))" using Cons.prems(1) x(2) by auto
  have step: "publish_to (a # subs) (publish_of h topic pid payload) s = publish_to subs (publish_of (set_hdr_qos (su_qos x) h) topic pid payload) s1"
    unfolding s1_def by (rule publish_to_one [OF x(1) r(1) assms(1-5) r(2) w_def])
  have s1: "sv_mem s1 = ?m" "sv_tx s1 = (sv_tx s)(sub_fd ?m x := tl (sv_tx s (sub_fd ?m x)))"
    "sv_wire s1 = (sv_wire s)(sub_fd ?m x := sv_wire s (sub_fd ?m x) @ w)" "sv_loop s1 = sv_loop s" "sv_sol s1 = sv_sol s"
    "messages_sent (sv_info s1) = messages_sent (sv_info s) + 1" "messages_recv (sv_info s1) = messages_recv (sv_info s)"
    by (simp_all add: s1_def upd_info_def)
  have "roomy M (length ys) (sv_tx s1 (sub_fd ?m y))" if "y \<in> set ys" for y
    using that Cons.prems(1) x(2) roomy_Suc [OF r(2)] by (auto simp: s1(2) intro: roomy_less)
  then have "\<forall>y \<in> set ys. live_sub (sv_mem s1) y \<and> roomy M (length ys) (sv_tx s1 (sub_fd (sv_mem s1) y))"
    using Cons.prems(1) x(2) s1(1) by simp
  from Cons.IH [OF this, of "set_hdr_qos (su_qos x) h"] Cons.prems(2) x(3) s1(1) obtain h' s' where
    s': "publish_to subs (publish_of (set_hdr_qos (su_qos x) h) topic pid payload) s1 = Inr (publish_of h' topic pid payload, s')"
      "sv_sol s' = sv_sol s1" "sv_mem s' = ?m" "sv_loop s' = sv_loop s1"
      "sv_wire s' = (\<lambda>fd. sv_wire s1 fd @ inbox ?m (\<lambda>q. wire_publish (set_hdr_qos q h) topic pid payload) ys fd)"
      "messages_sent (sv_info s') = messages_sent (sv_info s1) + int (length ys)" "messages_recv (sv_info s') = messages_recv (sv_info s1)"
      "\<forall>fd n. roomy M (n + length ys) (sv_tx s1 fd) \<longrightarrow> roomy M n (sv_tx s' fd)" by auto
  have "roomy M (n + length ys) (sv_tx s1 fd)" if "roomy M (n + length xs) (sv_tx s fd)" for fd n
    using that roomy_Suc [of M "n + length ys" "sv_tx s fd"] x(2) by (auto simp: s1(2) intro: roomy_less)
  then have "\<forall>fd n. roomy M (n + length xs) (sv_tx s fd) \<longrightarrow> roomy M n (sv_tx s' fd)" using s'(8) by blast
  note room = this
  have "sv_wire s' = (\<lambda>fd. sv_wire s fd @ inbox ?m (\<lambda>q. wire_publish (set_hdr_qos q h) topic pid payload) xs fd)"
    by (auto simp: s'(5) s1(3) x(2) inbox_def w_def)
  with step s' s1 x(2) room show ?case by auto
qed

section \<open>Replies\<close>

text \<open>The reply of a closure that holds these bytes.\<close>

definition packed :: "u8 list \<Rightarrow> bytestring" where
  "packed bs = bytestring_create (length bs)\<lparr>bs_data := map Some bs\<rparr>"

lemma set_payload_packed:
  assumes "get_closure cb s = Inr c"
  shows "set_payload cb (map Some bs) (length bs) s = Inr (put_closure cb (c\<lparr>cb_payload := Some (packed bs)\<rparr>) s)"
  using assms by (simp add: set_payload_def bytestring_fill_create packed_def)

lemma reply_packed:
  assumes "get_closure cb s = Inr c" "pack_mqtt_packet pkt type = Inr (map Some bs)" "length bs = 4"
  shows "reply cb pkt type s = Inr (1, put_closure cb (c\<lparr>cb_payload := Some (packed bs)\<rparr>) s)"
  using set_payload_packed [OF assms(1), of bs] assms(2,3) by (simp add: reply_def)

lemma pack_ack: "type \<in> {PUBACK, PUBREC, UNSUBACK} \<Longrightarrow>
    pack_mqtt_packet (Pkt_ack (mqtt_packet_ack b pid)) type = Inr (map Some (b # 2 # be16 pid))"
  using pack_mqtt_ack_eq [of "mqtt_packet_ack b pid"]
  by (auto simp: pack_mqtt_packet_def call_table_def pack_handlers_def mqtt_packet_ack_def be16_def)

lemma get_closure_put [simp]:
  "get_closure a (put_closure a c s) = Inr c" "b \<noteq> a \<Longrightarrow> get_closure b (put_closure a c s) = get_closure b s"
  by (simp_all add: get_closure_def put_closure_def set_closure_def deref_at_def)

lemma put_closure_rest [simp]:
  "sv_sol (put_closure a c s) = sv_sol s" "sv_wire (put_closure a c s) = sv_wire s" "sv_info (put_closure a c s) = sv_info s"
  "sv_tx (put_closure a c s) = sv_tx s" "sv_loop (put_closure a c s) = sv_loop s"
  "sv_mem (put_closure a c s) = set_closure a c (sv_mem s)" "om_clients (set_closure a c m) = om_clients m"
  by (simp_all add: put_closure_def put_mem_def set_closure_def)

lemma subs_at_closure [simp]: "subs_at sol (set_closure a c m) = subs_at sol m"
  by (rule subs_at_cong) (simp_all add: set_closure_def)

text \<open>Sending the reply: it goes out whole, the closure waits for the next packet, and its descriptor is armed for reading.\<close>

lemma on_write_spec:
  assumes "get_closure cb s = Inr c" "cb_payload c = Some (packed bs)" "bs \<noteq> []" "roomy (length bs) 1 (sv_tx s (cb_fd c))"
  shows "\<exists>s'. on_write cb s = Inr s' \<and> sv_wire s' = (sv_wire s)(cb_fd c := sv_wire s (cb_fd c) @ bs)
    \<and> get_closure cb s' = Inr (c\<lparr>cb_payload := None, cb_call := On_read\<rparr>)
    \<and> sv_loop s' = snd (evloop_rearm_callback_read (sv_loop s) (cb_fd c) cb)
    \<and> bytes_sent (sv_info s') = bytes_sent (sv_info s) + int (length bs) \<and> sv_sol s' = sv_sol s \<and> om_clients (sv_mem s') = om_clients (sv_mem s)
    \<and> sv_tx s' = (sv_tx s)(cb_fd c := tl (sv_tx s (cb_fd c))) \<and> subs_at (sv_sol s') (sv_mem s') = subs_at (sv_sol s) (sv_mem s)"
proof -
  have r: "read_cells (bs_data (packed bs)) (bs_size (packed bs)) = Inr bs"
    using read_cells_map_Some [of "length bs" bs "[]"] by (simp add: packed_def)
  have "roomy (length bs) (Suc 0) (sv_tx s (cb_fd c))" using assms(4) by simp
  from srv_send_roomy [OF this _ order_refl] assms(3) have
    "srv_send (cb_fd c) bs s = (int (length bs), s\<lparr>sv_tx := (sv_tx s)(cb_fd c := tl (sv_tx s (cb_fd c))),
       sv_wire := (sv_wire s)(cb_fd c := sv_wire s (cb_fd c) @ bs)\<rparr>)" by simp
  moreover have "subs_at sol (m\<lparr>om_closures := k\<rparr>) = subs_at sol m" for sol m k by (rule subs_at_cong) simp_all
  ultimately show ?thesis using assms(1,2) r by (simp add: on_write_def Let_def upd_info_def put_closure_def put_mem_def set_closure_def get_closure_def)
qed

section \<open>Publishing\<close>

lemma publish_of_fields [simp]: "pub_header (publish_of h topic pid payload) = h" "pub_pkt_id (publish_of h topic pid payload) = pid"
  by (simp_all add: publish_of_def)

definition slashed :: "u8 list \<Rightarrow> u8 list" where
  "slashed topic = (if last topic = 47 then topic else topic @ [47])"

lemma cstring_cstr [simp]: "zero_free s \<Longrightarrow> cstring (cstr s) = Inr s"
  by (simp add: cstring_def read_cells_cstr)

lemma char_at_last: "s \<noteq> [] \<Longrightarrow> length s < 65536 \<Longrightarrow> char_at (cstr s) (uint (of_nat (length s) :: u16) - 1) = Inr (last s)"
proof -
  assume s: "s \<noteq> []" "length s < 65536"
  then have "unat (of_nat (length s) :: u16) = length s" by (intro unat_of_nat_small) simp
  then have u: "uint (of_nat (length s) :: u16) = int (length s)" by (metis uint_nat)
  show ?thesis unfolding u using s by (cases s rule: rev_cases) (simp_all add: char_at_def cstr_def nth_append)
qed

lemma publish_topic_slashed:
  assumes "topic \<noteq> []" "length topic < 65536" "zero_free topic"
  shows "publish_topic (publish_of h topic pid payload) = Inr (slashed topic)"
  using assms append_string_cstr [of topic 1 "[47]"]
  by (simp add: publish_topic_def publish_of_def deref_def char_at_last slashed_def)

definition publish_reply :: "mqtt_header \<Rightarrow> u16 \<Rightarrow> bytestring option \<Rightarrow> bytestring option" where
  "publish_reply h pid old = (if hdr_qos h = 1 then Some (packed (0x40 # 2 # be16 pid))
     else if hdr_qos h = 2 then Some (packed (0x50 # 2 # be16 pid)) else old)"

lemma subs_at_list:
  assumes "core_ok sol m" "sol_topic_get sol name = Some t"
  obtains tp where "om_topics m t = Some tp" "subs_at sol m name = map (the \<circ> om_subs m) (tp_subs tp)" "\<forall>a \<in> set (tp_subs tp). om_subs m a \<noteq> None"
proof -
  from topics_live [OF assms(1)] assms(2) obtain tp where "om_topics m t = Some tp" by (auto simp: sol_topic_get_map)
  moreover have "\<forall>a \<in> set (tp_subs tp). om_subs m a \<noteq> None" using assms(1) calculation unfolding core_ok_def topics_ok_def by blast
  ultimately show ?thesis using that assms(2) by (simp add: subs_at_def)
qed

text \<open>The state in which the loop over the subscribers starts.\<close>

lemma publish_found:
  assumes "srv_ok s" "get_closure cb s = Inr c" "get_client (cb_obj c) s = Inr cl" "topic \<noteq> []" "length topic < 65536" "zero_free topic"
  shows "\<exists>s1 tp. srv_ok s1 \<and> sv_tx s1 = sv_tx s \<and> sv_wire s1 = sv_wire s \<and> sv_loop s1 = sv_loop s
    \<and> sv_info s1 = (sv_info s)\<lparr>messages_recv := messages_recv (sv_info s) + 1\<rparr>
    \<and> subs_at (sv_sol s1) (sv_mem s1) = subs_at (sv_sol s) (sv_mem s) \<and> om_clients (sv_mem s1) = om_clients (sv_mem s)
    \<and> om_closures (sv_mem s1) = om_closures (sv_mem s)
    \<and> subs_at (sv_sol s) (sv_mem s) (slashed topic) = map (the \<circ> om_subs (sv_mem s1)) (tp_subs tp)
    \<and> (\<forall>a \<in> set (tp_subs tp). om_subs (sv_mem s1) a \<noteq> None)
    \<and> publish_handler cb (Pkt_publish (publish_of h topic pid payload)) s =
       rbind (publish_to (tp_subs (tp :: topic)) (publish_of h topic pid payload) s1) (\<lambda>(p, s).
         if hdr_qos h = 1 then reply cb (Pkt_ack (mqtt_packet_ack 0x40 (pub_pkt_id p))) PUBACK s
         else if hdr_qos h = 2 then reply cb (Pkt_ack (mqtt_packet_ack 0x50 (pub_pkt_id p))) PUBREC s
         else Inr (0, s))"
proof -
  define s0 where "s0 = upd_info (\<lambda>i. i\<lparr>messages_recv := messages_recv i + 1\<rparr>) s"
  have s0: "srv_ok s0" "sv_sol s0 = sv_sol s" "sv_mem s0 = sv_mem s" "sv_tx s0 = sv_tx s" "sv_wire s0 = sv_wire s" "sv_loop s0 = sv_loop s"
    "sv_info s0 = (sv_info s)\<lparr>messages_recv := messages_recv (sv_info s) + 1\<rparr>"
    using assms(1) by (simp_all add: s0_def) (simp_all add: upd_info_def)
  from topic_for_spec [OF s0(1), of "slashed topic"] obtain t s1 where t: "topic_for (slashed topic) s0 = Inr (t, s1)" "srv_ok s1"
    "s1 = s0\<lparr>sv_sol := sv_sol s1, sv_mem := sv_mem s1\<rparr>"
    "subs_at (sv_sol s1) (sv_mem s1) = subs_at (sv_sol s) (sv_mem s)" "sol_topic_get (sv_sol s1) (slashed topic) = Some t"
    "om_clients (sv_mem s1) = om_clients (sv_mem s)" "om_closures (sv_mem s1) = om_closures (sv_mem s)" using s0(2,3) by auto
  from t(3) s0 have same: "sv_tx s1 = sv_tx s" "sv_wire s1 = sv_wire s" "sv_loop s1 = sv_loop s"
    "sv_info s1 = (sv_info s)\<lparr>messages_recv := messages_recv (sv_info s) + 1\<rparr>" by (metis srv.surjective srv.select_convs srv.update_convs)+
  obtain tp where tp: "om_topics (sv_mem s1) t = Some tp" "subs_at (sv_sol s1) (sv_mem s1) (slashed topic) = map (the \<circ> om_subs (sv_mem s1)) (tp_subs tp)"
    "\<forall>a \<in> set (tp_subs tp). om_subs (sv_mem s1) a \<noteq> None" by (rule subs_at_list [OF t(2,5)])
  have "publish_handler cb (Pkt_publish (publish_of h topic pid payload)) s =
       rbind (publish_to (tp_subs tp) (publish_of h topic pid payload) s1) (\<lambda>(p, s).
         if hdr_qos h = 1 then reply cb (Pkt_ack (mqtt_packet_ack 0x40 (pub_pkt_id p))) PUBACK s
         else if hdr_qos h = 2 then reply cb (Pkt_ack (mqtt_packet_ack 0x50 (pub_pkt_id p))) PUBREC s
         else Inr (0, s))"
    using assms(2,3) publish_topic_slashed [OF assms(4-6), of h pid payload] t(1) tp(1)
    by (simp add: publish_handler_def Let_def mqtt_packet_release_def publish_of_fields flip: s0_def cong: if_cong)
  then show ?thesis using t(2,4,6,7) same tp(2,3) by (intro exI [of _ s1] exI [of _ tp] conjI) simp_all
qed

lemma publish_spec:
  assumes "srv_ok s" "get_closure cb s = Inr c" "get_client (cb_obj c) s = Inr cl"
    and "topic \<noteq> []" "length topic < 65536" "length payload < 65536" "zero_free topic" "zero_free payload"
    and "xs = subs_at (sv_sol s) (sv_mem s) (slashed topic)" "length topic + length payload + 9 \<le> M"
    and "\<forall>x \<in> set xs. live_sub (sv_mem s) x \<and> roomy M (length xs) (sv_tx s (sub_fd (sv_mem s) x))"
  shows "\<exists>s'. publish_handler cb (Pkt_publish (publish_of h topic pid payload)) s = Inr (if hdr_qos h = 1 \<or> hdr_qos h = 2 then 1 else 0, s')
    \<and> sv_wire s' = (\<lambda>fd. sv_wire s fd @ inbox (sv_mem s) (\<lambda>q. wire_publish (set_hdr_qos q h) topic pid payload) xs fd)
    \<and> get_closure cb s' = Inr (c\<lparr>cb_payload := publish_reply h pid (cb_payload c)\<rparr>)
    \<and> messages_sent (sv_info s') = messages_sent (sv_info s) + int (length xs)
    \<and> messages_recv (sv_info s') = messages_recv (sv_info s) + 1
    \<and> subs_at (sv_sol s') (sv_mem s') = subs_at (sv_sol s) (sv_mem s) \<and> srv_ok s'
    \<and> sv_loop s' = sv_loop s \<and> om_clients (sv_mem s') = om_clients (sv_mem s) \<and> (\<forall>b. b \<noteq> cb \<longrightarrow> get_closure b s' = get_closure b s)
    \<and> (\<forall>fd n. roomy M (n + length xs) (sv_tx s fd) \<longrightarrow> roomy M n (sv_tx s' fd))"
proof -
  from publish_found [OF assms(1-5,7), of h pid payload] obtain s1 tp where f: "srv_ok s1" "sv_tx s1 = sv_tx s" "sv_wire s1 = sv_wire s"
    "sv_info s1 = (sv_info s)\<lparr>messages_recv := messages_recv (sv_info s) + 1\<rparr>"
    "subs_at (sv_sol s1) (sv_mem s1) = subs_at (sv_sol s) (sv_mem s)" "om_clients (sv_mem s1) = om_clients (sv_mem s)"
    "om_closures (sv_mem s1) = om_closures (sv_mem s)"
    "subs_at (sv_sol s) (sv_mem s) (slashed topic) = map (the \<circ> om_subs (sv_mem s1)) (tp_subs (tp :: topic))" "\<forall>a \<in> set (tp_subs tp). om_subs (sv_mem s1) a \<noteq> None"
    "publish_handler cb (Pkt_publish (publish_of h topic pid payload)) s =
       rbind (publish_to (tp_subs tp) (publish_of h topic pid payload) s1) (\<lambda>(p, s).
         if hdr_qos h = 1 then reply cb (Pkt_ack (mqtt_packet_ack 0x40 (pub_pkt_id p))) PUBACK s
         else if hdr_qos h = 2 then reply cb (Pkt_ack (mqtt_packet_ack 0x50 (pub_pkt_id p))) PUBREC s
         else Inr (0, s))" "sv_loop s1 = sv_loop s" by blast
  have fd: "sub_fd (sv_mem s1) = sub_fd (sv_mem s)" "live_sub (sv_mem s1) = live_sub (sv_mem s)"
    using f(6) by (simp_all add: fun_eq_iff sub_fd_def live_sub_def)
  from publish_to_delivers [OF assms(5-8,10), of xs s1 "tp_subs tp" h pid] assms(9,11) f(2,8,9,11) fd obtain h' s2 where
    s2: "publish_to (tp_subs tp) (publish_of h topic pid payload) s1 = Inr (publish_of h' topic pid payload, s2)"
    "sv_sol s2 = sv_sol s1" "sv_mem s2 = sv_mem s1"
    "sv_wire s2 = (\<lambda>fd. sv_wire s1 fd @ inbox (sv_mem s1) (\<lambda>q. wire_publish (set_hdr_qos q h) topic pid payload) xs fd)"
    "messages_sent (sv_info s2) = messages_sent (sv_info s1) + int (length xs)" "messages_recv (sv_info s2) = messages_recv (sv_info s1)"
    "sv_loop s2 = sv_loop s" "\<forall>fd n. roomy M (n + length xs) (sv_tx s fd) \<longrightarrow> roomy M n (sv_tx s2 fd)" by auto
  have c: "get_closure cb s2 = Inr c" using assms(2) f(7) s2(3) by (simp add: get_closure_def)
  have ok: "srv_ok s2" using f(1) s2(2,3) by simp
  define s' where "s' = put_closure cb (c\<lparr>cb_payload := publish_reply h pid (cb_payload c)\<rparr>) s2"
  have same: "publish_handler cb (Pkt_publish (publish_of h topic pid payload)) s = Inr (if hdr_qos h = 1 \<or> hdr_qos h = 2 then 1 else 0,
      if hdr_qos h = 1 \<or> hdr_qos h = 2 then s' else s2)"
    using f(10) s2(1) reply_packed [OF c pack_ack, of PUBACK "0x40" pid] reply_packed [OF c pack_ack, of PUBREC "0x50" pid]
    by (simp add: s'_def publish_reply_def)
  have w: "sv_wire s2 = (\<lambda>fd. sv_wire s fd @ inbox (sv_mem s) (\<lambda>q. wire_publish (set_hdr_qos q h) topic pid payload) xs fd)"
    using s2(4) f(3) fd(1) by (simp add: inbox_def)
  have rest: "sv_loop s2 = sv_loop s" "om_clients (sv_mem s2) = om_clients (sv_mem s)" "get_closure b s2 = get_closure b s" for b
    using s2(3,7) f(6,7) by (simp_all add: get_closure_def)
  show ?thesis
  proof (cases "hdr_qos h = 1 \<or> hdr_qos h = 2")
    case True
    have "srv_ok s'" using ok c by (auto simp: s'_def get_closure_def intro: set_closure_ok)
    then show ?thesis using same True w s2(2,3,5,6,8) f(4,5) rest by (auto simp: s'_def)
  next
    case False
    then show ?thesis using same w s2(2,3,5,6,8) f(4,5) c ok rest by (auto simp: publish_reply_def)
  qed
qed

section \<open>Subscribing\<close>

text \<open>The packet with these topic filters and QoS values as \<^verbatim>\<open>unpack_mqtt_subscribe\<close> would store it.\<close>

definition tuple_of :: "u8 list \<times> u32 \<Rightarrow> sub_tuple" where
  "tuple_of f = \<lparr>st_topic_len = of_nat (length (fst f)), st_topic = Some (cstr (fst f)), st_qos = snd f\<rparr>"

definition subscribe_of :: "mqtt_header \<Rightarrow> u16 \<Rightarrow> (u8 list \<times> u32) list \<Rightarrow> mqtt_subscribe" where
  "subscribe_of h pid fs = \<lparr>sub_header = h, sub_pkt_id = pid, sub_tuples_len = of_nat (length fs), sub_tuples = map tuple_of fs\<rparr>"

text \<open>A topic filter: not empty, of a length that fits its field, without a zero; a plain one has no trailing slash or number sign.\<close>

definition filter_ok :: "u8 list \<Rightarrow> bool" where
  "filter_ok t \<longleftrightarrow> t \<noteq> [] \<and> length t < 65536 \<and> zero_free t"

definition plain_filter :: "u8 list \<Rightarrow> bool" where
  "plain_filter t \<longleftrightarrow> filter_ok t \<and> last t \<noteq> 47 \<and> last t \<noteq> 35"

text \<open>What a subscription adds to the subscriptions of a topic.\<close>

definition add_sub :: "nat option \<Rightarrow> u8 list \<times> u32 \<Rightarrow> (u8 list \<Rightarrow> subscriber list) \<Rightarrow> u8 list \<Rightarrow> subscriber list" where
  "add_sub obj f v = v(slashed (fst f) := \<lparr>su_qos = snd f, su_client = obj\<rparr> # v (slashed (fst f)))"

lemma subscribe_topic_plain:
  "plain_filter t \<Longrightarrow> subscribe_topic (cstr t) (of_nat (length t)) wc al = Inr (slashed t, wc, True, False)"
  using append_string_cstr [of t 1 "[47]"]
  by (simp add: plain_filter_def filter_ok_def subscribe_topic_def char_at_last slashed_def)

lemma subscribe_topic_slash:
  "filter_ok t \<Longrightarrow> last t = 47 \<Longrightarrow> subscribe_topic (cstr t) (of_nat (length t)) wc al = Inr (t, wc, al, True)"
  by (simp add: filter_ok_def subscribe_topic_def char_at_last)

lemma subscribe_name_plain:
  assumes "core_ok sol m"
  shows "\<exists>sol' m'. subscribe_name obj name qos False (sol, m) = Inr (sol', m') \<and> core_ok sol' m'
    \<and> subs_at sol' m' = (subs_at sol m)(name := \<lparr>su_qos = qos, su_client = obj\<rparr> # subs_at sol m name)
    \<and> om_clients m' = om_clients m \<and> om_closures m' = om_closures m"
proof -
  from subscribe_name_spec [OF assms, of obj name qos False] obtain sol' m' c where
    s: "subscribe_name obj name qos False (sol, m) = Inr (sol', m')" "core_ok sol' m'" "om_clients m' = om_clients m" "om_closures m' = om_closures m"
    and c: "\<forall>k. subs_at sol' m' k = replicate (c k) \<lparr>su_qos = qos, su_client = obj\<rparr> @ subs_at sol m k"
      "\<forall>k. 0 < c k \<longleftrightarrow> reached sol False name k" "c name = 1" by auto
  have "c k = (if k = name then 1 else 0)" for k using c(2,3) by (auto simp: reached_def)
  then have "subs_at sol' m' = (subs_at sol m)(name := \<lparr>su_qos = qos, su_client = obj\<rparr> # subs_at sol m name)"
    using c(1) by (auto simp: fun_eq_iff)
  with s show ?thesis by blast
qed

lemma subscribe_tuples_plain:
  "core_ok sol m \<Longrightarrow> om_clients m a \<noteq> None \<Longrightarrow> \<forall>f \<in> set fs. plain_filter (fst f) \<Longrightarrow>
     \<exists>sol' m'. subscribe_tuples (Some a) (length fs) (map tuple_of fs) False al False (sol, m) = Inr (map (ucast \<circ> snd) fs, False, sol', m')
       \<and> core_ok sol' m' \<and> subs_at sol' m' = fold (add_sub (Some a)) fs (subs_at sol m)
       \<and> om_clients m' = om_clients m \<and> om_closures m' = om_closures m"
proof (induction fs arbitrary: sol m al)
  case (Cons f fs)
  from subscribe_name_plain [OF Cons.prems(1), of "Some a" "slashed (fst f)" "snd f"] obtain sol1 m1 where
    n: "subscribe_name (Some a) (slashed (fst f)) (snd f) False (sol, m) = Inr (sol1, m1)" "core_ok sol1 m1"
      "subs_at sol1 m1 = add_sub (Some a) f (subs_at sol m)" "om_clients m1 = om_clients m" "om_closures m1 = om_closures m"
    unfolding add_sub_def by blast
  from n(4) Cons.prems(2,3) have "om_clients m1 a \<noteq> None" "\<forall>f \<in> set fs. plain_filter (fst f)" by simp_all
  from Cons.IH [OF n(2) this, of True] obtain sol2 m2 where
    r: "subscribe_tuples (Some a) (length fs) (map tuple_of fs) False True False (sol1, m1) = Inr (map (ucast \<circ> snd) fs, False, sol2, m2)"
      "core_ok sol2 m2" "subs_at sol2 m2 = fold (add_sub (Some a)) fs (subs_at sol1 m1)" "om_clients m2 = om_clients m1" "om_closures m2 = om_closures m1"
    by blast
  have "subscribe_tuples (Some a) (length (f # fs)) (map tuple_of (f # fs)) False al False (sol, m)
    = Inr (map (ucast \<circ> snd) (f # fs), False, sol2, m2)"
    using Cons.prems(2,3) n(1) r(1) subscribe_topic_plain [of "fst f"] by (auto simp: tuple_of_def deref_def)
  then show ?case using r(2-5) n(3-5) by (intro exI [of _ sol2] exI [of _ m2]) (simp del: subscribe_tuples.simps)
qed auto

lemma suback_of:
  "length rcs < 65536 \<Longrightarrow> mqtt_packet_suback h pid rcs (of_nat (length rcs)) =
     Inr \<lparr>sack_header = h, sack_pkt_id = pid, sack_rcslen = of_nat (length rcs), sack_rcs = rcs\<rparr>"
  by (simp add: mqtt_packet_suback_def unat_of_nat_small read_mem_def)

lemma subscribe_finish:
  assumes "get_closure cb s = Inr c" "cb_obj c = Some a" "om_clients (sv_mem s) a \<noteq> None" "length fs \<le> 125"
    and "subscribe_tuples (Some a) (length fs) (map tuple_of fs) False False False (sv_sol s, sv_mem s) = Inr (map (ucast \<circ> snd) fs, False, sol, m)"
    and "core_ok sol m" "om_clients m = om_clients (sv_mem s)" "om_closures m = om_closures (sv_mem s)"
  shows "\<exists>s'. subscribe_handler cb (Pkt_subscribe (subscribe_of h pid fs)) s = Inr (1, s')
    \<and> subs_at (sv_sol s') (sv_mem s') = subs_at sol m
    \<and> get_closure cb s' = Inr (c\<lparr>cb_payload := Some (packed (wire_suback 0x90 pid (map (ucast \<circ> snd) fs)))\<rparr>)
    \<and> (\<forall>b. b \<noteq> cb \<longrightarrow> get_closure b s' = get_closure b s)
    \<and> om_clients (sv_mem s') = om_clients (sv_mem s) \<and> sv_wire s' = sv_wire s \<and> sv_tx s' = sv_tx s \<and> srv_ok s'"
proof -
  let ?rcs = "map (ucast \<circ> snd) fs :: u8 list"
  define s1 where "s1 = s\<lparr>sv_sol := sol, sv_mem := m\<rparr>"
  have n: "unat (of_nat (length fs) :: u16) = length fs" using assms(4) by (intro unat_of_nat_small) simp
  let ?w = "wire_suback 0x90 pid ?rcs"
  have len: "length ?w = 4 + length fs" using assms(4) length_wire_suback [of ?rcs "0x90" pid] by (simp add: length_bytes_def)
  have c1: "get_closure b s1 = get_closure b s" for b using assms(8) by (simp add: get_closure_def s1_def)
  have cl: "\<exists>cl. get_client (cb_obj c) (put_closure cb x s1) = Inr cl" for x
    using assms(2,3,7) by (auto simp: get_client_def s1_def)
  have c2: "get_closure cb s1 = Inr c" using c1 assms(1) by simp
  have "subscribe_handler cb (Pkt_subscribe (subscribe_of h pid fs)) s =
      Inr (1, put_closure cb (c\<lparr>cb_payload := Some (packed ?w)\<rparr>) s1)"
    using assms(1,2,4,5) n suback_of [of ?rcs "0x90" pid] suback_pack [of ?rcs "0x90" pid] set_payload_packed [OF c2, of ?w] len cl
    by (auto simp: subscribe_handler_def subscribe_of_def Let_def mqtt_packet_release_def simp flip: s1_def)
  moreover have "core_ok sol (set_closure cb x m)" for x
    using assms(1,6,8) by (auto simp: get_closure_def intro: set_closure_ok)
  ultimately show ?thesis using assms(7) c1 by (simp add: s1_def)
qed

lemma subscribe_spec:
  assumes "srv_ok s" "get_closure cb s = Inr c" "cb_obj c = Some a" "om_clients (sv_mem s) a \<noteq> None"
    and "\<forall>f \<in> set fs. plain_filter (fst f)" "length fs \<le> 125"
  shows "\<exists>s'. subscribe_handler cb (Pkt_subscribe (subscribe_of h pid fs)) s = Inr (1, s')
    \<and> subs_at (sv_sol s') (sv_mem s') = fold (add_sub (Some a)) fs (subs_at (sv_sol s) (sv_mem s))
    \<and> get_closure cb s' = Inr (c\<lparr>cb_payload := Some (packed (wire_suback 0x90 pid (map (ucast \<circ> snd) fs)))\<rparr>)
    \<and> (\<forall>b. b \<noteq> cb \<longrightarrow> get_closure b s' = get_closure b s)
    \<and> om_clients (sv_mem s') = om_clients (sv_mem s) \<and> sv_wire s' = sv_wire s \<and> sv_tx s' = sv_tx s \<and> srv_ok s'"
proof -
  from subscribe_tuples_plain [OF assms(1,4,5), of False] obtain sol m where
    r: "subscribe_tuples (Some a) (length fs) (map tuple_of fs) False False False (sv_sol s, sv_mem s) = Inr (map (ucast \<circ> snd) fs, False, sol, m)"
      "core_ok sol m" "subs_at sol m = fold (add_sub (Some a)) fs (subs_at (sv_sol s) (sv_mem s))"
      "om_clients m = om_clients (sv_mem s)" "om_closures m = om_closures (sv_mem s)" by blast
  from subscribe_finish [OF assms(2-4,6) r(1,2,4,5), of h pid] r(3) show ?thesis by simp
qed

section \<open>Wildcards\<close>

lemma char_at_second:
  "t \<noteq> [] \<Longrightarrow> length t < 65535 \<Longrightarrow> char_at (cstr (t @ [c])) (uint (of_nat (Suc (length t)) :: u16) - 2) = Inr (last t)"
proof -
  assume t: "t \<noteq> []" "length t < 65535"
  then have "unat (of_nat (Suc (length t)) :: u16) = Suc (length t)" by (intro unat_of_nat_small) simp
  then have u: "uint (of_nat (Suc (length t)) :: u16) = int (Suc (length t))" by (metis uint_nat)
  show ?thesis unfolding u using t by (cases t rule: rev_cases) (simp_all add: char_at_def cstr_def nth_append)
qed

definition wild_filter :: "u8 list \<Rightarrow> bool" where
  "wild_filter name \<longleftrightarrow> filter_ok (name @ [35]) \<and> name \<noteq> [] \<and> last name = 47 \<and> 35 \<notin> set name"

lemma subscribe_topic_wild:
  assumes "wild_filter name"
  shows "subscribe_topic (cstr (name @ [35])) (of_nat (length (name @ [35]))) wc al = Inr (name, True, al, True)"
proof -
  have n: "name \<noteq> []" "length name < 65535" "zero_free name" "last name = 47" "35 \<notin> set name"
    using assms by (auto simp: wild_filter_def filter_ok_def)
  from remove_occur_str [of "name @ [35]" "[]" 35] n(3) obtain b where
    b: "remove_occur ((name @ [35]) @ [0]) 35 = Inr b" "str_of b = filter (\<lambda>x. x \<noteq> 35) (name @ [35])" by auto
  have f: "filter (\<lambda>x. x \<noteq> 35) (name @ [35]) = name" using n(5) by (simp add: filter_id_conv) metis
  have cells: "read_cells (cstr (name @ [35])) (length (cstr (name @ [35]))) = Inr ((name @ [35]) @ [0])"
    using read_cells_map_Some [of "length ((name @ [35]) @ [0 :: u8])" "(name @ [35]) @ [0]" "[]"] by (simp add: cstr_def)
  have l: "char_at (cstr (name @ [35])) (uint (of_nat (length (name @ [35])) :: u16) - 1) = Inr 35"
    using char_at_last [of "name @ [35]"] n(2) by simp
  have l2: "char_at (cstr (name @ [35])) (uint (of_nat (length (name @ [35])) :: u16) - 2) = Inr 47"
    using char_at_second [OF n(1,2), of 35] n(4) by simp
  show ?thesis unfolding subscribe_topic_def using l l2 cells b f by simp
qed

lemma subscribe_wild_spec:
  assumes "srv_ok s" "get_closure cb s = Inr c" "cb_obj c = Some a" "om_clients (sv_mem s) a \<noteq> None" "wild_filter name"
  shows "\<exists>s' n. subscribe_handler cb (Pkt_subscribe (subscribe_of h pid [(name @ [35], q)])) s = Inr (1, s')
    \<and> (\<forall>k. subs_at (sv_sol s') (sv_mem s') k = replicate (n k) \<lparr>su_qos = q, su_client = Some a\<rparr> @ subs_at (sv_sol s) (sv_mem s) k)
    \<and> (\<forall>k. 0 < n k \<longleftrightarrow> reached (sv_sol s) True name k)
    \<and> (if sol_topic_get (sv_sol s) name = None then n name = 1 else 2 \<le> n name) \<and> srv_ok s'"
proof -
  from subscribe_name_spec [OF assms(1), of "Some a" name q True] obtain sol m n where
    r: "subscribe_name (Some a) name q True (sv_sol s, sv_mem s) = Inr (sol, m)" "core_ok sol m"
      "\<forall>k. subs_at sol m k = replicate (n k) \<lparr>su_qos = q, su_client = Some a\<rparr> @ subs_at (sv_sol s) (sv_mem s) k"
      "\<forall>k. 0 < n k \<longleftrightarrow> reached (sv_sol s) True name k"
      "\<not> (True \<and> sol_topic_get (sv_sol s) name \<noteq> None) \<longrightarrow> n name = 1" "True \<and> sol_topic_get (sv_sol s) name \<noteq> None \<longrightarrow> 2 \<le> n name"
      "om_clients m = om_clients (sv_mem s)" "om_closures m = om_closures (sv_mem s)" by blast
  have "subscribe_tuples (Some a) (length [(name @ [35], q)]) (map tuple_of [(name @ [35], q)]) False False False (sv_sol s, sv_mem s)
    = Inr (map (ucast \<circ> snd) [(name @ [35], q)], False, sol, m)"
    using assms(4) r(1) subscribe_topic_wild [OF assms(5), of False False] by (auto simp: tuple_of_def deref_def)
  from subscribe_finish [OF assms(2-4) _ this r(2,7,8), of h pid] r(3-6) show ?thesis by auto
qed

text \<open>A filter without and then one with a trailing slash: the second one is freed twice.\<close>

lemma subscribe_twice_freed:
  assumes "srv_ok s" "get_closure cb s = Inr c" "cb_obj c = Some a" "om_clients (sv_mem s) a \<noteq> None"
    and "plain_filter t1" "filter_ok t2" "last t2 = 47"
  shows "subscribe_handler cb (Pkt_subscribe (subscribe_of h pid [(t1, q1), (t2, q2)])) s = Inl Use_after_free"
proof -
  from subscribe_name_plain [OF assms(1), of "Some a" "slashed t1" q1] obtain sol1 m1 where
    n1: "subscribe_name (Some a) (slashed t1) q1 False (sv_sol s, sv_mem s) = Inr (sol1, m1)" "core_ok sol1 m1" "om_clients m1 = om_clients (sv_mem s)" by blast
  from subscribe_name_plain [OF n1(2), of "Some a" t2 q2] obtain sol2 m2 where
    n2: "subscribe_name (Some a) t2 q2 False (sol1, m1) = Inr (sol2, m2)" by blast
  have "subscribe_tuples (Some a) 2 [tuple_of (t1, q1), tuple_of (t2, q2)] False False False (sv_sol s, sv_mem s)
    = Inr ([ucast q1, ucast q2], True, sol2, m2)"
    using assms(4) n1 n2 subscribe_topic_plain [OF assms(5), of False False] subscribe_topic_slash [OF assms(6,7), of False True]
    by (auto simp: tuple_of_def deref_def numeral_2_eq_2)
  then show ?thesis using assms(2,3) suback_of [of "[ucast q1, ucast q2]" "0x90" pid]
    by (simp add: subscribe_handler_def subscribe_of_def del: subscribe_tuples.simps)
qed

section \<open>Connecting\<close>

lemma connect_spec:
  assumes "srv_ok s" "get_closure cb s = Inr c" "con_client_id p = Some (cstr cid)" "zero_free cid"
    and "ht_store_ok L (sol_clients (sv_sol s))" "plain_key L cid" "hashtable_get (sol_clients (sv_sol s)) cid = None"
    and "ht_put (se_can E) (se_fuel E) (sol_clients (sv_sol s)) cid (om_next (sv_mem s)) = Some t" and "a = om_next (sv_mem s)"
  shows "\<exists>s'. connect_handler E cb (Pkt_connect p) s = Inr (1, s') \<and> srv_ok s'
    \<and> get_closure cb s' = Inr (c\<lparr>cb_obj := Some a, cb_payload := Some (packed [0x20, 2, 0, 0])\<rparr>)
    \<and> get_client (Some a) s' = Inr \<lparr>sc_client_id = cid, sc_fd = cb_fd c, sc_subscriptions = (if con_clean_session (con_byte p) then None else Some [])\<rparr>
    \<and> (\<forall>k. plain_key L k \<longrightarrow> hashtable_get (sol_clients (sv_sol s')) k = (if k = cid then Some a else hashtable_get (sol_clients (sv_sol s)) k))
    \<and> ht_store_ok L (sol_clients (sv_sol s')) \<and> sv_wire s' = sv_wire s \<and> sv_tx s' = sv_tx s \<and> sv_loop s' = sv_loop s
    \<and> (\<forall>b. b \<noteq> a \<longrightarrow> om_clients (sv_mem s') b = om_clients (sv_mem s) b)
    \<and> subs_at (sv_sol s') (sv_mem s') = subs_at (sv_sol s) (sv_mem s)"
proof -
  let ?t = "sol_clients (sv_sol s)"
  define cl where "cl = \<lparr>sc_client_id = cid, sc_fd = cb_fd c, sc_subscriptions = (if con_clean_session (con_byte p) then None else Some [])\<rparr>"
  define m where "m = (set_client a cl (sv_mem s))\<lparr>om_next := Suc a\<rparr>"
  define s1 where "s1 = (put_mem m s)\<lparr>sv_sol := (sv_sol s)\<lparr>sol_clients := t\<rparr>\<rparr>"
  have view: "ht_view ?t cid = None" using ht_store.get_law [OF assms(5,6)] assms(7) by simp
  have put: "table_put E ?t cid a = Inr t"
    using assms(8,9) by (auto simp: table_put_def ht_put_def split: option.splits ht_status.splits if_splits)
  have ok: "core_ok ((sv_sol s)\<lparr>sol_clients := t\<rparr>) m" unfolding m_def by (rule fresh_client_ok [OF assms(1,9) put])
  have st: "ht_store_ok L t" "ht_view t = (ht_view ?t)(cid \<mapsto> a)" using ht_put_law [OF assms(5,6) view assms(8)] assms(9) by simp_all
  have get: "hashtable_get t k = (if k = cid then Some a else hashtable_get ?t k)" if "plain_key L k" for k
    using ht_store.get_law [OF assms(5) that] ht_store.get_law [OF st(1) that] st(2) by simp
  have mem: "om_closures m = om_closures (sv_mem s)" "om_clients m a = Some cl" "\<And>b. b \<noteq> a \<Longrightarrow> om_clients m b = om_clients (sv_mem s) b" by (simp_all add: m_def set_client_def)
  define s2 where "s2 = put_closure cb (c\<lparr>cb_obj := Some a\<rparr>) s1"
  have ok2: "srv_ok s2" using ok mem(1) assms(2) by (auto simp: s2_def s1_def get_closure_def intro: set_closure_ok)
  have c2: "get_closure cb s2 = Inr (c\<lparr>cb_obj := Some a\<rparr>)" by (simp add: s2_def)
  have pk: "pack_mqtt_packet (Pkt_connack (mqtt_packet_connack 0x20 0 0)) CONNACK = Inr (map Some [0x20, 2, 0, 0])"
    using pack_mqtt_connack_eq [of "mqtt_packet_connack 0x20 0 0"]
    by (simp add: pack_mqtt_packet_def call_table_def pack_handlers_def mqtt_packet_connack_def)
  have "connect_handler E cb (Pkt_connect p) s = reply cb (Pkt_connack (mqtt_packet_connack 0x20 0 0)) CONNACK s2"
    using assms(2-4,7) put assms(9) unfolding s2_def s1_def m_def cl_def by (simp add: connect_handler_def hashtable_exists_def Let_def put_mem_def)
  then have h: "connect_handler E cb (Pkt_connect p) s = Inr (1, put_closure cb (c\<lparr>cb_obj := Some a, cb_payload := Some (packed [0x20, 2, 0, 0])\<rparr>) s2)"
    using reply_packed [OF c2 pk] by simp
  have subs: "subs_at (sv_sol s\<lparr>sol_clients := t\<rparr>) m = subs_at (sv_sol s) (sv_mem s)"
    by (rule subs_at_cong) (simp_all add: m_def set_client_def)
  have "om_closures (sv_mem s2) cb \<noteq> None" by (simp add: s2_def) (simp add: set_closure_def)
  then have ok3: "srv_ok (put_closure cb x s2)" for x using set_closure_ok [OF ok2] by simp
  show ?thesis
    by (rule exI [of _ "put_closure cb (c\<lparr>cb_obj := Some a, cb_payload := Some (packed [0x20, 2, 0, 0])\<rparr>) s2"])
       (use h ok3 get st(1) subs mem(2,3) in \<open>simp add: s2_def s1_def get_client_def cl_def put_mem_def\<close>)
qed

section \<open>A client that is gone\<close>

lemma publish_to_dead:
  assumes "length topic < 65536" "length payload < 65536" "zero_free topic" "zero_free payload"
    and "\<forall>a \<in> set subs. \<exists>x b. om_subs (sv_mem s) a = Some x \<and> su_client x = Some b"
    and "\<exists>a \<in> set subs. \<exists>x. om_subs (sv_mem s) a = Some x \<and> \<not> live_sub (sv_mem s) x"
  shows "publish_to subs (publish_of h topic pid payload) s = Inl Use_after_free"
  using assms(5,6)
proof (induction subs arbitrary: h s)
  case (Cons a subs)
  then obtain x b where x: "om_subs (sv_mem s) a = Some x" "su_client x = Some b" by auto
  show ?case
  proof (cases "om_clients (sv_mem s) b")
    case None
    then show ?thesis using x by (simp add: get_client_def)
  next
    case (Some sc)
    let ?h = "set_hdr_qos (su_qos x) h"
    let ?p = "publish_of ?h topic pid payload" and ?w = "wire_publish ?h topic pid payload"
    have live: "live_sub (sv_mem s) x" using x Some by (simp add: live_sub_def)
    have p: "publish_of h topic pid payload\<lparr>pub_header := ?h\<rparr> = ?p" by (simp add: publish_of_def)
    have pk: "pack_mqtt_packet (Pkt_publish ?p) PUBLISH = Inr (map Some ?w)"
      using pack_mqtt_publish_eq [OF assms(1-4)] by (simp add: pack_mqtt_packet_def call_table_def pack_handlers_def)
    have len: "unat (publish_base_len ?p + remaininglen_offset (publish_base_len ?p)) = length ?w"
      using publish_sizes(1) [OF assms(1,2) refl] by simp
    have "read_cells (map Some ?w) (length ?w) = Inr ?w" using read_cells_map_Some [of "length ?w" ?w "[]"] by simp
    then have step: "\<exists>f. publish_to (a # subs) (publish_of h topic pid payload) s = publish_to subs ?p (upd_info f (snd (srv_send (sc_fd sc) ?w s)))"
      using x Some pk len by (auto simp: p Let_def split_beta get_client_def)
    have "\<exists>a \<in> set subs. \<exists>x. om_subs (sv_mem s) a = Some x \<and> \<not> live_sub (sv_mem s) x" using Cons.prems(2) x(1) live by auto
    then have "publish_to subs ?p (upd_info f (snd (srv_send (sc_fd sc) ?w s))) = Inl Use_after_free" for f
      using Cons.prems(1) by (intro Cons.IH) simp_all
    with step show ?thesis by metis
  qed
qed simp

lemma publish_dead:
  assumes "srv_ok s" "get_closure cb s = Inr c" "get_client (cb_obj c) s = Inr cl"
    and "filter_ok topic" "length payload < 65536" "zero_free payload" "xs = subs_at (sv_sol s) (sv_mem s) (slashed topic)"
    and "\<forall>x \<in> set xs. su_client x \<noteq> None" "\<exists>x \<in> set xs. \<not> live_sub (sv_mem s) x"
  shows "publish_handler cb (Pkt_publish (publish_of h topic pid payload)) s = Inl Use_after_free"
proof -
  have t: "topic \<noteq> []" "length topic < 65536" "zero_free topic" using assms(4) by (simp_all add: filter_ok_def)
  from publish_found [OF assms(1-3) t, of h pid payload] obtain s1 tp where f:
    "om_clients (sv_mem s1) = om_clients (sv_mem s)"
    "subs_at (sv_sol s) (sv_mem s) (slashed topic) = map (the \<circ> om_subs (sv_mem s1)) (tp_subs (tp :: topic))" "\<forall>a \<in> set (tp_subs tp). om_subs (sv_mem s1) a \<noteq> None"
    "publish_handler cb (Pkt_publish (publish_of h topic pid payload)) s =
       rbind (publish_to (tp_subs tp) (publish_of h topic pid payload) s1) (\<lambda>(p, s).
         if hdr_qos h = 1 then reply cb (Pkt_ack (mqtt_packet_ack 0x40 (pub_pkt_id p))) PUBACK s
         else if hdr_qos h = 2 then reply cb (Pkt_ack (mqtt_packet_ack 0x50 (pub_pkt_id p))) PUBREC s
         else Inr (0, s))" by blast
  have l: "live_sub (sv_mem s1) = live_sub (sv_mem s)" using f(1) by (simp add: fun_eq_iff live_sub_def)
  have xs: "xs = map (the \<circ> om_subs (sv_mem s1)) (tp_subs tp)" using f(2) assms(7) by simp
  have "\<forall>a \<in> set (tp_subs tp). \<exists>x b. om_subs (sv_mem s1) a = Some x \<and> su_client x = Some b"
    using assms(8) f(3) unfolding xs by fastforce
  moreover have "\<exists>a \<in> set (tp_subs tp). \<exists>x. om_subs (sv_mem s1) a = Some x \<and> \<not> live_sub (sv_mem s1) x"
    using assms(9) f(3) l unfolding xs by fastforce
  ultimately show ?thesis using f(4) publish_to_dead [OF t(2) assms(5) t(3) assms(6)] by simp
qed

lemma del_client_frees:
  assumes "srv_ok s" "hashtable_get (sol_clients (sv_sol s)) key = Some a"
  shows "\<exists>s'. del_client key s = Inr s' \<and> srv_ok s' \<and> om_clients (sv_mem s') = (om_clients (sv_mem s))(a := None)
    \<and> om_closures (sv_mem s') = om_closures (sv_mem s) \<and> subs_at (sv_sol s') (sv_mem s') = subs_at (sv_sol s) (sv_mem s)"
proof -
  let ?t = "sol_clients (sv_sol s)"
  from assms(2) obtain i where i: "get_probe 8 ?t key (hashtable_hash_int ?t key) = Some i" "he_val (slot ?t i) = Some a"
    by (auto simp: hashtable_get_def split: option.splits)
  from del_client_ok [OF assms(1), of key] obtain s' where s': "del_client key s = Inr s'" "srv_ok s'"
    "om_closures (sv_mem s') = om_closures (sv_mem s)" "subs_at (sv_sol s') (sv_mem s') = subs_at (sv_sol s) (sv_mem s)" by blast
  have "om_clients (sv_mem s') = (om_clients (sv_mem s))(a := None)"
    using s'(1) assms(1) i
    by (auto simp: del_client_def hashtable_del_def Let_def core_ok_def client_destructor_def split: option.splits if_splits)
  with s' show ?thesis by blast
qed

text \<open>Disconnecting frees the client and leaves its subscriptions.\<close>

lemma disconnect_spec:
  assumes "srv_ok s" "get_closure cb s = Inr c" "cb_obj c = Some a" "om_clients (sv_mem s) a = Some cl"
    and "hashtable_get (sol_clients (sv_sol s)) (sc_client_id cl) = Some a"
  shows "\<exists>s'. disconnect_handler cb pkt s = Inr (- 1, s') \<and> srv_ok s' \<and> om_clients (sv_mem s') = (om_clients (sv_mem s))(a := None)
    \<and> subs_at (sv_sol s') (sv_mem s') = subs_at (sv_sol s) (sv_mem s) \<and> sc_fd cl \<in> set (sv_closed s')"
proof -
  let ?s = "srv_close (sc_fd cl) s"
  have "srv_ok ?s" "hashtable_get (sol_clients (sv_sol ?s)) (sc_client_id cl) = Some a" using assms(1,5) by simp_all
  from del_client_frees [OF this] obtain s1 where s1: "del_client (sc_client_id cl) ?s = Inr s1" "srv_ok s1"
    "om_clients (sv_mem s1) = (om_clients (sv_mem s))(a := None)" "subs_at (sv_sol s1) (sv_mem s1) = subs_at (sv_sol s) (sv_mem s)" by auto
  from del_closure_ok [OF s1(2)] obtain s2 where s2: "del_closure (cb_closure_id c) s1 = Inr s2" "srv_ok s2"
    "om_clients (sv_mem s2) = om_clients (sv_mem s1)" "subs_at (sv_sol s2) (sv_mem s2) = subs_at (sv_sol s1) (sv_mem s1)" by blast
  have "sv_closed s1 = sv_closed ?s" "sv_closed s2 = sv_closed s1"
    using s1(1) s2(1) by (auto simp: del_client_def del_closure_def Let_def split_beta split: if_splits)
  then have "sc_fd cl \<in> set (sv_closed (client_gone s2))" by (simp add: client_gone_def upd_info_def srv_close_def)
  moreover have "disconnect_handler cb pkt s = Inr (- 1, client_gone s2)"
    using assms(2-4) s1(1) s2(1) by (simp add: disconnect_handler_def get_client_def)
  ultimately show ?thesis using s1 s2 by (intro exI [of _ "client_gone s2"]) simp
qed

end
