(* ===== verification/History.thy ===== *)
theory History
  imports Server_Handlers Runs
begin

text \<open>
  What every run of the server does to the subscriptions: lists of subscribers only grow, and only by a SUBSCRIBE; topics are never deleted, and a client that was freed never comes back. So a
  subscription outlives its client, and the topic it belongs to cannot be published to any more. And the two counters of clients are always equal.
\<close>

section \<open>The preorder\<close>

text \<open>
  A subscription whose client is an address that has been handed out, to whatever object: enough for the address not to be used again. That it was the address of a connected client
  is \<open>run_live\<close>.
\<close>

definition named :: "omem \<Rightarrow> subscriber \<Rightarrow> bool" where
  "named m x \<longleftrightarrow> (\<exists>a < om_next m. su_client x = Some a)"

definition history_le :: "sol \<Rightarrow> omem \<Rightarrow> sol \<Rightarrow> omem \<Rightarrow> bool" where
  "history_le sol m sol' m' \<longleftrightarrow> (\<forall>k. \<exists>new. subs_at sol' m' k = new @ subs_at sol m k \<and> (\<forall>x \<in> set new. named m' x))
     \<and> (\<forall>k. sol_topic_get sol k \<noteq> None \<longrightarrow> sol_topic_get sol' k \<noteq> None)
     \<and> om_next m \<le> om_next m' \<and> (\<forall>a < om_next m. om_clients m a = None \<longrightarrow> om_clients m' a = None)"

abbreviation evolved :: "srv \<Rightarrow> srv \<Rightarrow> bool" where
  "evolved s s' \<equiv> history_le (sv_sol s) (sv_mem s) (sv_sol s') (sv_mem s')"

lemma history_refl [simp]: "history_le sol m sol m"
  by (simp add: history_le_def)

lemma history_subs: "history_le sol m sol' m' \<Longrightarrow> \<exists>new. subs_at sol' m' k = new @ subs_at sol m k \<and> (\<forall>x \<in> set new. named m' x)"
  by (simp add: history_le_def)

lemma named_next: "named m x \<Longrightarrow> om_next m \<le> om_next m' \<Longrightarrow> named m' x"
  by (auto simp: named_def intro: less_le_trans)

lemma history_trans:
  assumes "history_le sol1 m1 sol2 m2" "history_le sol2 m2 sol3 m3"
  shows "history_le sol1 m1 sol3 m3"
proof -
  have "\<exists>new. subs_at sol3 m3 k = new @ subs_at sol1 m1 k \<and> (\<forall>x \<in> set new. named m3 x)" for k
  proof -
    from history_subs [OF assms(1)] obtain n1 where "subs_at sol2 m2 k = n1 @ subs_at sol1 m1 k" "\<forall>x \<in> set n1. named m2 x" by blast
    moreover from history_subs [OF assms(2)] obtain n2 where "subs_at sol3 m3 k = n2 @ subs_at sol2 m2 k" "\<forall>x \<in> set n2. named m3 x" by blast
    moreover have "om_next m2 \<le> om_next m3" using assms(2) by (simp add: history_le_def)
    ultimately show ?thesis by (intro exI [of _ "n2 @ n1"]) (auto intro: named_next)
  qed
  with assms show ?thesis unfolding history_le_def by (meson order_trans less_le_trans)
qed

text \<open>So a dead subscription stays where it is and stays dead.\<close>

lemma history_dead:
  assumes "history_le sol m sol' m'" "x \<in> set (subs_at sol m k)" "named m x" "\<not> live_sub m x"
  shows "x \<in> set (subs_at sol' m' k) \<and> \<not> live_sub m' x"
proof -
  from assms(3,4) obtain a where "a < om_next m" "su_client x = Some a" "om_clients m a = None" by (auto simp: named_def live_sub_def)
  with assms(1) have "\<not> live_sub m' x" by (auto simp: history_le_def live_sub_def)
  moreover have "x \<in> set (subs_at sol' m' k)" using history_subs [OF assms(1), of k] assms(2) by auto
  ultimately show ?thesis by blast
qed

lemma history_named:
  assumes "history_le sol m sol' m'" "\<forall>x \<in> set (subs_at sol m k). named m x" "x \<in> set (subs_at sol' m' k)"
  shows "named m' x"
proof -
  have "om_next m \<le> om_next m'" using assms(1) by (simp add: history_le_def)
  then show ?thesis using history_subs [OF assms(1), of k] assms(2,3) by (auto intro: named_next)
qed

text \<open>The part of the preorder in which no subscription is made: everything but a SUBSCRIBE goes along it.\<close>

definition quiet :: "sol \<Rightarrow> omem \<Rightarrow> sol \<Rightarrow> omem \<Rightarrow> bool" where
  "quiet sol m sol' m' \<longleftrightarrow> subs_at sol' m' = subs_at sol m \<and> (\<forall>k. sol_topic_get sol k \<noteq> None \<longrightarrow> sol_topic_get sol' k \<noteq> None)
     \<and> om_next m \<le> om_next m' \<and> (\<forall>a < om_next m. om_clients m a = None \<longrightarrow> om_clients m' a = None)"

abbreviation settled :: "srv \<Rightarrow> srv \<Rightarrow> bool" where
  "settled s s' \<equiv> quiet (sv_sol s) (sv_mem s) (sv_sol s') (sv_mem s')"

lemma quiet_history: "quiet sol m sol' m' \<Longrightarrow> history_le sol m sol' m'"
  by (simp add: quiet_def history_le_def)

lemma quiet_refl [simp]: "quiet sol m sol m"
  by (simp add: quiet_def)

lemma quiet_trans: "quiet sol1 m1 sol2 m2 \<Longrightarrow> quiet sol2 m2 sol3 m3 \<Longrightarrow> quiet sol1 m1 sol3 m3"
  unfolding quiet_def by (metis order_trans less_le_trans)

text \<open>The topics are untouched, and clients are at most freed.\<close>

lemma quiet_same:
  assumes "sol_topics sol' = sol_topics sol" "om_topics m' = om_topics m" "om_subs m' = om_subs m" "om_next m \<le> om_next m'"
    and "\<And>a. a < om_next m \<Longrightarrow> om_clients m a = None \<Longrightarrow> om_clients m' a = None"
  shows "quiet sol m sol' m'"
  using assms subs_at_cong [OF assms(1-3)] by (simp add: quiet_def sol_topic_get_def)

lemma closure_grown [simp]: "quiet sol m sol (set_closure a c m)"
  by (rule quiet_same) (simp_all add: set_closure_def)

section \<open>Every operation goes along it\<close>

lemma del_client_grown:
  assumes "srv_ok s" "del_client key s = Inr s'"
  shows "settled s s' \<and> srv_ok s'"
proof -
  let ?t = "sol_clients (sv_sol s)"
  obtain t m st where d: "hashtable_del ?t key (sv_mem s) = (t, m, st)" by (metis prod_cases3)
  have o: "owns ?t (om_clients (sv_mem s))" "ht_destructor ?t = client_destructor" using assms by (simp_all add: core_ok_def)
  from assms(2) d have s': "s' = s\<lparr>sv_sol := (sv_sol s)\<lparr>sol_clients := t\<rparr>, sv_mem := m\<rparr>" by (auto simp: del_client_def split: if_splits)
  from owns_del [OF o(1) d] o(2) have "m = sv_mem s \<or> (\<exists>a. m = (sv_mem s)\<lparr>om_clients := (om_clients (sv_mem s))(a := None)\<rparr>)"
    by (auto simp: client_destructor_def)
  then have "settled s s'" unfolding s' by (intro quiet_same) auto
  then show ?thesis using del_client_ok [OF assms(1), of key] assms(2) by auto
qed

lemma del_closure_grown:
  assumes "srv_ok s" "del_closure key s = Inr s'"
  shows "settled s s' \<and> srv_ok s'"
proof -
  let ?t = "sol_closures (sv_sol s)"
  obtain t m st where d: "hashtable_del ?t key (sv_mem s) = (t, m, st)" by (metis prod_cases3)
  have o: "owns ?t (om_closures (sv_mem s))" "ht_destructor ?t = closure_destructor" using assms by (simp_all add: core_ok_def)
  from assms(2) d have s': "s' = s\<lparr>sv_sol := (sv_sol s)\<lparr>sol_closures := t\<rparr>, sv_mem := m\<rparr>" by (auto simp: del_closure_def split: if_splits)
  from owns_del [OF o(1) d] o(2) have "m = sv_mem s \<or> (\<exists>a. m = (sv_mem s)\<lparr>om_closures := (om_closures (sv_mem s))(a := None)\<rparr>)"
    by (auto simp: closure_destructor_def)
  then have "settled s s'" unfolding s' by (intro quiet_same) auto
  then show ?thesis using del_closure_ok [OF assms(1), of key] assms(2) by auto
qed

lemma del_both_grown: "srv_ok s \<Longrightarrow> del_client k1 s = Inr s1 \<Longrightarrow> del_closure k2 s1 = Inr s2 \<Longrightarrow> settled s s2"
  using del_client_grown del_closure_grown quiet_trans by blast

lemma set_payload_grown: "set_payload cb p n s = Inr s' \<Longrightarrow> settled s s'"
  by (auto simp: set_payload_def put_closure_def)

lemma reply_grown: "reply cb pkt type s = Inr (rc, s') \<Longrightarrow> settled s s'"
  by (auto simp: reply_def dest: set_payload_grown)

lemma accept_grown:
  assumes "on_accept E cb s = Inr s'"
  shows "settled s s'"
proof -
  from assms obtain sc where sc: "get_closure cb s = Inr sc" by (auto simp: on_accept_def)
  obtain rc conn s1 where a: "accept_new_client E (cb_fd sc) s = (rc, conn, s1)" by (metis prod_cases3)
  then obtain n where s1: "s1 = s\<lparr>sv_net := n\<rparr>" using accept_new_client_state by blast
  from assms sc a s1 obtain t c where
    "sv_sol s' = sv_sol s\<lparr>sol_closures := t\<rparr>" "sv_mem s' = (set_closure (om_next (sv_mem s)) c (sv_mem s))\<lparr>om_next := Suc (om_next (sv_mem s))\<rparr>"
    by (auto simp: on_accept_def Let_def put_mem_def split: option.splits)
  then show ?thesis by (intro quiet_same) (simp_all add: set_closure_def)
qed

lemma disconnect_grown:
  assumes "srv_ok s" "disconnect_handler cb pkt s = Inr (rc, s')"
  shows "settled s s'"
proof -
  from assms(2) obtain c :: closure and cl :: sol_client and s1 s2 where d: "del_client (sc_client_id cl) (srv_close (sc_fd cl) s) = Inr s1"
    "del_closure (cb_closure_id c) s1 = Inr s2" "s' = client_gone s2" by (auto simp: disconnect_handler_def Let_def)
  from del_both_grown [OF _ d(1,2)] assms(1) d(3) show ?thesis by simp
qed

lemma drop_grown:
  assumes "srv_ok s" "drop_client cb s = Inr s'"
  shows "settled s s'"
proof -
  from assms(2) obtain c :: closure and cl :: sol_client and s1 s2 where d: "del_client (sc_client_id cl) (srv_close (cb_fd c) s) = Inr s1"
    "del_closure (cb_closure_id c) s1 = Inr s2" "s' = client_gone s2" by (auto simp: drop_client_def Let_def)
  from del_both_grown [OF _ d(1,2)] assms(1) d(3) show ?thesis by simp
qed

lemma connect_grown:
  assumes "srv_ok s" "connect_handler E cb pkt s = Inr (rc, s')"
  shows "settled s s'"
proof -
  from assms(2) obtain p b cid c where p: "pkt = Pkt_connect p" "con_client_id p = Some b" "cstring b = Inr cid" "get_closure cb s = Inr c"
    by (auto simp: connect_handler_def split: mqtt_packet.splits option.splits)
  show ?thesis
  proof (cases "hashtable_exists (sol_clients (sv_sol s)) cid = 0")
    case False
    with assms(2) p obtain s1 s2 where d: "del_client cid (srv_close (cb_fd c) s) = Inr s1" "del_closure (cb_closure_id c) s1 = Inr s2"
      "s' = client_gone s2" by (auto simp: connect_handler_def)
    from del_both_grown [OF _ d(1,2)] assms(1) d(3) show ?thesis by simp
  next
    case True
    define a where "a = om_next (sv_mem s)"
    define cl where "cl = \<lparr>sc_client_id = cid, sc_fd = cb_fd c, sc_subscriptions = (if con_clean_session (con_byte p) then None else Some [])\<rparr>"
    define m where "m = (set_client a cl (sv_mem s))\<lparr>om_next := Suc a\<rparr>"
    from assms(2) p True obtain t where t: "table_put E (sol_clients (sv_sol s)) cid a = Inr t"
      by (auto simp: connect_handler_def a_def Let_def)
    define s1 where "s1 = put_closure cb (c\<lparr>cb_obj := Some a\<rparr>) ((put_mem m s)\<lparr>sv_sol := (sv_sol s)\<lparr>sol_clients := t\<rparr>\<rparr>)"
    have "reply cb (Pkt_connack (mqtt_packet_connack 0x20 0 0)) CONNACK s1 = Inr (rc, s')"
      using assms(2) p True t
      by (simp add: connect_handler_def Let_def s1_def put_mem_def m_def cl_def flip: a_def)
    moreover have "settled s s1"
      by (rule quiet_same) (auto simp: s1_def put_closure_def set_closure_def m_def set_client_def a_def)
    ultimately show ?thesis using quiet_trans reply_grown by blast
  qed
qed

text \<open>Subscribing pushes in front of the lists and takes new addresses.\<close>

lemma push_subscriber_next: "push_subscriber t sub m = Inr m' \<Longrightarrow> om_next m' = om_next m"
  by (auto simp: push_subscriber_def set_topic_def)

lemma recursive_subscription_next:
  "recursive_subscription n sub m = Inr m' \<Longrightarrow> om_next m' = om_next m"
  "recursive_subscriptions ns sub m = Inr m' \<Longrightarrow> om_next m' = om_next m"
proof (induction n sub m and ns sub m arbitrary: m' and m' rule: recursive_subscription_recursive_subscriptions.induct)
  case (1 ch children data sub m)
  then show ?case by (cases data) (auto dest!: push_subscriber_next)
next
  case (3 n ns sub m)
  from 3(3) obtain m1 where "recursive_subscription n sub m = Inr m1" "recursive_subscriptions ns sub m1 = Inr m'" by auto
  with 3(1) [OF this(1)] 3(2) [of m1 m'] show ?case by simp
qed simp

lemma fold_subscription_next:
  "fold (\<lambda>node r. rbind r (recursive_subscription node sub)) ns r = Inr m' \<Longrightarrow> \<exists>m. r = Inr m \<and> om_next m' = om_next m"
  by (induction ns arbitrary: r) (fastforce dest: recursive_subscription_next)+

lemma topic_add_next: "topic_add_subscriber t obj qos True m = Inr m' \<Longrightarrow> om_next m \<le> om_next m'"
  by (auto simp: topic_add_subscriber_def new_subscriber_def Let_def dest!: push_subscriber_next)

lemma subscribe_name_grown:
  assumes "core_ok sol m" "subscribe_name obj name qos w (sol, m) = Inr (sol', m')" "obj = Some a" "a < om_next m"
  shows "history_le sol m sol' m' \<and> core_ok sol' m'"
proof -
  from subscribe_name_spec [OF assms(1), of obj name qos w] assms(2) obtain c where
    s: "core_ok sol' m'" "\<forall>k. subs_at sol' m' k = replicate (c k) \<lparr>su_qos = qos, su_client = obj\<rparr> @ subs_at sol m k"
      "\<forall>k. sol_topic_get sol' k = None \<longleftrightarrow> sol_topic_get sol k = None \<and> k \<noteq> name" "om_clients m' = om_clients m" by auto
  have "om_next m \<le> om_next m'"
  proof (cases "sol_topic_get sol name")
    case None
    then show ?thesis using assms(2)
      by (auto simp: subscribe_name_def topic_create_def set_topic_def Let_def dest!: topic_add_next)
  next
    case (Some t)
    show ?thesis
    proof (cases w)
      case True
      obtain sub m1 where n: "new_subscriber obj qos m = (sub, m1)" by force
      then have m1: "om_next m \<le> om_next m1" by (auto simp: new_subscriber_def Let_def)
      from assms(2) Some True n obtain m2 where
        "trie_prefix_map_tuple (sol_topics sol) (Some name) (\<lambda>node r. rbind r (recursive_subscription node sub)) (Inr m1) = Inr m2"
        "topic_add_subscriber (Some t) obj qos True m2 = Inr m'" by (auto simp: subscribe_name_def)
      moreover from this(1) have "om_next m2 = om_next m1"
        by (auto simp: trie_prefix_map_tuple_def map_func_postorder dest!: fold_subscription_next split: option.splits)
      ultimately show ?thesis using m1 topic_add_next by fastforce
    next
      case False
      then show ?thesis using assms(2) Some by (auto simp: subscribe_name_def dest: topic_add_next)
    qed
  qed
  then show ?thesis using s assms(3,4) by (fastforce simp: history_le_def named_def)
qed

lemma subscribe_tuples_grown:
  "subscribe_tuples obj n ts w al da (sol, m) = Inr (rcs, d, sol', m') \<Longrightarrow> core_ok sol m \<Longrightarrow> history_le sol m sol' m'"
proof (induction n arbitrary: ts w al da sol m rcs d)
  case (Suc n)
  from Suc.prems(1) obtain t ts' where ts: "ts = t # ts'" by (cases ts) auto
  from Suc.prems(1) ts obtain a name w1 al1 da1 sol1 m1 rcs1 where n: "subscribe_name obj name (st_qos t) w1 (sol, m) = Inr (sol1, m1)"
    "subscribe_tuples obj n ts' w1 al1 da1 (sol1, m1) = Inr (rcs1, d, sol', m')" "obj = Some a" "om_clients m a \<noteq> None" by fastforce
  have "a < om_next m" using Suc.prems(2) n(4) by (auto simp: core_ok_def fresh_ok_def not_le [symmetric])
  from subscribe_name_grown [OF Suc.prems(2) n(1,3) this] Suc.IH [OF n(2)] show ?case using history_trans by blast
qed simp

lemma subscribe_grown:
  assumes "srv_ok s" "subscribe_handler cb pkt s = Inr (rc, s')"
  shows "evolved s s'"
proof -
  from assms(2) obtain p c rcs sol m packed n where p: "pkt = Pkt_subscribe p" "get_closure cb s = Inr c"
    "subscribe_tuples (cb_obj c) (unat (sub_tuples_len p)) (sub_tuples p) False False False (sv_sol s, sv_mem s) = Inr (rcs, False, sol, m)"
    "set_payload cb packed n (s\<lparr>sv_sol := sol, sv_mem := m\<rparr>) = Inr s'"
    by (auto simp: subscribe_handler_def Let_def split: mqtt_packet.splits if_splits)
  from subscribe_tuples_grown [OF p(3) assms(1)] quiet_history [OF set_payload_grown [OF p(4)]] show ?thesis using history_trans by fastforce
qed

text \<open>A subscription that is made names a client that is connected.\<close>

lemma subscribe_tuples_live:
  "subscribe_tuples obj n ts w al da (sol, m) = Inr (rcs, d, sol', m') \<Longrightarrow> core_ok sol m \<Longrightarrow>
     om_clients m' = om_clients m \<and> (\<forall>x \<in> set (subs_at sol' m' k). x \<in> set (subs_at sol m k) \<or> live_sub m x)"
proof (induction n arbitrary: ts w al da sol m rcs d)
  case (Suc n)
  from Suc.prems(1) obtain t ts' where ts: "ts = t # ts'" by (cases ts) auto
  from Suc.prems(1) ts obtain a name w1 al1 da1 sol1 m1 rcs1 where n: "subscribe_name obj name (st_qos t) w1 (sol, m) = Inr (sol1, m1)"
    "subscribe_tuples obj n ts' w1 al1 da1 (sol1, m1) = Inr (rcs1, d, sol', m')" "obj = Some a" "om_clients m a \<noteq> None" by fastforce
  from subscribe_name_spec [OF Suc.prems(2), of obj name "st_qos t" w1] n(1) obtain c where
    s: "core_ok sol1 m1" "\<forall>k. subs_at sol1 m1 k = replicate (c k) \<lparr>su_qos = st_qos t, su_client = obj\<rparr> @ subs_at sol m k"
      "om_clients m1 = om_clients m" by auto
  have l: "live_sub m1 = live_sub m" using s(3) by (simp add: fun_eq_iff live_sub_def)
  have "live_sub m \<lparr>su_qos = st_qos t, su_client = obj\<rparr>" using n(3,4) by (simp add: live_sub_def)
  then show ?case using Suc.IH [OF n(2) s(1)] s(2,3) by (auto simp: l)
qed simp

lemma subscribe_live:
  assumes "srv_ok s" "subscribe_handler cb pkt s = Inr (rc, s')" "x \<in> set (subs_at (sv_sol s') (sv_mem s') k)"
  shows "x \<in> set (subs_at (sv_sol s) (sv_mem s) k) \<or> live_sub (sv_mem s') x"
proof -
  from assms(2) obtain p c rcs sol m packed n where p: "pkt = Pkt_subscribe p" "get_closure cb s = Inr c"
    "subscribe_tuples (cb_obj c) (unat (sub_tuples_len p)) (sub_tuples p) False False False (sv_sol s, sv_mem s) = Inr (rcs, False, sol, m)"
    "set_payload cb packed n (s\<lparr>sv_sol := sol, sv_mem := m\<rparr>) = Inr s'"
    by (auto simp: subscribe_handler_def Let_def split: mqtt_packet.splits if_splits)
  from set_payload_grown [OF p(4)] have q: "subs_at (sv_sol s') (sv_mem s') = subs_at sol m" by (simp add: quiet_def)
  from p(4) have "om_clients (sv_mem s') = om_clients m" by (auto simp: set_payload_def put_closure_def set_closure_def)
  then have "live_sub (sv_mem s') = live_sub (sv_mem s)"
    using subscribe_tuples_live [OF p(3) assms(1)] by (simp add: fun_eq_iff live_sub_def)
  then show ?thesis using subscribe_tuples_live [OF p(3) assms(1), of k] assms(3) q by auto
qed

lemma unsubscribe_grown: "unsubscribe_handler cb pkt s = Inr (rc, s') \<Longrightarrow> settled s s'"
  by (auto simp: unsubscribe_handler_def reply_grown split: mqtt_packet.splits)

lemma topic_for_grown:
  assumes "srv_ok s" "topic_for name s = Inr (t, s')"
  shows "settled s s'"
proof (cases "sol_topic_get (sv_sol s) name")
  case None
  obtain u m where c: "topic_create name (sv_mem s) = (u, m)" by force
  then have "om_next (sv_mem s) \<le> om_next m" by (auto simp: topic_create_def Let_def)
  moreover from assms(2) None c obtain sol1 where s': "sol_topic_put (sv_sol s) (Some u) m = Inr sol1" "sv_sol s' = sol1" "sv_mem s' = m"
    by (auto simp: topic_for_def)
  moreover from new_topic_ok [OF assms(1) c] s'(1) have "trie_map (sol_topics sol1) = (trie_map (sol_topics (sv_sol s)))(name \<mapsto> u)"
    "om_clients m = om_clients (sv_mem s)" by auto
  ultimately show ?thesis using new_topic_subs [OF assms(1) None c s'(1)] by (simp add: quiet_def sol_topic_get_map)
qed (use assms in \<open>auto simp: topic_for_def\<close>)

lemma publish_grown:
  assumes "srv_ok s" "publish_handler cb pkt s = Inr (rc, s')"
  shows "settled s s'"
proof -
  from assms(2) obtain q where "pkt = Pkt_publish q" by (cases pkt) (simp_all add: publish_handler_def)
  with assms(2) obtain name t s1 p2 s2 and tp :: topic where p: "topic_for name (upd_info (\<lambda>i. i\<lparr>messages_recv := messages_recv i + 1\<rparr>) s) = Inr (t, s1)"
    "publish_to (tp_subs tp) q s1 = Inr (p2, s2)"
    and r: "(if hdr_qos (pub_header q) = 1 then reply cb (Pkt_ack (mqtt_packet_ack 0x40 (pub_pkt_id p2))) PUBACK s2
       else if hdr_qos (pub_header q) = 2 then reply cb (Pkt_ack (mqtt_packet_ack 0x50 (pub_pkt_id p2))) PUBREC s2
       else Inr (0, s2)) = Inr (rc, s')"
    by (auto simp: publish_handler_def Let_def)
  have "srv_ok (upd_info (\<lambda>i. i\<lparr>messages_recv := messages_recv i + 1\<rparr>) s)" using assms(1) by simp
  from topic_for_grown [OF this p(1)] have "settled s s2" using publish_to_same [OF p(2)] by simp
  moreover have "settled s2 s'" using r reply_grown by (auto split: if_splits)
  ultimately show ?thesis by (rule quiet_trans)
qed

lemma written_grown: "on_write cb s = Inr s' \<Longrightarrow> settled s s'"
  by (auto simp: on_write_def put_closure_def Let_def split_beta split: option.splits)

lemma publish_message_grown: "publish_message i t pl s = Inr s' \<Longrightarrow> sv_sol s' = sv_sol s \<and> sv_mem s' = sv_mem s"
  by (auto simp: publish_message_def Let_def dest!: publish_to_same split: option.splits)

lemma stats_grown:
  assumes "publish_stats now su s = Inr s'"
  shows "settled s s'"
proof -
  from assms obtain t1 t2 t3 t4 t5 t6 p1 p2 p3 p4 p5 p6 s1 s2 s3 s4 s5 where
    "publish_message 0 t1 p1 s = Inr s1" "publish_message 0 t2 p2 s1 = Inr s2" "publish_message 0 t3 p3 s2 = Inr s3"
    "publish_message 0 t4 p4 s3 = Inr s4" "publish_message 0 t5 p5 s4 = Inr s5" "publish_message 0 t6 p6 s5 = Inr s'"
    unfolding publish_stats_def Let_def rbind_eq_Inr by blast
  then show ?thesis by (auto dest!: publish_message_grown)
qed

inductive_cases srv_stepE: "srv_step E s s'"

lemmas quiet_steps = accept_grown connect_grown disconnect_grown unsubscribe_grown publish_grown drop_grown written_grown stats_grown

text \<open>A step that is not a SUBSCRIBE.\<close>

definition other_step :: "senv \<Rightarrow> srv \<Rightarrow> srv \<Rightarrow> bool" where
  "other_step E s s' \<longleftrightarrow> srv_step E s s' \<and> (\<forall>cb pkt rc. subscribe_handler cb pkt s \<noteq> Inr (rc, s'))"

lemma other_step_quiet: "other_step E s s' \<Longrightarrow> srv_ok s \<Longrightarrow> settled s s'"
  unfolding other_step_def by (elim conjE, erule srv_stepE) (simp_all add: quiet_steps)

lemma step_cases:
  assumes "srv_step E s s'" "srv_ok s"
  obtains (quiet) "settled s s'" | (subscribe) cb pkt rc where "subscribe_handler cb pkt s = Inr (rc, s')"
  using other_step_quiet [of E s s'] assms unfolding other_step_def by blast

lemma step_grown: "srv_step E s s' \<Longrightarrow> srv_ok s \<Longrightarrow> evolved s s'"
  by (elim step_cases) (simp_all add: quiet_history subscribe_grown)

interpretation srv_run: ordered_run "srv_step E" srv_ok evolved for E
  by unfold_locales (blast intro: step_ok history_trans step_grown history_refl)+

interpretation other_run: ordered_run "other_step E" srv_ok settled for E
  by unfold_locales (auto simp: other_step_def intro: step_ok quiet_trans other_step_quiet [unfolded other_step_def])

text \<open>Every subscription was made in some state of the run in which its client was connected.\<close>

lemma run_live:
  assumes "(srv_step E)\<^sup>*\<^sup>* s0 s" "srv_ok s0" "subs_at (sv_sol s0) (sv_mem s0) k = []" "x \<in> set (subs_at (sv_sol s) (sv_mem s) k)"
  shows "\<exists>t. (srv_step E)\<^sup>*\<^sup>* s0 t \<and> (srv_step E)\<^sup>*\<^sup>* t s \<and> x \<in> set (subs_at (sv_sol t) (sv_mem t) k) \<and> live_sub (sv_mem t) x"
  using assms(1,4)
proof (induction rule: rtranclp_induct)
  case base
  then show ?case using assms(3) by simp
next
  case (step s s')
  have ok: "srv_ok s" by (rule srv_inv.run_keeps [OF step.hyps(1) assms(2)])
  have "x \<in> set (subs_at (sv_sol s) (sv_mem s) k) \<or> live_sub (sv_mem s') x"
    using step_cases [OF step.hyps(2) ok] subscribe_live [OF ok _ step.prems] step.prems by (metis quiet_def)
  then show ?case
  proof
    assume "x \<in> set (subs_at (sv_sol s) (sv_mem s) k)"
    from step.IH [OF this] show ?thesis using step.hyps(2) by (meson rtranclp.rtrancl_into_rtrancl)
  next
    assume "live_sub (sv_mem s') x"
    then show ?thesis using step by (meson rtranclp.rtrancl_into_rtrancl rtranclp.rtrancl_refl)
  qed
qed

section \<open>From start-up\<close>

lemma put_topics_empty:
  "put_topics names (sol, m) = Inr (sol', m') \<Longrightarrow> core_ok sol m \<Longrightarrow> subs_at sol m = (\<lambda>_. []) \<Longrightarrow> subs_at sol' m' = (\<lambda>_. [])"
proof (induction names arbitrary: sol m)
  case (Cons name names)
  obtain t m1 where c: "topic_create name m = (t, m1)" by force
  from new_topic_ok [OF Cons.prems(2) c] obtain sol1 where s: "sol_topic_put sol (Some t) m1 = Inr sol1" "core_ok sol1 m1"
    "trie_map (sol_topics sol1) = (trie_map (sol_topics sol))(name \<mapsto> t)" "om_topics m1 = (om_topics m)(t \<mapsto> topic_init name)"
    "om_subs m1 = om_subs m" "om_topics m t = None" by blast
  have "subs_at sol1 m1 k = []" for k
  proof (cases "k = name")
    case False
    have "trie_map (sol_topics sol) k \<noteq> Some t" using topics_live [OF Cons.prems(2), of k t] s(6) by auto
    moreover have "subs_at sol m k = []" using Cons.prems(3) by simp
    ultimately show ?thesis using False s by (auto simp: subs_at_def sol_topic_get_map split: option.splits)
  qed (use s in \<open>simp add: subs_at_def sol_topic_get_map topic_init_def\<close>)
  with Cons.IH [OF _ s(2)] Cons.prems(1) c s(1) show ?case by (auto simp: fun_eq_iff)
qed simp

lemma server_init_empty:
  assumes "server_init E n tfd ok now rx tx = Inr s"
  shows "subs_at (sv_sol s) (sv_mem s) = (\<lambda>_. [])"
proof -
  from assms obtain fd where "put_topics sys_topics (init_sol, init_mem E fd) = Inr (sv_sol s, sv_mem s)"
    by (auto simp: server_init_def Let_def)
  moreover have "subs_at init_sol (init_mem E fd) = (\<lambda>_. [])"
    by (simp add: subs_at_def fun_eq_iff init_mem_def empty_mem_def set_closure_def split: option.splits)
  ultimately show ?thesis using put_topics_empty init_ok by blast
qed

text \<open>
  C6 (subscriptions_only_grow): from start-up on, whatever the clients send and whichever of them come and go, in any order: between any two states of a run the list of subscriptions of a topic only grows at its front, and
  no topic is deleted, although clients disconnect and send UNSUBSCRIBE packets. The run starts without subscriptions, and for each of them there is a state of the run, before the one it is found in, in which it was
  there already and the client it names was connected: its record was allocated.
\<close>

theorem subscriptions_only_grow:
  assumes "server_init E n tfd ok now rx tx = Inr s0" "(srv_step E)\<^sup>*\<^sup>* s0 s" "(srv_step E)\<^sup>*\<^sup>* s s'"
  shows "subs_at (sv_sol s0) (sv_mem s0) name = [] \<and> suffix (subs_at (sv_sol s) (sv_mem s) name) (subs_at (sv_sol s') (sv_mem s') name)
    \<and> (\<forall>x \<in> set (subs_at (sv_sol s) (sv_mem s) name). \<exists>t a. (srv_step E)\<^sup>*\<^sup>* s0 t \<and> (srv_step E)\<^sup>*\<^sup>* t s
          \<and> x \<in> set (subs_at (sv_sol t) (sv_mem t) name) \<and> su_client x = Some a \<and> om_clients (sv_mem t) a \<noteq> None)
    \<and> (sol_topic_get (sv_sol s) name \<noteq> None \<longrightarrow> sol_topic_get (sv_sol s') name \<noteq> None)"
proof -
  have ok: "srv_ok s0" by (rule server_init_ok [OF assms(1)])
  have e: "subs_at (sv_sol s0) (sv_mem s0) name = []" using server_init_empty [OF assms(1)] by simp
  have le: "evolved s s'" using srv_run.run_le assms(2,3) srv_inv.run_keeps ok by blast
  then have "suffix (subs_at (sv_sol s) (sv_mem s) name) (subs_at (sv_sol s') (sv_mem s') name)"
    using history_subs by (fastforce simp: suffix_def)
  moreover have "\<exists>t a. (srv_step E)\<^sup>*\<^sup>* s0 t \<and> (srv_step E)\<^sup>*\<^sup>* t s
          \<and> x \<in> set (subs_at (sv_sol t) (sv_mem t) name) \<and> su_client x = Some a \<and> om_clients (sv_mem t) a \<noteq> None"
    if "x \<in> set (subs_at (sv_sol s) (sv_mem s) name)" for x
    using run_live [OF assms(2) ok e that] unfolding live_sub_def by blast
  ultimately show ?thesis using e le by (simp add: history_le_def)
qed

theorem subscriptions_only_grow_witness:
  "\<exists>s0 s. server_init sample_env no_net 4 True 0 (\<lambda>_. []) (\<lambda>_. []) = Inr s0 \<and> srv_step sample_env s0 s
    \<and> nclients (sv_info s) = nclients (sv_info s0) + 1 \<and> suffix (subs_at (sv_sol s0) (sv_mem s0) [97, 47]) (subs_at (sv_sol s) (sv_mem s) [97, 47])"
proof -
  from sample_step obtain s0 s where s: "server_init sample_env no_net 4 True 0 (\<lambda>_. []) (\<lambda>_. []) = Inr s0" "srv_step sample_env s0 s"
    "nclients (sv_info s) = nclients (sv_info s0) + 1" by blast
  with subscriptions_only_grow [OF s(1) rtranclp.rtrancl_refl [where r = "srv_step sample_env"] r_into_rtranclp [where r = "srv_step sample_env", OF s(2)]] show ?thesis by blast
qed

section \<open>The counters of clients and connections\<close>

abbreviation same_count :: "srv \<Rightarrow> srv \<Rightarrow> bool" where
  "same_count s s' \<equiv> nconnections (sv_info s') - nclients (sv_info s') = nconnections (sv_info s) - nclients (sv_info s)"

lemma count_rest [simp]:
  "sv_info (put_mem m s) = sv_info s" "sv_info (put_closure a c s) = sv_info s" "sv_info (srv_close fd s) = sv_info s" "sv_info (snd (srv_send fd buf s)) = sv_info s"
  "same_count s (client_gone s')  \<longleftrightarrow> same_count s s'"
  by (simp_all add: put_mem_def put_closure_def srv_close_def srv_send_def client_gone_def upd_info_def split_beta Let_def)

lemma del_info: "del_client k s = Inr s' \<Longrightarrow> sv_info s' = sv_info s" "del_closure k s = Inr s' \<Longrightarrow> sv_info s' = sv_info s"
  by (auto simp: del_client_def del_closure_def split: prod.splits if_splits)

lemma reply_info: "reply cb pkt type s = Inr (rc, s') \<Longrightarrow> sv_info s' = sv_info s" "set_payload cb p n s = Inr s' \<Longrightarrow> sv_info s' = sv_info s"
  by (auto simp: reply_def set_payload_def)

lemma topic_for_info: "topic_for name s = Inr (t, s') \<Longrightarrow> sv_info s' = sv_info s"
  by (auto simp: topic_for_def split: option.splits prod.splits)

lemma publish_to_count: "publish_to subs p s = Inr (p', s') \<Longrightarrow> same_count s s'"
proof (induction subs arbitrary: p s)
  case (Cons a subs)
  from Cons.prems obtain p1 fd bytes i where
    "publish_to subs p1 (upd_info (\<lambda>i. i\<lparr>bytes_sent := bytes_sent i + fst (srv_send fd bytes s), messages_sent := messages_sent i + 1\<rparr>) (snd (srv_send fd bytes s))) = Inr (p', s')"
    unfolding publish_to.simps rbind_eq_Inr Let_def split_beta by blast
  from Cons.IH [OF this] show ?case by (simp add: upd_info_def)
qed simp

lemma accept_count:
  assumes "on_accept E cb s = Inr s'"
  shows "same_count s s'"
proof -
  from assms obtain sc where sc: "get_closure cb s = Inr sc" by (auto simp: on_accept_def)
  obtain rc conn s1 where a: "accept_new_client E (cb_fd sc) s = (rc, conn, s1)" by (metis prod_cases3)
  then obtain n where "s1 = s\<lparr>sv_net := n\<rparr>" using accept_new_client_state by blast
  with assms sc a show ?thesis by (cases conn) (auto simp: on_accept_def Let_def upd_info_def)
qed

lemma connect_count: "connect_handler E cb pkt s = Inr (rc, s') \<Longrightarrow> same_count s s'"
  by (auto simp: connect_handler_def Let_def dest!: del_info reply_info split: mqtt_packet.splits option.splits if_splits)

lemma leave_count: "disconnect_handler cb pkt s = Inr (rc, s') \<Longrightarrow> same_count s s'" "drop_client cb s = Inr s' \<Longrightarrow> same_count s s'"
  by (auto simp: disconnect_handler_def drop_client_def Let_def dest!: del_info)

lemma subscribe_count: "subscribe_handler cb pkt s = Inr (rc, s') \<Longrightarrow> same_count s s'" "unsubscribe_handler cb pkt s = Inr (rc, s') \<Longrightarrow> same_count s s'"
  by (auto simp: subscribe_handler_def unsubscribe_handler_def Let_def dest!: reply_info split: mqtt_packet.splits if_splits)

lemma publish_count:
  assumes "publish_handler cb pkt s = Inr (rc, s')"
  shows "same_count s s'"
proof -
  from assms obtain q name t s1 p2 s2 and tp :: topic where p: "topic_for name (upd_info (\<lambda>i. i\<lparr>messages_recv := messages_recv i + 1\<rparr>) s) = Inr (t, s1)"
    "publish_to (tp_subs tp) q s1 = Inr (p2, s2)"
    and r: "(if hdr_qos (pub_header q) = 1 then reply cb (Pkt_ack (mqtt_packet_ack 0x40 (pub_pkt_id p2))) PUBACK s2
       else if hdr_qos (pub_header q) = 2 then reply cb (Pkt_ack (mqtt_packet_ack 0x50 (pub_pkt_id p2))) PUBREC s2
       else Inr (0, s2)) = Inr (rc, s')"
    by (cases pkt) (auto simp: publish_handler_def Let_def)
  have "sv_info s' = sv_info s2" using r by (auto dest: reply_info split: if_splits)
  then show ?thesis using topic_for_info [OF p(1)] publish_to_count [OF p(2)] by (simp add: upd_info_def)
qed

lemma written_count: "on_write cb s = Inr s' \<Longrightarrow> same_count s s'"
  by (auto simp: on_write_def Let_def upd_info_def split_beta split: option.splits)

lemma publish_message_count:
  assumes "publish_message i t pl s = Inr s'"
  shows "same_count s s'"
proof (cases "sol_topic_get (sv_sol s) t")
  case (Some a)
  with assms obtain subs p q where "publish_to subs p s = Inr (q, s')" by (auto simp: publish_message_def Let_def)
  then show ?thesis by (rule publish_to_count)
qed (use assms in \<open>simp add: publish_message_def\<close>)

lemma stats_count:
  assumes "publish_stats now su s = Inr s'"
  shows "same_count s s'"
proof -
  from assms obtain t1 t2 t3 t4 t5 t6 p1 p2 p3 p4 p5 p6 s1 s2 s3 s4 s5 where
    "publish_message 0 t1 p1 s = Inr s1" "publish_message 0 t2 p2 s1 = Inr s2" "publish_message 0 t3 p3 s2 = Inr s3"
    "publish_message 0 t4 p4 s3 = Inr s4" "publish_message 0 t5 p5 s4 = Inr s5" "publish_message 0 t6 p6 s5 = Inr s'"
    unfolding publish_stats_def Let_def rbind_eq_Inr by blast
  from this [THEN publish_message_count] show ?thesis by linarith
qed

lemmas step_counts = accept_count connect_count leave_count subscribe_count publish_count written_count stats_count

lemma step_count: "srv_step E s s' \<Longrightarrow> same_count s s'"
  by (erule srv_stepE) (simp_all add: step_counts)

interpretation counters: invariant_run "srv_step E" "\<lambda>s. nconnections (sv_info s) = nclients (sv_info s)" for E
  by unfold_locales (use step_count in fastforce)

lemma server_init_info: "server_init E n tfd ok now rx tx = Inr s \<Longrightarrow> nconnections (sv_info s) = nclients (sv_info s)"
  by (auto simp: server_init_def Let_def)

text \<open>
  C7 (connections_are_clients): in every state the server reaches from start-up the counter of connections, which is documented as the number of clients connected since the start, equals the counter of
  the clients connected now.
\<close>

theorem connections_are_clients:
  assumes "server_init E n tfd ok now rx tx = Inr s0" "(srv_step E)\<^sup>*\<^sup>* s0 s"
  shows "nconnections (sv_info s) = nclients (sv_info s)"
  by (rule counters.run_keeps [OF assms(2) server_init_info [OF assms(1)]])

theorem connections_are_clients_witness:
  "\<exists>s0 s. server_init sample_env no_net 4 True 0 (\<lambda>_. []) (\<lambda>_. []) = Inr s0 \<and> srv_step sample_env s0 s
    \<and> nclients (sv_info s) = nclients (sv_info s0) + 1 \<and> nconnections (sv_info s) = nclients (sv_info s)"
proof -
  from sample_step obtain s0 s where s: "server_init sample_env no_net 4 True 0 (\<lambda>_. []) (\<lambda>_. []) = Inr s0" "srv_step sample_env s0 s"
    "nclients (sv_info s) = nclients (sv_info s0) + 1" by blast
  with connections_are_clients [OF s(1) r_into_rtranclp [where r = "srv_step sample_env", OF s(2)]] show ?thesis by blast
qed

end
