(* ===== verification/Service.thy ===== *)
theory Service
  imports History
begin

text \<open>
  What clients get from the broker: the properties of the handlers and of their composition, stated over the abstract view of the
  subscriptions (\<open>subs_at\<close>) and the bytes on the sockets (\<open>sv_wire\<close>), each with a concrete server it applies to.
\<close>

section \<open>A server to apply them to\<close>

text \<open>
  Two clients: closure 2 on descriptor 7 with client 5, closure 3 on descriptor 8 with client 6. One topic exists, and client 5 has subscribed to it with QoS 1; in \<open>demo_srv\<close> it is \<^verbatim>\<open>a/\<close>.
\<close>

definition demo_closure :: "nat \<Rightarrow> int \<Rightarrow> nat \<Rightarrow> closure" where
  "demo_closure a fd obj = \<lparr>cb_fd = fd, cb_obj = Some obj, cb_args = a, cb_closure_id = [99], cb_payload = None, cb_call = On_read\<rparr>"

definition demo_mem :: "u8 list \<Rightarrow> omem" where
  "demo_mem name = \<lparr>om_clients = [5 \<mapsto> \<lparr>sc_client_id = [99], sc_fd = 7, sc_subscriptions = None\<rparr>,
                              6 \<mapsto> \<lparr>sc_client_id = [100], sc_fd = 8, sc_subscriptions = None\<rparr>],
     om_topics = [10 \<mapsto> \<lparr>tp_name = name, tp_subs = [11]\<rparr>], om_subs = [11 \<mapsto> \<lparr>su_qos = 1, su_client = Some 5\<rparr>],
     om_closures = [2 \<mapsto> demo_closure 2 7 5, 3 \<mapsto> demo_closure 3 8 6], om_next = 12, om_bad = False\<rparr>"

definition demo_table :: "(nat, omem) hashtable" where
  "demo_table = put_at (new_table client_destructor) 0 [99] (Some 5)"

definition demo_sol :: "u8 list \<Rightarrow> sol" where
  "demo_sol name = \<lparr>sol_clients = demo_table, sol_closures = new_table closure_destructor,
     sol_topics = trie_insert trie_init name (Some 10)\<rparr>"

definition demo_at :: "u8 list \<Rightarrow> srv" where
  "demo_at name = sample_srv\<lparr>sv_sol := demo_sol name, sv_mem := demo_mem name, sv_tx := (\<lambda>_. [Snd_room 3000, Snd_room 3000])\<rparr>"

definition demo_srv :: srv where
  "demo_srv = demo_at [97, 47]"

lemma demo_topics: "sol_topic_get (demo_sol name) = [name \<mapsto> 10]" "wf_tnode (trie_root (sol_topics (demo_sol name)))"
proof -
  have i: "trie_map (trie_init :: nat trie) = (\<lambda>_. None)" "wf_tnode (trie_root (trie_init :: nat trie))"
    using trie_create_ok(1) [unfolded trie_create_def trie_ok_def, THEN conjunct1] trie_create_ok(2) by (simp_all add: trie_create_def)
  note t = trie_insert_map [OF i(2), of name 10]
  show "sol_topic_get (demo_sol name) = [name \<mapsto> 10]" using t i(1) by (simp add: fun_eq_iff sol_topic_get_map demo_sol_def)
  show "wf_tnode (trie_root (sol_topics (demo_sol name)))" using t by (simp add: demo_sol_def)
qed

lemma demo_at_ok: "srv_ok (demo_at name)"
proof -
  have "trie_map (sol_topics (demo_sol name)) = [name \<mapsto> 10]" using demo_topics(1) by (simp add: fun_eq_iff sol_topic_get_map)
  then have "topics_ok (demo_sol name) (demo_mem name)" using demo_topics(2) by (auto simp: topics_ok_def demo_mem_def split: if_splits)
  moreover have "fresh_ok (demo_mem name)" by (simp add: fresh_ok_def demo_mem_def)
  moreover have "vals (ht_entries demo_table) = {#Some 5#}" "tab_ok demo_table" "ht_destructor demo_table = client_destructor"
    by (simp_all add: demo_table_def put_at_def new_table_def new_slots tab_ok_def sizes_ok_def)
  moreover have "sol_closures (demo_sol name) = new_table closure_destructor" "sol_clients (demo_sol name) = demo_table" by (simp_all add: demo_sol_def)
  ultimately show ?thesis
    by (auto simp: core_ok_def owns_def demo_at_def new_table_values) (simp_all add: demo_mem_def)
qed

lemma demo_ok: "srv_ok demo_srv"
  unfolding demo_srv_def by (rule demo_at_ok)

lemma demo_at_simps [simp]:
  "subs_at (sv_sol (demo_at name)) (sv_mem (demo_at name)) k = (if k = name then [\<lparr>su_qos = 1, su_client = Some 5\<rparr>] else [])"
  "om_clients (sv_mem (demo_at name)) 5 = Some \<lparr>sc_client_id = [99], sc_fd = 7, sc_subscriptions = None\<rparr>"
  "sv_tx (demo_at name) = (\<lambda>_. [Snd_room 3000, Snd_room 3000])" "sv_wire (demo_at name) = (\<lambda>_. [])" "sv_info (demo_at name) = sv_info sample_srv"
  by (simp_all add: demo_at_def subs_at_def demo_topics) (simp_all add: demo_mem_def sample_srv_def)

lemma demo_simps [simp]:
  "get_closure 2 demo_srv = Inr (demo_closure 2 7 5)" "get_closure 3 demo_srv = Inr (demo_closure 3 8 6)"
  "subs_at (sv_sol demo_srv) (sv_mem demo_srv) [97, 47] = [\<lparr>su_qos = 1, su_client = Some 5\<rparr>]"
  "subs_at (sv_sol demo_srv) (sv_mem demo_srv) [98, 47] = []"
  "om_clients (sv_mem demo_srv) 5 = Some \<lparr>sc_client_id = [99], sc_fd = 7, sc_subscriptions = None\<rparr>"
  "om_clients (sv_mem demo_srv) 6 = Some \<lparr>sc_client_id = [100], sc_fd = 8, sc_subscriptions = None\<rparr>"
  "sv_tx demo_srv = (\<lambda>_. [Snd_room 3000, Snd_room 3000])" "sv_wire demo_srv = (\<lambda>_. [])" "om_next (sv_mem demo_srv) = 12"
  by (simp_all add: demo_srv_def get_closure_def) (simp_all add: demo_at_def demo_mem_def)

lemma demo_closure_simps [simp]:
  "cb_fd (demo_closure a fd obj) = fd" "cb_obj (demo_closure a fd obj) = Some obj" "cb_payload (demo_closure a fd obj) = None"
  by (simp_all add: demo_closure_def)

lemma demo_room: "roomy 100 2 [Snd_room 3000, Snd_room 3000]" "roomy 100 1 [Snd_room 3000, Snd_room 3000]"
  by (auto simp: roomy_def)

lemma demo_live: "live_sub (sv_mem demo_srv) \<lparr>su_qos = q, su_client = Some 5\<rparr>" "live_sub (sv_mem demo_srv) \<lparr>su_qos = q, su_client = Some 6\<rparr>"
  by (simp_all add: live_sub_def)

section \<open>Publishing\<close>

text \<open>
  Handling a PUBLISH of a client, in a state that satisfies the invariant, when the sockets of the subscribers have room: every subscription of the topic, with its
  trailing slash, whose client is there gets exactly one copy of the message on the client's descriptor, in the order of the subscriptions, with the header's QoS bits replaced by the subscription's and
  nothing else changed; no other descriptor gets a byte. The publisher's closure gets a PUBACK for QoS 1, a PUBREC for QoS 2 and nothing for QoS 0,
  the counters are advanced, and the subscriptions stay as they are.
\<close>

theorem publish_delivers:
  assumes "srv_ok s" "get_closure cb s = Inr c" "get_client (cb_obj c) s = Inr cl"
    and "topic \<noteq> []" "length topic < 65536" "length payload < 65536" "zero_free topic" "zero_free payload"
    and "xs = subs_at (sv_sol s) (sv_mem s) (slashed topic)" "length topic + length payload + 9 \<le> M"
    and "\<forall>x \<in> set xs. live_sub (sv_mem s) x \<and> roomy M (length xs) (sv_tx s (sub_fd (sv_mem s) x))"
  shows "\<exists>s'. publish_handler cb (Pkt_publish (publish_of h topic pid payload)) s = Inr (if hdr_qos h = 1 \<or> hdr_qos h = 2 then 1 else 0, s')
    \<and> sv_wire s' = (\<lambda>fd. sv_wire s fd @ inbox (sv_mem s) (\<lambda>q. wire_publish (set_hdr_qos q h) topic pid payload) xs fd)
    \<and> get_closure cb s' = Inr (c\<lparr>cb_payload := publish_reply h pid (cb_payload c)\<rparr>)
    \<and> messages_sent (sv_info s') = messages_sent (sv_info s) + int (length xs)
    \<and> messages_recv (sv_info s') = messages_recv (sv_info s) + 1
    \<and> subs_at (sv_sol s') (sv_mem s') = subs_at (sv_sol s) (sv_mem s) \<and> srv_ok s'"
  using publish_spec [OF assms, of h pid] by blast

theorem publish_delivers_witness:
  "\<exists>s'. publish_handler 3 (Pkt_publish (publish_of 0x32 [97] 9 [104, 105])) demo_srv = Inr (1, s')
    \<and> sv_wire s' 7 = [0x32, 7, 0, 1, 97, 0, 9, 104, 105] \<and> sv_wire s' 8 = []
    \<and> get_closure 3 s' = Inr ((demo_closure 3 8 6)\<lparr>cb_payload := Some (packed [0x40, 2, 0, 9])\<rparr>)"
proof -
  have q: "hdr_qos 0x32 = 1" "set_hdr_qos 1 0x32 = 0x32" by code_simp+
  have w: "wire_publish 0x32 [97] 9 [104, 105] = [0x32, 7, 0, 1, 97, 0, 9, 104, 105]"
    by (simp add: wire_publish_def publish_body_def q be16_def encode_loop.simps)
  have sl: "slashed [97] = [97, 47]" by (simp add: slashed_def)
  have "\<exists>s'. publish_handler 3 (Pkt_publish (publish_of 0x32 [97] 9 [104, 105])) demo_srv = Inr (if hdr_qos 0x32 = 1 \<or> hdr_qos 0x32 = 2 then 1 else 0, s')
    \<and> sv_wire s' = (\<lambda>fd. sv_wire demo_srv fd @ inbox (sv_mem demo_srv) (\<lambda>q. wire_publish (set_hdr_qos q 0x32) [97] 9 [104, 105])
        (subs_at (sv_sol demo_srv) (sv_mem demo_srv) (slashed [97])) fd)
    \<and> get_closure 3 s' = Inr ((demo_closure 3 8 6)\<lparr>cb_payload := publish_reply 0x32 9 (cb_payload (demo_closure 3 8 6))\<rparr>)
    \<and> messages_sent (sv_info s') = messages_sent (sv_info demo_srv) + int (length (subs_at (sv_sol demo_srv) (sv_mem demo_srv) (slashed [97])))
    \<and> messages_recv (sv_info s') = messages_recv (sv_info demo_srv) + 1
    \<and> subs_at (sv_sol s') (sv_mem s') = subs_at (sv_sol demo_srv) (sv_mem demo_srv) \<and> srv_ok s'"
    by (rule publish_delivers [where M = 100 and cl = "\<lparr>sc_client_id = [100], sc_fd = 8, sc_subscriptions = None\<rparr>"])
       (use demo_ok demo_live demo_room in \<open>simp_all add: get_client_def sl\<close>)
  then show ?thesis by (auto simp: sl q w inbox_def sub_fd_def publish_reply_def be16_def)
qed

section \<open>Subscribing\<close>

text \<open>
  C9 (subscribe_refines): a SUBSCRIBE packet with up to 125 plain topic filters from a connected client: every filter, with a slash put behind it, becomes a subscription of this client with the
  requested QoS in front of those the topic has, in the order of the packet, no other topic is touched, and the closure gets a SUBACK that grants the
  requested QoS values in order.
\<close>

theorem subscribe_refines:
  assumes "srv_ok s" "get_closure cb s = Inr c" "cb_obj c = Some a" "om_clients (sv_mem s) a \<noteq> None"
    and "\<forall>f \<in> set fs. plain_filter (fst f)" "length fs \<le> 125"
  shows "\<exists>s'. subscribe_handler cb (Pkt_subscribe (subscribe_of h pid fs)) s = Inr (1, s')
    \<and> subs_at (sv_sol s') (sv_mem s') = fold (add_sub (Some a)) fs (subs_at (sv_sol s) (sv_mem s))
    \<and> get_closure cb s' = Inr (c\<lparr>cb_payload := Some (packed (wire_suback 0x90 pid (map (ucast \<circ> snd) fs)))\<rparr>)
    \<and> (\<forall>b. b \<noteq> cb \<longrightarrow> get_closure b s' = get_closure b s)
    \<and> om_clients (sv_mem s') = om_clients (sv_mem s) \<and> sv_wire s' = sv_wire s \<and> sv_tx s' = sv_tx s \<and> srv_ok s'"
  by (rule subscribe_spec [OF assms])

theorem subscribe_refines_witness:
  "\<exists>s'. subscribe_handler 3 (Pkt_subscribe (subscribe_of 0x82 4 [([97], 2), ([98], 0)])) demo_srv = Inr (1, s')
    \<and> subs_at (sv_sol s') (sv_mem s') [97, 47] = [\<lparr>su_qos = 2, su_client = Some 6\<rparr>, \<lparr>su_qos = 1, su_client = Some 5\<rparr>]
    \<and> subs_at (sv_sol s') (sv_mem s') [98, 47] = [\<lparr>su_qos = 0, su_client = Some 6\<rparr>]
    \<and> get_closure 3 s' = Inr ((demo_closure 3 8 6)\<lparr>cb_payload := Some (packed [0x90, 4, 0, 4, 2, 0])\<rparr>)"
proof -
  have w: "wire_suback 0x90 4 [2, 0] = [0x90, 4, 0, 4, 2, 0]" by (simp add: wire_suback_def be16_def encode_loop.simps)
  show ?thesis
    using subscribe_refines [OF demo_ok demo_simps(2), of 6 "[([97], 2), ([98], 0)]" "0x82" 4]
    by (auto simp: plain_filter_def filter_ok_def add_sub_def slashed_def w)
qed

lemma later_topics_empty:
  assumes "srv_ok s" "(other_step E)\<^sup>*\<^sup>* s u" "sol_topic_get (sv_sol s) k = None"
  shows "subs_at (sv_sol u) (sv_mem u) k = []"
proof -
  have "subs_at (sv_sol u) (sv_mem u) = subs_at (sv_sol s) (sv_mem s)" using other_run.run_le [OF assms(2,1)] by (simp add: quiet_def)
  then show ?thesis using assms(3) by (simp add: subs_at_def)
qed

text \<open>
  C10 (subscribe_wildcard): subscribing to \<^verbatim>\<open>name/#\<close>, a filter without zero bytes and with no other \<^verbatim>\<open>#\<close>, when the topic \<open>name/\<close> exists puts the subscription in front of the subscriptions of every existing topic at or below it and of no other topic, but at \<open>name/\<close> itself
  at least twice, so that a message published there is sent at least twice to the client. When the topic does not exist, only \<open>name/\<close> gets the subscription, however many topics lie below
  it. A topic that does not exist then, below \<open>name/\<close> or not, has no subscription in any later state, however it comes into being, as long as nobody sends another SUBSCRIBE.
\<close>

theorem subscribe_wildcard:
  assumes "srv_ok s" "get_closure cb s = Inr c" "cb_obj c = Some a" "om_clients (sv_mem s) a \<noteq> None" "wild_filter name"
  shows "\<exists>s' n. subscribe_handler cb (Pkt_subscribe (subscribe_of h pid [(name @ [35], q)])) s = Inr (1, s')
    \<and> (\<forall>k. subs_at (sv_sol s') (sv_mem s') k = replicate (n k) \<lparr>su_qos = q, su_client = Some a\<rparr> @ subs_at (sv_sol s) (sv_mem s) k)
    \<and> (\<forall>k. 0 < n k \<longleftrightarrow> reached (sv_sol s) True name k)
    \<and> (if sol_topic_get (sv_sol s) name = None then n name = 1 else 2 \<le> n name) \<and> srv_ok s'
    \<and> (\<forall>u k. (other_step E)\<^sup>*\<^sup>* s' u \<longrightarrow> sol_topic_get (sv_sol s') k = None \<longrightarrow> subs_at (sv_sol u) (sv_mem u) k = [])"
  using subscribe_wild_spec [OF assms, of h pid q] later_topics_empty by blast

theorem subscribe_wildcard_witness:
  "\<exists>s' n. subscribe_handler 3 (Pkt_subscribe (subscribe_of 0x82 4 [([97, 47, 35], 0)])) demo_srv = Inr (1, s')
    \<and> 2 \<le> n \<and> subs_at (sv_sol s') (sv_mem s') [97, 47] = replicate n \<lparr>su_qos = 0, su_client = Some 6\<rparr> @ [\<lparr>su_qos = 1, su_client = Some 5\<rparr>]
    \<and> subs_at (sv_sol s') (sv_mem s') [98, 47] = []"
proof -
  have wild: "wild_filter [97, 47]" by (simp add: wild_filter_def filter_ok_def)
  have ex: "sol_topic_get (sv_sol demo_srv) [97, 47] = Some 10" "\<not> reached (sv_sol demo_srv) True [97, 47] [98, 47]"
    by (simp_all add: demo_srv_def demo_at_def demo_topics reached_def)
  from subscribe_wildcard [OF demo_ok demo_simps(2), of 6 "[97, 47]" "0x82" 4 0 sample_env] wild obtain s' n where
    "subscribe_handler 3 (Pkt_subscribe (subscribe_of 0x82 4 [([97, 47] @ [35], 0)])) demo_srv = Inr (1, s')"
    "\<forall>k. subs_at (sv_sol s') (sv_mem s') k = replicate (n k) \<lparr>su_qos = 0, su_client = Some 6\<rparr> @ subs_at (sv_sol demo_srv) (sv_mem demo_srv) k"
    "\<forall>k. 0 < n k \<longleftrightarrow> reached (sv_sol demo_srv) True [97, 47] k" "2 \<le> n [97, 47]" using ex(1) by auto
  moreover from this(3) ex(2) have "n [98, 47] = 0" by blast
  ultimately show ?thesis by (intro exI [of _ s'] exI [of _ "n [97, 47]"]) simp
qed



section \<open>From one client to another\<close>

text \<open>
  A client subscribes to a topic and another client then publishes to it, written with or without the trailing slash: the message is on the subscriber's socket, after what was there, with the QoS the
  subscriber asked for, followed by the copies for the subscriptions that were there before; nothing else is sent.
\<close>

theorem subscribe_then_publish:
  assumes "srv_ok s" "get_closure cb s = Inr c" "cb_obj c = Some a" "om_clients (sv_mem s) a \<noteq> None" "plain_filter t"
    and "get_closure cb2 s = Inr c2" "cb2 \<noteq> cb" "get_client (cb_obj c2) s = Inr cl2"
    and "topic = t \<or> topic = t @ [47]" "length topic < 65536" "length payload < 65536" "zero_free payload"
    and "old = subs_at (sv_sol s) (sv_mem s) (t @ [47])" "length topic + length payload + 9 \<le> M"
    and "\<forall>x \<in> set (\<lparr>su_qos = q, su_client = Some a\<rparr> # old). live_sub (sv_mem s) x \<and> roomy M (Suc (length old)) (sv_tx s (sub_fd (sv_mem s) x))"
  shows "\<exists>s1 rc s2. subscribe_handler cb (Pkt_subscribe (subscribe_of h1 pid1 [(t, q)])) s = Inr (1, s1)
    \<and> publish_handler cb2 (Pkt_publish (publish_of h topic pid payload)) s1 = Inr (rc, s2)
    \<and> sv_wire s2 = (\<lambda>fd. sv_wire s fd @ inbox (sv_mem s) (\<lambda>q. wire_publish (set_hdr_qos q h) topic pid payload)
        (\<lparr>su_qos = q, su_client = Some a\<rparr> # old) fd)"
proof -
  have t: "t \<noteq> []" "zero_free t" "slashed t = t @ [47]" using assms(5) by (simp_all add: plain_filter_def filter_ok_def slashed_def)
  have tp: "topic \<noteq> []" "zero_free topic" "slashed topic = t @ [47]" using assms(9) t by (auto simp: slashed_def)
  from subscribe_spec [OF assms(1-4), of "[(t, q)]" h1 pid1] assms(5) obtain s1 where
    s1: "subscribe_handler cb (Pkt_subscribe (subscribe_of h1 pid1 [(t, q)])) s = Inr (1, s1)"
      "subs_at (sv_sol s1) (sv_mem s1) = add_sub (Some a) (t, q) (subs_at (sv_sol s) (sv_mem s))"
      "\<forall>b. b \<noteq> cb \<longrightarrow> get_closure b s1 = get_closure b s" "om_clients (sv_mem s1) = om_clients (sv_mem s)"
      "sv_wire s1 = sv_wire s" "sv_tx s1 = sv_tx s" "srv_ok s1" by auto
  define xs where "xs = \<lparr>su_qos = q, su_client = Some a\<rparr> # old"
  have x: "xs = subs_at (sv_sol s1) (sv_mem s1) (slashed topic)" using s1(2) assms(13) by (simp add: xs_def tp(3) t(3) add_sub_def)
  have fd: "sub_fd (sv_mem s1) = sub_fd (sv_mem s)" "live_sub (sv_mem s1) = live_sub (sv_mem s)"
    using s1(4) by (simp_all add: fun_eq_iff sub_fd_def live_sub_def)
  have c2: "get_closure cb2 s1 = Inr c2" "get_client (cb_obj c2) s1 = Inr cl2" using s1(3,4) assms(6-8) by (simp_all add: get_client_def)
  have "\<forall>x \<in> set xs. live_sub (sv_mem s1) x \<and> roomy M (length xs) (sv_tx s1 (sub_fd (sv_mem s1) x))"
    using assms(15) fd s1(6) by (simp add: xs_def)
  from publish_spec [OF s1(7) c2 tp(1) assms(10,11) tp(2) assms(12) x assms(14) this, of h pid] obtain s2 where
    "publish_handler cb2 (Pkt_publish (publish_of h topic pid payload)) s1 = Inr (if hdr_qos h = 1 \<or> hdr_qos h = 2 then 1 else 0, s2)"
    "sv_wire s2 = (\<lambda>fd. sv_wire s1 fd @ inbox (sv_mem s1) (\<lambda>q. wire_publish (set_hdr_qos q h) topic pid payload) xs fd)" by blast
  with s1(1,5) fd(1) show ?thesis by (simp add: inbox_def xs_def)
qed

theorem subscribe_then_publish_witness:
  "\<exists>s1 rc s2. subscribe_handler 3 (Pkt_subscribe (subscribe_of 0x82 4 [([97], 0)])) demo_srv = Inr (1, s1)
    \<and> publish_handler 2 (Pkt_publish (publish_of 0x30 [97, 47] 0 [104])) s1 = Inr (rc, s2)
    \<and> sv_wire s2 8 = [0x30, 5, 0, 2, 97, 47, 104] \<and> sv_wire s2 7 = [0x32, 7, 0, 2, 97, 47, 0, 0, 104]"
proof -
  have q: "set_hdr_qos 0 0x30 = 0x30" "set_hdr_qos 1 0x30 = 0x32" "hdr_qos 0x30 = 0" "hdr_qos 0x32 = 1" by code_simp+
  have w: "wire_publish 0x30 [97, 47] 0 [104] = [0x30, 5, 0, 2, 97, 47, 104]" "wire_publish 0x32 [97, 47] 0 [104] = [0x32, 7, 0, 2, 97, 47, 0, 0, 104]"
    by (simp_all add: wire_publish_def publish_body_def q be16_def encode_loop.simps)
  have "\<exists>s1 rc s2. subscribe_handler 3 (Pkt_subscribe (subscribe_of 0x82 4 [([97], 0)])) demo_srv = Inr (1, s1)
    \<and> publish_handler 2 (Pkt_publish (publish_of 0x30 [97, 47] 0 [104])) s1 = Inr (rc, s2)
    \<and> sv_wire s2 = (\<lambda>fd. sv_wire demo_srv fd @ inbox (sv_mem demo_srv) (\<lambda>q. wire_publish (set_hdr_qos q 0x30) [97, 47] 0 [104])
        (\<lparr>su_qos = 0, su_client = Some 6\<rparr> # subs_at (sv_sol demo_srv) (sv_mem demo_srv) ([97] @ [47])) fd)"
    by (rule subscribe_then_publish [OF demo_ok demo_simps(2) _ _ _ demo_simps(1), where M = 100 and ?cl2.0 = "\<lparr>sc_client_id = [99], sc_fd = 7, sc_subscriptions = None\<rparr>"])
       (use demo_live demo_room(1) [unfolded numeral_2_eq_2] in \<open>simp_all add: get_client_def plain_filter_def filter_ok_def\<close>)
  then obtain s1 rc s2 where "subscribe_handler 3 (Pkt_subscribe (subscribe_of 0x82 4 [([97], 0)])) demo_srv = Inr (1, s1)"
    "publish_handler 2 (Pkt_publish (publish_of 0x30 [97, 47] 0 [104])) s1 = Inr (rc, s2)"
    "sv_wire s2 = (\<lambda>fd. sv_wire demo_srv fd @ inbox (sv_mem demo_srv) (\<lambda>q. wire_publish (set_hdr_qos q 0x30) [97, 47] 0 [104])
        (\<lparr>su_qos = 0, su_client = Some 6\<rparr> # subs_at (sv_sol demo_srv) (sv_mem demo_srv) ([97] @ [47])) fd)" by blast
  then show ?thesis by (intro exI [of _ s1] exI [of _ rc] exI [of _ s2]) (simp add: inbox_def sub_fd_def q w)
qed



section \<open>Connecting\<close>

lemma del_closure_others:
  assumes "srv_ok s" "hashtable_get (sol_closures (sv_sol s)) key \<noteq> Some b" "del_closure key s = Inr s'"
  shows "om_closures (sv_mem s') b = om_closures (sv_mem s) b"
proof (cases "get_probe 8 (sol_closures (sv_sol s)) key (hashtable_hash_int (sol_closures (sv_sol s)) key)")
  case None
  then show ?thesis using assms(3) by (auto simp: del_closure_def hashtable_del_def split: if_splits)
next
  case (Some i)
  then have "he_val (slot (sol_closures (sv_sol s)) i) \<noteq> Some b" using assms(2) by (simp add: hashtable_get_def)
  then show ?thesis
    using Some assms(1,3) by (auto simp: del_closure_def hashtable_del_def Let_def core_ok_def closure_destructor_def split: option.splits if_splits)
qed

text \<open>
  C13 (double_connect_dangles): a CONNECT with an identifier that is registered, on a connection whose own identifier does not belong to the closure of the registered client: the record of that client is
  freed, while its closure is kept and still points to it. From then on a DISCONNECT, an UNSUBSCRIBE, a PUBLISH or a SUBSCRIBE with at least one filter from the first client makes the server read freed memory. (Only another
  CONNECT does not: it replaces the pointer.)
\<close>

theorem double_connect_dangles:
  assumes "srv_ok s" "get_closure cb s = Inr c" "cb_obj c = Some a" "get_closure cb2 s = Inr c2"
    and "con_client_id p = Some (cstr cid)" "zero_free cid" "hashtable_get (sol_clients (sv_sol s)) cid = Some a"
    and "hashtable_get (sol_closures (sv_sol s)) (cb_closure_id c2) \<noteq> Some cb"
  shows "\<exists>s'. connect_handler E cb2 (Pkt_connect p) s = Inr (- 1, s')
    \<and> get_closure cb s' = Inr c \<and> om_clients (sv_mem s') a = None
    \<and> (\<forall>pkt. disconnect_handler cb pkt s' = Inl Use_after_free)
    \<and> (\<forall>u. unsubscribe_handler cb (Pkt_unsubscribe u) s' = Inl Use_after_free)
    \<and> (\<forall>u. publish_handler cb (Pkt_publish u) s' = Inl Use_after_free)
    \<and> (\<forall>h pid f fs. length fs < 65535 \<longrightarrow> subscribe_handler cb (Pkt_subscribe (subscribe_of h pid (f # fs))) s' = Inl Use_after_free)"
proof -
  let ?s = "srv_close (cb_fd c2) s"
  have "srv_ok ?s" "hashtable_get (sol_clients (sv_sol ?s)) cid = Some a" using assms(1,7) by simp_all
  from del_client_frees [OF this] obtain s1 where s1: "del_client cid ?s = Inr s1" "srv_ok s1"
    "om_clients (sv_mem s1) = (om_clients (sv_mem s))(a := None)" "om_closures (sv_mem s1) = om_closures (sv_mem s)" by auto
  from del_closure_ok [OF s1(2)] obtain s2 where s2: "del_closure (cb_closure_id c2) s1 = Inr s2" "om_clients (sv_mem s2) = om_clients (sv_mem s1)" by blast
  have "sol_closures (sv_sol s1) = sol_closures (sv_sol s)"
    using s1(1) by (auto simp: del_client_def Let_def split_beta split: if_splits)
  then have kept: "om_closures (sv_mem s2) cb = om_closures (sv_mem s1) cb" using del_closure_others [OF s1(2) _ s2(1)] assms(8) by simp
  define s' where "s' = client_gone s2"
  have r: "connect_handler E cb2 (Pkt_connect p) s = Inr (- 1, s')"
    using assms(4-7) s1(1) s2(1) by (simp add: connect_handler_def hashtable_exists_def s'_def)
  have dead: "om_clients (sv_mem s') a = None" and c: "get_closure cb s' = Inr c"
    using s1(3,4) s2(2) kept assms(2) by (simp_all add: s'_def get_closure_def)
  then have gone: "get_client (cb_obj c) s' = Inl Use_after_free" using assms(3) by (simp add: get_client_def)
  have "unat (of_nat (length (f # fs)) :: u16) = Suc (length fs)" if "length fs < 65535" for f and fs :: "(u8 list \<times> u32) list"
    using that unat_of_nat_small [of "Suc (length fs)", where ?'a = 16] by simp
  then have "subscribe_handler cb (Pkt_subscribe (subscribe_of h pid (f # fs))) s' = Inl Use_after_free" if "length fs < 65535" for h pid f fs
    using that assms(3) dead c by (simp add: subscribe_handler_def subscribe_of_def)
  then show ?thesis using r dead gone c
    by (intro exI [of _ s']) (simp add: disconnect_handler_def unsubscribe_handler_def publish_handler_def)
qed

text \<open>For the witness: a CONNECT with the identifier of the client on descriptor 7.\<close>

definition demo_connect :: "u8 list \<Rightarrow> mqtt_connect" where
  "demo_connect cid = \<lparr>con_header = 0x10, con_byte = 2, con_keepalive = 60, con_client_id = Some (cstr cid), con_username = None,
     con_password = None, con_will_topic = None, con_will_message = None\<rparr>"

lemma demo_table_ok:
  "ht_store_ok 1 (demo_table)" "plain_key 1 [100]" "hashtable_get (demo_table) [99] = Some 5"
  "hashtable_get (demo_table) [100] = None"
proof -
  have p: "plain_key 1 [99]" "plain_key 1 [100]" by (simp_all add: plain_key_def tolower_def)
  have put: "ht_put (\<lambda>_. True) 9 (new_table client_destructor) [99] 5 = Some (demo_table)"
    by (simp add: ht_put_def put_now [OF hash_c] demo_table_def del: hashtable_put.simps)
  note law = ht_put_law [OF new_table_ok(1) p(1) _ put]
  have v: "ht_store_ok 1 (demo_table)" "ht_view (demo_table) = [[99] \<mapsto> 5]" using law by (simp_all add: new_table_ok)
  show "ht_store_ok 1 (demo_table)" "plain_key 1 [100]" "hashtable_get (demo_table) [99] = Some 5"
    "hashtable_get (demo_table) [100] = None"
    using v p ht_store.get_law [OF v(1) p(1)] ht_store.get_law [OF v(1) p(2)] by simp_all
qed

lemma demo_clients [simp]: "sol_clients (sv_sol demo_srv) = demo_table"
  by (simp add: demo_srv_def demo_at_def demo_sol_def)

theorem double_connect_dangles_witness:
  "\<exists>s'. connect_handler sample_env 3 (Pkt_connect (demo_connect [99])) demo_srv = Inr (- 1, s')
    \<and> get_closure 2 s' = Inr (demo_closure 2 7 5) \<and> om_clients (sv_mem s') 5 = None
    \<and> disconnect_handler 2 (Pkt_header 0xE0) s' = Inl Use_after_free"
proof -
  have "hashtable_get (sol_closures (sv_sol demo_srv)) k = None" if "k = [99]" for k
    using that by (simp add: demo_srv_def demo_at_def demo_sol_def hashtable_get_def ht_eval)
  then have "hashtable_get (sol_closures (sv_sol demo_srv)) (cb_closure_id (demo_closure 3 8 6)) \<noteq> Some 2"
    by (simp add: demo_closure_def)
  from double_connect_dangles [OF demo_ok demo_simps(1) _ demo_simps(2) _ _ _ this, of 5 "demo_connect [99]" "[99]" sample_env] demo_table_ok(3) show ?thesis
    by (auto simp: demo_connect_def demo_closure_def)
qed

end
