(* ===== verification/Stats.thy ===== *)
theory Stats
  imports Service
begin

text \<open>
  The statistics the server publishes: the number buffers are large enough for every value of their counters, negative ones included, and
  the six messages go to the subscribers of their topics in order.
\<close>

section \<open>Numbers fit their buffers\<close>

lemma dec_digits_mono: "m \<le> n \<Longrightarrow> length (dec_digits m) \<le> length (dec_digits n)"
proof (induction n arbitrary: m rule: dec_digits.induct)
  case (1 n)
  show ?case
  proof (cases "m < 10")
    case True
    then have "length (dec_digits m) = 1" by (simp add: dec_digits.simps [of m])
    then show ?thesis by (cases "dec_digits n") auto
  next
    case False
    then have "\<not> n < 10" "m div 10 \<le> n div 10" using 1(2) by (auto intro: div_le_mono)
    from 1(1) [OF this] False \<open>\<not> n < 10\<close> show ?thesis by (simp add: dec_digits.simps [of m] dec_digits.simps [of n])
  qed
qed

lemma long_digits: "length (dec_digits 9223372036854775808) = 19"
  by (simp add: dec_digits.simps)

lemma zero_free_dec_int: "zero_free (dec_int n)"
proof -
  have "zero_free (dec_digits k)" for k using dec_digits_isdigit [of 0 k] by (auto simp: zero_free_def isdigit_def)
  then show ?thesis by (simp add: dec_int_def)
qed

lemma sprint_num_fits:
  assumes "- (2 ^ 63) \<le> n" "n < 2 ^ 63"
  shows "sprint_num n = Inr (dec_int n)"
proof (cases "n < 0")
  case False
  then have u: "unat (of_int n :: u64) = nat n" using assms by (simp add: unat_eq_nat_uint uint_word_of_int_eq take_bit_int_eq_self)
  show ?thesis
  proof (cases "n = 0")
    case True
    then show ?thesis by (simp add: sprint_num_def dec_int_def number_len_def number_len_loop_digits dec_digits.simps [of 0])
  next
    case nz: False
    then show ?thesis using False u by (simp add: sprint_num_def dec_int_def number_len_def number_len_loop_digits)
  qed
next
  case True
  define k where "k = nat (- n)"
  have "uint (of_int n :: u64) = n mod 2 ^ 64" by (simp add: uint_word_of_int_eq take_bit_eq_mod)
  also have "\<dots> = (n + 2 ^ 64) mod 2 ^ 64" by simp
  also have "\<dots> = n + 2 ^ 64" using True assms by (intro mod_pos_pos_trivial) auto
  finally have u: "unat (of_int n :: u64) = nat (n + 2 ^ 64)" by (simp add: unat_eq_nat_uint)
  have "k \<le> nat (n + 2 ^ 64)" "nat (n + 2 ^ 64) \<noteq> 0" using assms True by (auto simp: k_def)
  then show ?thesis using True u dec_digits_mono [of k "nat (n + 2 ^ 64)"]
    by (simp add: sprint_num_def dec_int_def number_len_def number_len_loop_digits flip: k_def)
qed

section \<open>Messages of the server\<close>

lemma publish_message_spec:
  assumes "srv_ok s" "length topic < 65536" "length payload < 65536" "zero_free topic" "zero_free payload" "length topic + length payload + 9 \<le> M"
    and "xs = subs_at (sv_sol s) (sv_mem s) topic" "\<forall>x \<in> set xs. live_sub (sv_mem s) x" "\<forall>fd. roomy M (n + length xs) (sv_tx s fd)"
  shows "\<exists>s'. publish_message pid topic payload s = Inr s' \<and> sv_sol s' = sv_sol s \<and> sv_mem s' = sv_mem s
    \<and> sv_wire s' = (\<lambda>fd. sv_wire s fd @ inbox (sv_mem s) (\<lambda>q. wire_publish (set_hdr_qos q 0x30) topic pid payload) xs fd)
    \<and> messages_sent (sv_info s') = messages_sent (sv_info s) + int (length xs) \<and> (\<forall>fd. roomy M n (sv_tx s' fd))"
proof (cases "sol_topic_get (sv_sol s) topic")
  case None
  then have "xs = []" using assms(7) by (simp add: subs_at_def)
  then show ?thesis using None assms(9) by (auto simp: publish_message_def inbox_def)
next
  case (Some t)
  obtain tp where tp: "om_topics (sv_mem s) t = Some tp" "subs_at (sv_sol s) (sv_mem s) topic = map (the \<circ> om_subs (sv_mem s)) (tp_subs tp)"
    "\<forall>a \<in> set (tp_subs tp). om_subs (sv_mem s) a \<noteq> None" by (rule subs_at_list [OF assms(1) Some])
  have "\<forall>x \<in> set xs. live_sub (sv_mem s) x \<and> roomy M (length xs) (sv_tx s (sub_fd (sv_mem s) x))"
    using assms(8,9) by (auto intro: roomy_less [of M "n + length xs"])
  from publish_to_delivers [OF assms(2-6) this tp(3), of "0x30" pid] tp(2) assms(7,9) obtain h' s' where
    "publish_to (tp_subs tp) (publish_of 0x30 topic pid payload) s = Inr (publish_of h' topic pid payload, s')"
    "sv_sol s' = sv_sol s" "sv_mem s' = sv_mem s"
    "sv_wire s' = (\<lambda>fd. sv_wire s fd @ inbox (sv_mem s) (\<lambda>q. wire_publish (set_hdr_qos q 0x30) topic pid payload) xs fd)"
    "messages_sent (sv_info s') = messages_sent (sv_info s) + int (length xs)" "\<forall>fd. roomy M n (sv_tx s' fd)" by auto
  moreover have "mqtt_packet_publish 0x30 pid (of_nat (length topic)) (Some (cstr topic)) (of_nat (length payload)) (Some (cstr payload)) = publish_of 0x30 topic pid payload"
    by (simp add: mqtt_packet_publish_def publish_of_def ucast_of_nat_down)
  ultimately show ?thesis using Some tp(1) by (simp add: publish_message_def)
qed

text \<open>A sequence of messages, as the body of \<^verbatim>\<open>publish_stats\<close> sends them.\<close>

fun publish_each :: "(u8 list \<times> u8 list) list \<Rightarrow> srv \<Rightarrow> srv res" where
  "publish_each [] s = Inr s"
| "publish_each ((topic, payload) # ms) s = rbind (publish_message 0 topic payload s) (publish_each ms)"

lemma rbind_right [simp]: "rbind m Inr = m"
  by (cases m) simp_all

lemma publish_each_fun:
  "publish_each [] = Inr" "publish_each ((topic, payload) # ms) = (\<lambda>s. rbind (publish_message 0 topic payload s) (publish_each ms))"
  by (simp_all add: fun_eq_iff)

lemma publish_each_spec:
  assumes "\<forall>(topic, payload) \<in> set ms. length topic < 1000 \<and> length payload < 1000 \<and> zero_free topic \<and> zero_free payload
      \<and> (\<forall>x \<in> set (subs_at (sv_sol s) (sv_mem s) topic). live_sub (sv_mem s) x)"
    and "srv_ok s" "\<forall>fd. roomy 2009 (\<Sum>(topic, payload) \<leftarrow> ms. length (subs_at (sv_sol s) (sv_mem s) topic)) (sv_tx s fd)"
  shows "\<exists>s'. publish_each ms s = Inr s' \<and> sv_sol s' = sv_sol s \<and> sv_mem s' = sv_mem s
    \<and> sv_wire s' = (\<lambda>fd. sv_wire s fd @ concat (map (\<lambda>(topic, payload). inbox (sv_mem s) (\<lambda>q. wire_publish (set_hdr_qos q 0x30) topic 0 payload)
        (subs_at (sv_sol s) (sv_mem s) topic) fd) ms))
    \<and> messages_sent (sv_info s') = messages_sent (sv_info s) + int (\<Sum>(topic, payload) \<leftarrow> ms. length (subs_at (sv_sol s) (sv_mem s) topic))"
  using assms
proof (induction ms arbitrary: s)
  case (Cons a ms)
  obtain topic payload where m: "a = (topic, payload)" by force
  let ?subs = "subs_at (sv_sol s) (sv_mem s)"
  have r: "\<forall>fd. roomy 2009 ((\<Sum>(topic, payload) \<leftarrow> ms. length (?subs topic)) + length (?subs topic)) (sv_tx s fd)"
    using Cons.prems(3) m by (simp add: add.commute)
  have p: "length topic < 65536" "length payload < 65536" "zero_free topic" "zero_free payload" "length topic + length payload + 9 \<le> 2009"
    "\<forall>x \<in> set (?subs topic). live_sub (sv_mem s) x" using Cons.prems(1) m by auto
  from publish_message_spec [OF Cons.prems(2) p(1-5) refl p(6) r] obtain s1 where s1: "publish_message 0 topic payload s = Inr s1"
    "sv_sol s1 = sv_sol s" "sv_mem s1 = sv_mem s"
    "sv_wire s1 = (\<lambda>fd. sv_wire s fd @ inbox (sv_mem s) (\<lambda>q. wire_publish (set_hdr_qos q 0x30) topic 0 payload) (?subs topic) fd)"
    "messages_sent (sv_info s1) = messages_sent (sv_info s) + int (length (?subs topic))"
    "\<forall>fd. roomy 2009 (\<Sum>(topic, payload) \<leftarrow> ms. length (?subs topic)) (sv_tx s1 fd)" by blast
  from Cons.IH [of s1] Cons.prems(1,2) s1 m show ?case by auto
qed simp

text \<open>The topics and texts of the statistics.\<close>

definition stats_of :: "sol_info \<Rightarrow> int \<Rightarrow> u8 list \<Rightarrow> (u8 list \<times> u8 list) list" where
  "stats_of i now sutime = [(bytes ''$SOL/broker/uptime/'', dec_int (now - start_time i)), (bytes ''$SOL/broker/uptime/sol'', sutime),
     (bytes ''$SOL/broker/clients/connected/'', dec_int (nclients i)), (bytes ''$SOL/broker/bytes/sent/'', dec_int (bytes_sent i)),
     (bytes ''$SOL/broker/messages/sent/'', dec_int (messages_sent i)), (bytes ''$SOL/broker/messages/received/'', dec_int (messages_recv i))]"

definition int64 :: "int \<Rightarrow> bool" where
  "int64 n \<longleftrightarrow> - (2 ^ 63) \<le> n \<and> n < 2 ^ 63"

lemma publish_stats_each:
  assumes "int64 (nclients (sv_info s))" "int64 (bytes_sent (sv_info s))" "int64 (messages_sent (sv_info s))"
    and "int64 (messages_recv (sv_info s))" "int64 (now - start_time (sv_info s))" "length sutime < 16"
  shows "publish_stats now sutime s = publish_each (stats_of (sv_info s) now sutime) s"
proof -
  have "sys_topics ! 5 = bytes ''$SOL/broker/uptime/''" "sys_topics ! 6 = bytes ''$SOL/broker/uptime/sol''"
    "sys_topics ! 7 = bytes ''$SOL/broker/clients/connected/''" "sys_topics ! 9 = bytes ''$SOL/broker/bytes/sent/''"
    "sys_topics ! 11 = bytes ''$SOL/broker/messages/sent/''" "sys_topics ! 12 = bytes ''$SOL/broker/messages/received/''"
    by (simp_all add: sys_topics_def)
  then show ?thesis using assms
    by (simp add: publish_stats_def stats_of_def sprint_num_fits int64_def guard_def Let_def publish_each_fun del: publish_each.simps)
qed

text \<open>
  C40 (publish_stats_delivers): the periodic statistics never overrun the buffers they are printed into, for counters of 64 bits of either sign and an uptime text that fits, and the six messages reach the subscribers of the six
  topics in order, each with the QoS of the subscription, when the subscribed clients are there and their sockets have room.
\<close>

theorem publish_stats_delivers:
  assumes "srv_ok s" "int64 (nclients (sv_info s))" "int64 (bytes_sent (sv_info s))" "int64 (messages_sent (sv_info s))"
    and "int64 (messages_recv (sv_info s))" "int64 (now - start_time (sv_info s))" "length sutime < 16" "zero_free sutime"
    and "ms = stats_of (sv_info s) now sutime"
    and "\<forall>(topic, payload) \<in> set ms. \<forall>x \<in> set (subs_at (sv_sol s) (sv_mem s) topic). live_sub (sv_mem s) x"
    and "\<forall>fd. roomy 2009 (\<Sum>(topic, payload) \<leftarrow> ms. length (subs_at (sv_sol s) (sv_mem s) topic)) (sv_tx s fd)"
  shows "\<exists>s'. publish_stats now sutime s = Inr s' \<and> sv_sol s' = sv_sol s \<and> sv_mem s' = sv_mem s
    \<and> sv_wire s' = (\<lambda>fd. sv_wire s fd @ concat (map (\<lambda>(topic, payload). inbox (sv_mem s) (\<lambda>q. wire_publish (set_hdr_qos q 0x30) topic 0 payload)
        (subs_at (sv_sol s) (sv_mem s) topic) fd) ms))"
proof -
  have short: "length (dec_int n) < 1000" if "int64 n" for n
  proof -
    have "nat (abs n) \<le> 9223372036854775808" using that by (auto simp: int64_def)
    then have "length (dec_digits (nat (abs n))) \<le> 19" using dec_digits_mono long_digits by metis
    then show ?thesis by (auto simp: dec_int_def abs_if split: if_splits)
  qed
  have "\<forall>(topic, payload) \<in> set ms. length topic < 1000 \<and> length payload < 1000 \<and> zero_free topic \<and> zero_free payload"
    using assms(2-8) short by (simp add: assms(9) stats_of_def zero_free_dec_int) (simp add: bytes_def of_char_def)
  with assms(10) have "\<forall>(topic, payload) \<in> set ms. length topic < 1000 \<and> length payload < 1000 \<and> zero_free topic \<and> zero_free payload
      \<and> (\<forall>x \<in> set (subs_at (sv_sol s) (sv_mem s) topic). live_sub (sv_mem s) x)" by fastforce
  from publish_each_spec [OF this assms(1,11)] publish_stats_each [OF assms(2-7)] assms(9) show ?thesis by auto
qed

theorem publish_stats_delivers_witness:
  "\<exists>s'. publish_stats 60 (bytes ''0.0007'') (demo_at (bytes ''$SOL/broker/clients/connected/'')) = Inr s'
    \<and> sv_wire s' 7 = wire_publish 0x32 (bytes ''$SOL/broker/clients/connected/'') 0 (bytes ''1'') \<and> sv_wire s' 8 = []"
proof -
  let ?s = "demo_at (bytes ''$SOL/broker/clients/connected/'')"
  have i: "sv_info ?s = \<lparr>nclients = 1, nconnections = 1, start_time = 0, bytes_recv = 0, bytes_sent = 0, messages_sent = 0, messages_recv = 0\<rparr>"
    by (simp add: sample_srv_def)
  have live: "live_sub (sv_mem ?s) \<lparr>su_qos = 1, su_client = Some 5\<rparr>" "sub_fd (sv_mem ?s) \<lparr>su_qos = 1, su_client = Some 5\<rparr> = 7"
    by (simp_all add: live_sub_def sub_fd_def)
  have t: "bytes ''$SOL/broker/uptime/'' \<noteq> bytes ''$SOL/broker/clients/connected/''" "bytes ''$SOL/broker/uptime/sol'' \<noteq> bytes ''$SOL/broker/clients/connected/''"
    "bytes ''$SOL/broker/bytes/sent/'' \<noteq> bytes ''$SOL/broker/clients/connected/''" "bytes ''$SOL/broker/messages/sent/'' \<noteq> bytes ''$SOL/broker/clients/connected/''"
    "bytes ''$SOL/broker/messages/received/'' \<noteq> bytes ''$SOL/broker/clients/connected/''" by (simp_all add: bytes_def of_char_def)
  have z: "zero_free (bytes ''0.0007'')" "length (bytes ''0.0007'') < 16" "dec_int 1 = bytes ''1''" by (simp_all add: bytes_def of_char_def dec_int_def dec_digits.simps [of "Suc 0"])
  have q: "set_hdr_qos 1 0x30 = 0x32" by code_simp
  have "\<exists>s'. publish_stats 60 (bytes ''0.0007'') ?s = Inr s' \<and> sv_sol s' = sv_sol ?s \<and> sv_mem s' = sv_mem ?s
    \<and> sv_wire s' = (\<lambda>fd. sv_wire ?s fd @ concat (map (\<lambda>(topic, payload). inbox (sv_mem ?s) (\<lambda>q. wire_publish (set_hdr_qos q 0x30) topic 0 payload)
        (subs_at (sv_sol ?s) (sv_mem ?s) topic) fd) (stats_of (sv_info ?s) 60 (bytes ''0.0007''))))"
    by (rule publish_stats_delivers [OF demo_at_ok])
       (use live t z(1,2) in \<open>simp_all add: i int64_def stats_of_def roomy_def del: demo_at_simps(5)\<close>)
  then obtain s' where "publish_stats 60 (bytes ''0.0007'') ?s = Inr s'"
    "sv_wire s' = (\<lambda>fd. sv_wire ?s fd @ concat (map (\<lambda>(topic, payload). inbox (sv_mem ?s) (\<lambda>q. wire_publish (set_hdr_qos q 0x30) topic 0 payload)
        (subs_at (sv_sol ?s) (sv_mem ?s) topic) fd) (stats_of (sv_info ?s) 60 (bytes ''0.0007''))))" by blast
  then show ?thesis using t live(2) z(3) q by (intro exI [of _ s']) (simp add: i stats_of_def inbox_def del: demo_at_simps(5))
qed

end
