(* ===== verification/Broker_Spec.thy ===== *)
theory Broker_Spec
  imports Service
begin

text \<open>
  An abstract broker: a map from topics to subscriptions and the bytes sent on each socket. The handlers of SUBSCRIBE and PUBLISH implement it, for any number of requests of any connected clients in any order.
\<close>

section \<open>The abstract broker\<close>

record abroker =
  ab_subs :: "u8 list \<Rightarrow> subscriber list"
  ab_out :: "int \<Rightarrow> u8 list"

text \<open>A request, with the closure it arrives on: topic filters with their QoS, or a message.\<close>

datatype client_op =
    Subscribe_op nat "(u8 list \<times> u32) list" u8 u16
  | Publish_op nat u8 "u8 list" u16 "u8 list"

primrec op_closure :: "client_op \<Rightarrow> nat" where
  "op_closure (Subscribe_op cb fs h pid) = cb"
| "op_closure (Publish_op cb h topic pid payload) = cb"

text \<open>\<open>who\<close> is the client of a closure, \<open>fd_of\<close> the descriptor of a client.\<close>

primrec spec_op :: "(nat \<Rightarrow> nat) \<Rightarrow> (nat \<Rightarrow> int) \<Rightarrow> client_op \<Rightarrow> abroker \<Rightarrow> abroker" where
  "spec_op who fd_of (Subscribe_op cb fs h pid) b = b\<lparr>ab_subs := fold (add_sub (Some (who cb))) fs (ab_subs b)\<rparr>"
| "spec_op who fd_of (Publish_op cb h topic pid payload) b = b\<lparr>ab_out := (\<lambda>fd. ab_out b fd
     @ concat (map (\<lambda>x. if fd_of (the (su_client x)) = fd then wire_publish (set_hdr_qos (su_qos x) h) topic pid payload else []) (ab_subs b (slashed topic))))\<rparr>"

text \<open>How many packets the requests send, counting all sockets.\<close>

primrec op_copies :: "client_op \<Rightarrow> abroker \<Rightarrow> nat" where
  "op_copies (Subscribe_op cb fs h pid) b = 0"
| "op_copies (Publish_op cb h topic pid payload) b = length (ab_subs b (slashed topic))"

fun copies :: "(nat \<Rightarrow> nat) \<Rightarrow> (nat \<Rightarrow> int) \<Rightarrow> client_op list \<Rightarrow> abroker \<Rightarrow> nat" where
  "copies who fd_of [] b = 0"
| "copies who fd_of (x # xs) b = op_copies x b + copies who fd_of xs (spec_op who fd_of x b)"

section \<open>The handlers implement it\<close>

definition abs_broker :: "srv \<Rightarrow> abroker" where
  "abs_broker s = \<lparr>ab_subs = subs_at (sv_sol s) (sv_mem s), ab_out = sv_wire s\<rparr>"

primrec handle_op :: "client_op \<Rightarrow> srv \<Rightarrow> srv res" where
  "handle_op (Subscribe_op cb fs h pid) s = rbind (subscribe_handler cb (Pkt_subscribe (subscribe_of h pid fs)) s) (\<lambda>(rc, s). Inr s)"
| "handle_op (Publish_op cb h topic pid payload) s = rbind (publish_handler cb (Pkt_publish (publish_of h topic pid payload)) s) (\<lambda>(rc, s). Inr s)"

primrec op_ok :: "nat \<Rightarrow> client_op \<Rightarrow> bool" where
  "op_ok M (Subscribe_op cb fs h pid) \<longleftrightarrow> (\<forall>f \<in> set fs. plain_filter (fst f)) \<and> length fs \<le> 125"
| "op_ok M (Publish_op cb h topic pid payload) \<longleftrightarrow> filter_ok topic \<and> length payload < 65536 \<and> zero_free payload \<and> length topic + length payload + 9 \<le> M"

text \<open>The client behind a closure is connected.\<close>

definition on_line :: "(nat \<Rightarrow> nat) \<Rightarrow> srv \<Rightarrow> nat \<Rightarrow> bool" where
  "on_line who s cb \<longleftrightarrow> (\<exists>c. get_closure cb s = Inr c \<and> cb_obj c = Some (who cb)) \<and> om_clients (sv_mem s) (who cb) \<noteq> None"

definition ready :: "(nat \<Rightarrow> nat) \<Rightarrow> (nat \<Rightarrow> int) \<Rightarrow> nat \<Rightarrow> client_op list \<Rightarrow> srv \<Rightarrow> bool" where
  "ready who fd_of M ops s \<longleftrightarrow> srv_ok s \<and> (\<forall>x \<in> set ops. op_ok M x \<and> on_line who s (op_closure x))
     \<and> (\<forall>k. \<forall>x \<in> set (subs_at (sv_sol s) (sv_mem s) k). live_sub (sv_mem s) x)
     \<and> (\<forall>a cl. om_clients (sv_mem s) a = Some cl \<longrightarrow> sc_fd cl = fd_of a)
     \<and> (\<forall>fd. roomy M (copies who fd_of ops (abs_broker s)) (sv_tx s fd))"

lemma fold_add_sub: "x \<in> set (fold (add_sub obj) fs f k) \<Longrightarrow> x \<in> set (f k) \<or> su_client x = obj"
  by (induction fs arbitrary: f) (fastforce simp: add_sub_def split: if_splits)+

lemma on_line_step:
  assumes "on_line who s b" "om_clients (sv_mem s') = om_clients (sv_mem s)" "get_closure cb s = Inr c" "get_closure cb s' = Inr (c\<lparr>cb_payload := p\<rparr>)"
    and "\<forall>b. b \<noteq> cb \<longrightarrow> get_closure b s' = get_closure b s"
  shows "on_line who s' b"
  using assms by (cases "b = cb") (auto simp: on_line_def)

lemma subscribe_step:
  assumes "ready who fd_of M (Subscribe_op cb fs h pid # ops) s"
  shows "\<exists>s'. handle_op (Subscribe_op cb fs h pid) s = Inr s' \<and> abs_broker s' = spec_op who fd_of (Subscribe_op cb fs h pid) (abs_broker s)
    \<and> ready who fd_of M ops s'"
proof -
  let ?b = "spec_op who fd_of (Subscribe_op cb fs h pid) (abs_broker s)"
  from assms have r: "srv_ok s" "\<forall>f \<in> set fs. plain_filter (fst f)" "length fs \<le> 125" "on_line who s cb"
    "\<forall>x \<in> set ops. op_ok M x \<and> on_line who s (op_closure x)" "\<forall>k. \<forall>x \<in> set (subs_at (sv_sol s) (sv_mem s) k). live_sub (sv_mem s) x"
    "\<forall>a cl. om_clients (sv_mem s) a = Some cl \<longrightarrow> sc_fd cl = fd_of a" "\<forall>fd. roomy M (copies who fd_of ops ?b) (sv_tx s fd)"
    by (simp_all add: ready_def)
  from r(4) obtain c where c: "get_closure cb s = Inr c" "cb_obj c = Some (who cb)" "om_clients (sv_mem s) (who cb) \<noteq> None" by (auto simp: on_line_def)
  from subscribe_spec [OF r(1) c r(2,3), of h pid] obtain s' where s': "subscribe_handler cb (Pkt_subscribe (subscribe_of h pid fs)) s = Inr (1, s')"
    "subs_at (sv_sol s') (sv_mem s') = fold (add_sub (Some (who cb))) fs (subs_at (sv_sol s) (sv_mem s))"
    "get_closure cb s' = Inr (c\<lparr>cb_payload := Some (packed (wire_suback 0x90 pid (map (ucast \<circ> snd) fs)))\<rparr>)"
    "\<forall>b. b \<noteq> cb \<longrightarrow> get_closure b s' = get_closure b s"
    "om_clients (sv_mem s') = om_clients (sv_mem s)" "sv_wire s' = sv_wire s" "sv_tx s' = sv_tx s" "srv_ok s'" by blast
  have a: "abs_broker s' = ?b" using s'(2,6) by (simp add: abs_broker_def)
  have on: "\<forall>x \<in> set ops. op_ok M x \<and> on_line who s' (op_closure x)"
    using r(5) on_line_step [OF _ s'(5) c(1) s'(3,4)] by blast
  have live: "\<forall>k. \<forall>x \<in> set (subs_at (sv_sol s') (sv_mem s') k). live_sub (sv_mem s') x"
  proof (intro allI ballI)
    fix k x assume "x \<in> set (subs_at (sv_sol s') (sv_mem s') k)"
    then consider "x \<in> set (subs_at (sv_sol s) (sv_mem s) k)" | "su_client x = Some (who cb)" using fold_add_sub unfolding s'(2) by blast
    then show "live_sub (sv_mem s') x" using r(6) c(3) s'(5) by cases (auto simp: live_sub_def)
  qed
  have "ready who fd_of M ops s'" using s'(5,7,8) on live r(7,8) by (simp add: ready_def a)
  then show ?thesis using s'(1) a by simp
qed

lemma publish_step:
  assumes "ready who fd_of M (Publish_op cb h topic pid payload # ops) s"
  shows "\<exists>s'. handle_op (Publish_op cb h topic pid payload) s = Inr s' \<and> abs_broker s' = spec_op who fd_of (Publish_op cb h topic pid payload) (abs_broker s)
    \<and> ready who fd_of M ops s'"
proof -
  let ?b = "spec_op who fd_of (Publish_op cb h topic pid payload) (abs_broker s)"
  define xs where "xs = subs_at (sv_sol s) (sv_mem s) (slashed topic)"
  from assms have r: "srv_ok s" "topic \<noteq> []" "length topic < 65536" "length payload < 65536" "zero_free topic" "zero_free payload"
    "length topic + length payload + 9 \<le> M" "on_line who s cb"
    "\<forall>x \<in> set ops. op_ok M x \<and> on_line who s (op_closure x)" "\<forall>k. \<forall>x \<in> set (subs_at (sv_sol s) (sv_mem s) k). live_sub (sv_mem s) x"
    "\<forall>a cl. om_clients (sv_mem s) a = Some cl \<longrightarrow> sc_fd cl = fd_of a" "\<forall>fd. roomy M (copies who fd_of ops ?b + length xs) (sv_tx s fd)"
    by (simp_all add: ready_def filter_ok_def xs_def abs_broker_def add.commute)
  from r(8) obtain c cl where c: "get_closure cb s = Inr c" "get_client (cb_obj c) s = Inr cl" by (auto simp: on_line_def get_client_def)
  have live: "\<forall>x \<in> set xs. live_sub (sv_mem s) x \<and> roomy M (length xs) (sv_tx s (sub_fd (sv_mem s) x))"
    using r(10,12) by (auto simp: xs_def intro: roomy_less)
  from publish_spec [OF r(1) c r(2-6) xs_def r(7) live, of h pid] obtain s' rc where
    s': "publish_handler cb (Pkt_publish (publish_of h topic pid payload)) s = Inr (rc, s')"
    "sv_wire s' = (\<lambda>fd. sv_wire s fd @ inbox (sv_mem s) (\<lambda>q. wire_publish (set_hdr_qos q h) topic pid payload) xs fd)"
    "get_closure cb s' = Inr (c\<lparr>cb_payload := publish_reply h pid (cb_payload c)\<rparr>)"
    "subs_at (sv_sol s') (sv_mem s') = subs_at (sv_sol s) (sv_mem s)" "srv_ok s'" "om_clients (sv_mem s') = om_clients (sv_mem s)"
    "\<forall>b. b \<noteq> cb \<longrightarrow> get_closure b s' = get_closure b s" "\<forall>fd n. roomy M (n + length xs) (sv_tx s fd) \<longrightarrow> roomy M n (sv_tx s' fd)" by blast
  have "sub_fd (sv_mem s) x = fd_of (the (su_client x))" if "x \<in> set xs" for x
    using that live r(11) by (auto simp: live_sub_def sub_fd_def)
  then have "inbox (sv_mem s) msg xs fd = concat (map (\<lambda>x. if fd_of (the (su_client x)) = fd then msg (su_qos x) else []) xs)" for msg fd
    by (auto simp: inbox_def intro!: arg_cong [of _ _ concat])
  then have a: "abs_broker s' = ?b" using s'(2,4) by (simp add: abs_broker_def xs_def)
  have "live_sub (sv_mem s') = live_sub (sv_mem s)" using s'(6) by (simp add: fun_eq_iff live_sub_def)
  moreover have "\<forall>x \<in> set ops. op_ok M x \<and> on_line who s' (op_closure x)"
    using r(9) on_line_step [OF _ s'(6) c(1) s'(3,7)] by blast
  ultimately have "ready who fd_of M ops s'" using s'(4-6,8) r(10-12) by (simp add: ready_def a)
  then show ?thesis using s'(1) a by simp
qed

interpretation broker: simulation handle_op "spec_op who fd_of" abs_broker "ready who fd_of M" for who fd_of M
proof
  fix x xs s assume "ready who fd_of M (x # xs) s"
  then show "\<exists>s'. handle_op x s = Inr s' \<and> abs_broker s' = spec_op who fd_of x (abs_broker s) \<and> ready who fd_of M xs s'"
    using subscribe_step publish_step by (cases x) blast+
qed

text \<open>
  C3 (broker_refines): any sequence of SUBSCRIBE and PUBLISH requests, in any order, that is \<open>ready\<close>: each comes from a connected client; a SUBSCRIBE has at most 125 filters, each not empty, shorter than 65536 bytes, without zero bytes and
  ending neither in a slash nor in \<^verbatim>\<open>#\<close>; a PUBLISH, of any QoS, has a topic that is not empty, shorter than 65536 bytes and without zero bytes, with or without a trailing slash, and a payload shorter than 65536 bytes without zero bytes; every subscription
  there is names a connected client; and every socket has room for all packets the abstract broker sends. (Outside of these conditions the code does something else: \<open>subscribe_double_free\<close>, \<open>subscribe_wildcard\<close>,
  \<open>publish_zero_uninit\<close>, \<open>disconnect_leaves_subscriptions\<close>.) Then none of the requests fails, and afterwards the subscriptions of every topic and the bytes sent on every socket are those of the abstract broker: each message
  has gone once to each subscription its topic had at that moment, with the QoS of the subscription, the newest subscription first, in the order of the messages.
\<close>

theorem broker_refines:
  assumes "ready who fd_of M ops s"
  shows "\<exists>s'. run_ops handle_op ops s = Inr s' \<and> abs_broker s' = fold (spec_op who fd_of) ops (abs_broker s) \<and> srv_ok s'"
  using broker.run_simulates [OF assms] by (auto simp: ready_def)

text \<open>
  The client on descriptor 8 subscribes to the topic \<^verbatim>\<open>a\<close> with QoS 0 and the one on descriptor 7 publishes there; the latter has a subscription with QoS 1 of its own.
\<close>

theorem broker_refines_witness:
  "\<exists>s'. run_ops handle_op [Subscribe_op 3 [([97], 0)] 0x82 4, Publish_op 2 0x30 [97, 47] 0 [104]] demo_srv = Inr s'
    \<and> sv_wire s' 8 = [0x30, 5, 0, 2, 97, 47, 104] \<and> sv_wire s' 7 = [0x32, 7, 0, 2, 97, 47, 0, 0, 104]"
proof -
  let ?ops = "[Subscribe_op 3 [([97], 0)] 0x82 4, Publish_op 2 0x30 [97, 47] 0 [104]]"
  let ?who = "\<lambda>cb. cb + 3 :: nat" and ?fd = "\<lambda>a. int a + 2"
  have q: "set_hdr_qos 0 0x30 = 0x30" "set_hdr_qos 1 0x30 = 0x32" "hdr_qos 0x30 = 0" "hdr_qos 0x32 = 1" by code_simp+
  have w: "wire_publish 0x30 [97, 47] 0 [104] = [0x30, 5, 0, 2, 97, 47, 104]" "wire_publish 0x32 [97, 47] 0 [104] = [0x32, 7, 0, 2, 97, 47, 0, 0, 104]"
    by (simp_all add: wire_publish_def publish_body_def q be16_def encode_loop.simps)
  have subs: "subs_at (sv_sol demo_srv) (sv_mem demo_srv) k = (if k = [97, 47] then [\<lparr>su_qos = 1, su_client = Some 5\<rparr>] else [])" for k
    by (simp add: demo_srv_def)
  have cl: "om_clients (sv_mem demo_srv) a = Some cl \<Longrightarrow> sc_fd cl = ?fd a" for a cl
    by (auto simp: demo_srv_def demo_at_def demo_mem_def split: if_splits)
  have sl: "slashed [97] = [97, 47]" "slashed [97, 47] = [97, 47]" by (simp_all add: slashed_def)
  have "copies ?who ?fd ?ops (abs_broker demo_srv) = 2" by (simp add: abs_broker_def subs sl add_sub_def)
  then have "ready ?who ?fd 100 ?ops demo_srv" using demo_ok demo_room(1) [unfolded numeral_2_eq_2] cl
    by (auto simp: ready_def on_line_def subs live_sub_def plain_filter_def filter_ok_def)
  from broker_refines [OF this] obtain s' where s': "run_ops handle_op ?ops demo_srv = Inr s'"
    "abs_broker s' = fold (spec_op ?who ?fd) ?ops (abs_broker demo_srv)" by blast
  have "sv_wire s' = ab_out (abs_broker s')" by (simp add: abs_broker_def)
  then show ?thesis using s'(1) unfolding s'(2) by (intro exI [of _ s']) (simp add: abs_broker_def subs sl add_sub_def q w)
qed

end
