(* ===== verification/Session.thy ===== *)
theory Session
  imports Service
begin

text \<open>
  From the bytes of a packet to the bytes of the answers: a request buffer that holds a packet is unpacked and dispatched, the handler runs, and the event loop
  sends the reply when the socket is writable. The theory puts together the wire format, the dispatch tables, the handlers and the event loop.
\<close>

section \<open>A packet in the request buffer\<close>

text \<open>The buffer with a packet at its front and \<open>k\<close> bytes nobody has written behind it.\<close>

definition request :: "u8 list \<Rightarrow> nat \<Rightarrow> block" where
  "request bs k = map Some bs @ replicate k None"

lemma written_request [simp]: "written (request bs k) = bs"
  by (induction bs) (cases k; simp add: request_def written_def)+

definition counted :: "srv \<Rightarrow> srv" where
  "counted s = upd_info (\<lambda>i. i\<lparr>bytes_recv := bytes_recv i + 1\<rparr>) s"

lemma counted_rest [simp]:
  "sv_sol (counted s) = sv_sol s" "sv_mem (counted s) = sv_mem s" "sv_loop (counted s) = sv_loop s" "sv_tx (counted s) = sv_tx s"
  "sv_wire (counted s) = sv_wire s" "messages_sent (sv_info (counted s)) = messages_sent (sv_info s)"
  "messages_recv (sv_info (counted s)) = messages_recv (sv_info s)" "bytes_recv (sv_info (counted s)) = bytes_recv (sv_info s) + 1"
  "get_closure a (counted s) = get_closure a s" "get_client p (counted s) = get_client p s"
  by (simp_all add: counted_def upd_info_def get_closure_def get_client_def)

text \<open>The end of \<^verbatim>\<open>on_read\<close>, after the handler.\<close>

definition finish :: "nat \<Rightarrow> int \<times> srv \<Rightarrow> srv res" where
  "finish cb = (\<lambda>(rc, s).
     if rc = REARM_W then
       rbind (get_closure cb s) (\<lambda>c.
         Inr ((put_closure cb (c\<lparr>cb_call := On_write\<rparr>) s)\<lparr>sv_loop := snd (evloop_rearm_callback_write (sv_loop s) (cb_fd c) cb)\<rparr>))
     else Inr s)"

lemma finish_keep [simp]: "rc \<noteq> 1 \<Longrightarrow> finish cb (rc, s) = Inr s"
  by (simp add: finish_def)

lemma dispatch_request:
  "dispatch E cb (request bs k) command s =
     rbind (unpack_mqtt_packet bs) (\<lambda>(_, packet).
     rbind (call_table (handlers E) (unat (hdr_type command))) (\<lambda>h. rbind (h cb packet (counted s)) (finish cb)))"
  by (simp add: dispatch_def counted_def finish_def Let_def cong: if_cong)

lemma handlers_nth:
  "call_table (handlers E) 1 = Inr (connect_handler E)" "call_table (handlers E) 3 = Inr publish_handler"
  "call_table (handlers E) 4 = Inr (se_puback E)" "call_table (handlers E) 5 = Inr (se_pubrec E)"
  "call_table (handlers E) 6 = Inr (se_pubcomp E)" "call_table (handlers E) 7 = Inr subscribe_handler"
  "call_table (handlers E) 11 = Inr (se_pingreq E)"
  "call_table (handlers E) 13 = Inr disconnect_handler"
  "t \<in> {0, 2, 8, 10, 12, 14} \<Longrightarrow> call_table (handlers E) t = Inl Null_call"
  by (auto simp: call_table_def handlers_def)

lemma get_closure_loop [simp]: "get_closure a (s\<lparr>sv_loop := l\<rparr>) = get_closure a s"
  by (simp add: get_closure_def)

text \<open>A handler that leaves a reply in the closure: the descriptor is then armed for writing.\<close>

lemma finish_reply:
  assumes "get_closure cb s = Inr c" "el_epoll (sv_loop s) (cb_fd c) \<noteq> None"
  shows "\<exists>s'. finish cb (1, s) = Inr s' \<and> get_closure cb s' = Inr (c\<lparr>cb_call := On_write\<rparr>)
    \<and> sv_loop s' = (sv_loop s)\<lparr>el_epoll := (el_epoll (sv_loop s))(cb_fd c \<mapsto> (Want_out, U_ptr cb))\<rparr>
    \<and> sv_sol s' = sv_sol s \<and> sv_wire s' = sv_wire s \<and> sv_tx s' = sv_tx s \<and> sv_info s' = sv_info s
    \<and> om_clients (sv_mem s') = om_clients (sv_mem s) \<and> subs_at (sv_sol s') (sv_mem s') = subs_at (sv_sol s) (sv_mem s)
    \<and> (\<forall>b. b \<noteq> cb \<longrightarrow> get_closure b s' = get_closure b s) \<and> (srv_ok s \<longrightarrow> srv_ok s')"
proof -
  have "srv_ok s \<Longrightarrow> srv_ok (put_closure cb x s)" for x using assms(1) set_closure_ok [of "sv_sol s" "sv_mem s" cb x] by (simp add: put_closure_def get_closure_def)
  moreover have "snd (evloop_rearm_callback_write (sv_loop s) (cb_fd c) cb) =
      (sv_loop s)\<lparr>el_epoll := (el_epoll (sv_loop s))(cb_fd c \<mapsto> (Want_out, U_ptr cb))\<rparr>"
    using assms(2) by (auto simp: evloop_rearm_callback_write_def epoll_mod_def ep_data_def)
  ultimately show ?thesis using assms(1) by (simp add: finish_def)
qed

section \<open>A writable socket\<close>

text \<open>The event \<^verbatim>\<open>epoll_wait\<close> reports for a closure armed for writing.\<close>

definition out_event :: "nat \<Rightarrow> ep_event" where
  "out_event p = \<lparr>ev_err = False, ev_hup = False, ev_in = False, ev_out = True, ev_data = U_ptr p\<rparr>"

text \<open>The server has one periodic task; the low bits of the closure's address are not the number of its timer.\<close>

definition one_task :: "(nat \<Rightarrow> int) \<Rightarrow> nat \<Rightarrow> evloop \<Rightarrow> bool" where
  "one_task low p l \<longleftrightarrow> el_periodic_nr l = 1 \<and> (\<exists>t ts. el_tasks l = Some t # ts \<and> low p \<noteq> pt_timerfd t)"

lemma one_task_report [simp]: "one_task low p (sv_loop (srv_report evs s)) = one_task low p (sv_loop s)"
  by (simp add: one_task_def)

lemma one_task_epoll [simp]: "one_task low p (l\<lparr>el_epoll := ep\<rparr>) = one_task low p l"
  by (simp add: one_task_def)

lemma wait_eintr: "evloop_wait low report closefd call loop (replicate n Wait_eintr @ ws) evs s = evloop_wait low report closefd call loop ws evs s"
  by (induction n) auto

lemma write_event:
  assumes "get_closure cb s = Inr c" "cb_args c = cb" "cb_call c = On_write" "cb_payload c = Some (packed bs)" "bs \<noteq> []"
    and "roomy (length bs) 1 (sv_tx s (cb_fd c))" "one_task low cb (sv_loop s)" "el_epoll (sv_loop s) (cb_fd c) \<noteq> None"
  shows "\<exists>s'. evloop_wait low srv_report srv_close (call_closure E clock) sv_loop (replicate n Wait_eintr @ [Wait_events [out_event cb]]) (replicate 256 None) s = Inr (None, s')
    \<and> sv_wire s' = (sv_wire s)(cb_fd c := sv_wire s (cb_fd c) @ bs)
    \<and> get_closure cb s' = Inr (c\<lparr>cb_payload := None, cb_call := On_read\<rparr>)
    \<and> el_epoll (sv_loop s') (cb_fd c) = Some (Want_in, U_ptr cb)
    \<and> sv_sol s' = sv_sol s \<and> om_clients (sv_mem s') = om_clients (sv_mem s)
    \<and> sv_tx s' = (sv_tx s)(cb_fd c := tl (sv_tx s (cb_fd c))) \<and> subs_at (sv_sol s') (sv_mem s') = subs_at (sv_sol s) (sv_mem s)
    \<and> (\<forall>q. one_task low q (sv_loop s') = one_task low q (sv_loop s)) \<and> (srv_ok s \<longrightarrow> srv_ok s')"
proof -
  define r where "r = srv_report [out_event cb] s"
  have r: "get_closure cb r = Inr c" "roomy (length bs) 1 (sv_tx r (cb_fd c))" using assms(1,6) by (simp_all add: r_def)
  from on_write_spec [OF r(1) assms(4,5) r(2)] obtain s' where s': "on_write cb r = Inr s'"
    "sv_wire s' = (sv_wire s)(cb_fd c := sv_wire s (cb_fd c) @ bs)" "get_closure cb s' = Inr (c\<lparr>cb_payload := None, cb_call := On_read\<rparr>)"
    "sv_loop s' = snd (evloop_rearm_callback_read (sv_loop r) (cb_fd c) cb)" "sv_sol s' = sv_sol s" "om_clients (sv_mem s') = om_clients (sv_mem s)"
    "sv_tx s' = (sv_tx s)(cb_fd c := tl (sv_tx s (cb_fd c)))" "subs_at (sv_sol s') (sv_mem s') = subs_at (sv_sol s) (sv_mem s)"
    by (auto simp: r_def)
  have rest: "one_task low q (sv_loop s') = one_task low q (sv_loop s)" "srv_ok s \<longrightarrow> srv_ok s'" for q
    using s'(4) write_ok [of r cb s'] s'(1) by (simp_all add: r_def evloop_rearm_callback_read_def epoll_mod_def split: option.splits)
  have "find_periodic low (Some (out_event cb) # es) (el_tasks (sv_loop r)) 0 (el_periodic_nr (sv_loop r)) = Inr None" for es
    using assms(7) by (auto simp: r_def one_task_def udata_fd_def out_event_def)
  moreover have "call_closure E clock cb r = Inr s'" using r(1) assms(2,3) s'(1) by (simp add: call_closure_def)
  moreover have "ev_data (out_event cb) = U_ptr cb" "\<not> ev_broken (out_event cb)" by (simp_all add: ev_broken_def out_event_def)
  ultimately have "evloop_wait low srv_report srv_close (call_closure E clock) sv_loop (replicate n Wait_eintr @ [Wait_events [out_event cb]]) (replicate 256 None) s = Inr (None, s')"
    by (simp add: wait_eintr handle_event_def flip: r_def)
  moreover have "el_epoll (sv_loop r) (cb_fd c) \<noteq> None" using assms(8) by (auto simp: r_def epoll_report_def split: udata.splits)
  then have "el_epoll (sv_loop s') (cb_fd c) = Some (Want_in, U_ptr cb)"
    using s'(4) by (auto simp: evloop_rearm_callback_read_def epoll_mod_def ep_data_def)
  ultimately show ?thesis using s' rest by blast
qed

section \<open>Connecting\<close>

text \<open>\<open>a\<close> is the address of the new client.\<close>

lemma connect_run:
  assumes "srv_ok s" "get_closure cb s = Inr c" "cb_args c = cb" "el_epoll (sv_loop s) (cb_fd c) \<noteq> None" "one_task low cb (sv_loop s)"
    and "hdr_type h = 1" "length proto = 7" "length (connect_body proto flags ka cid wt wm un pw) < 128"
    and "length wt < 65536" "length wm < 65536" "length un < 65536" "length pw < 65536" "cid \<noteq> []" "zero_free cid"
    and "ht_store_ok L (sol_clients (sv_sol s))" "plain_key L cid" "hashtable_get (sol_clients (sv_sol s)) cid = None"
    and "ht_put (se_can E) (se_fuel E) (sol_clients (sv_sol s)) cid (om_next (sv_mem s)) = Some t" "roomy 4 1 (sv_tx s (cb_fd c))"
    and "a = om_next (sv_mem s)"
  shows "\<exists>s1 s2. dispatch E cb (request (wire_packet h (connect_body proto flags ka cid wt wm un pw)) k) h s = Inr s1
    \<and> sv_wire s1 = sv_wire s \<and> el_epoll (sv_loop s1) (cb_fd c) = Some (Want_out, U_ptr cb)
    \<and> evloop_wait low srv_report srv_close (call_closure E clock) sv_loop (replicate n Wait_eintr @ [Wait_events [out_event cb]]) (replicate 256 None) s1 = Inr (None, s2)
    \<and> sv_wire s2 = (sv_wire s)(cb_fd c := sv_wire s (cb_fd c) @ [0x20, 2, 0, 0])
    \<and> (\<forall>key. plain_key L key \<longrightarrow> hashtable_get (sol_clients (sv_sol s2)) key = (if key = cid then Some a else hashtable_get (sol_clients (sv_sol s)) key))
    \<and> get_client (Some a) s2 = Inr \<lparr>sc_client_id = cid, sc_fd = cb_fd c, sc_subscriptions = (if con_clean_session flags then None else Some [])\<rparr>
    \<and> get_closure cb s2 = Inr (c\<lparr>cb_obj := Some a, cb_payload := None, cb_call := On_read\<rparr>)
    \<and> el_epoll (sv_loop s2) (cb_fd c) = Some (Want_in, U_ptr cb)
    \<and> srv_ok s2 \<and> subs_at (sv_sol s2) (sv_mem s2) = subs_at (sv_sol s) (sv_mem s) \<and> sv_tx s2 = (sv_tx s)(cb_fd c := tl (sv_tx s (cb_fd c)))
    \<and> (\<forall>b. b \<noteq> a \<longrightarrow> om_clients (sv_mem s2) b = om_clients (sv_mem s) b) \<and> (\<forall>q. one_task low q (sv_loop s2) = one_task low q (sv_loop s))"
proof -
  let ?p = "connect_of h flags ka cid wt wm un pw" and ?ack = "[0x20, 2, 0, 0] :: u8 list"
  have p: "con_client_id ?p = Some (cstr cid)" "con_byte ?p = flags" using assms(13) by (simp_all add: connect_of_def opt_ptr_def)
  have u: "\<exists>rc. unpack_mqtt_packet (wire_packet h (connect_body proto flags ka cid wt wm un pw)) = Inr (rc, Pkt_connect ?p)"
    using connect_unpack [OF assms(6-12), of "[]"] by simp
  from connect_spec [of "counted s" cb c ?p cid L E t a] assms p obtain s0 where s0: "connect_handler E cb (Pkt_connect ?p) (counted s) = Inr (1, s0)"
    "get_closure cb s0 = Inr (c\<lparr>cb_obj := Some a, cb_payload := Some (packed ?ack)\<rparr>)"
    "get_client (Some a) s0 = Inr \<lparr>sc_client_id = cid, sc_fd = cb_fd c, sc_subscriptions = (if con_clean_session flags then None else Some [])\<rparr>"
    "\<forall>k. plain_key L k \<longrightarrow> hashtable_get (sol_clients (sv_sol s0)) k = (if k = cid then Some a else hashtable_get (sol_clients (sv_sol s)) k)"
    "sv_wire s0 = sv_wire s" "sv_tx s0 = sv_tx s" "sv_loop s0 = sv_loop s"
    "srv_ok s0" "subs_at (sv_sol s0) (sv_mem s0) = subs_at (sv_sol s) (sv_mem s)" "\<forall>b. b \<noteq> a \<longrightarrow> om_clients (sv_mem s0) b = om_clients (sv_mem s) b" by auto
  from finish_reply [OF s0(2)] assms(4) s0(7) obtain s1 where s1: "finish cb (1, s0) = Inr s1"
    "get_closure cb s1 = Inr (c\<lparr>cb_obj := Some a, cb_payload := Some (packed ?ack), cb_call := On_write\<rparr>)"
    "sv_loop s1 = (sv_loop s)\<lparr>el_epoll := (el_epoll (sv_loop s))(cb_fd c \<mapsto> (Want_out, U_ptr cb))\<rparr>"
    "sv_sol s1 = sv_sol s0" "sv_wire s1 = sv_wire s" "sv_tx s1 = sv_tx s" "om_clients (sv_mem s1) = om_clients (sv_mem s0)"
    "srv_ok s1" "subs_at (sv_sol s1) (sv_mem s1) = subs_at (sv_sol s) (sv_mem s)"
    using s0(5,6,8,9) by auto
  have d: "dispatch E cb (request (wire_packet h (connect_body proto flags ka cid wt wm un pw)) k) h s = Inr s1"
    using u s0(1) s1(1) assms(6) handlers_nth(1) [of E] by (auto simp: dispatch_request)
  have room: "roomy (length ?ack) 1 (sv_tx s1 (cb_fd c))" using assms(19) s1(6) by (simp add: numeral_eq_Suc)
  from write_event [OF s1(2), of ?ack low E clock n] assms(3,5) room s1(3) obtain s2 where s2:
    "evloop_wait low srv_report srv_close (call_closure E clock) sv_loop (replicate n Wait_eintr @ [Wait_events [out_event cb]]) (replicate 256 None) s1 = Inr (None, s2)"
    "sv_wire s2 = (sv_wire s1)(cb_fd c := sv_wire s1 (cb_fd c) @ ?ack)" "get_closure cb s2 = Inr (c\<lparr>cb_obj := Some a, cb_payload := None, cb_call := On_read\<rparr>)"
    "el_epoll (sv_loop s2) (cb_fd c) = Some (Want_in, U_ptr cb)" "sv_sol s2 = sv_sol s1" "om_clients (sv_mem s2) = om_clients (sv_mem s1)"
    "sv_tx s2 = (sv_tx s1)(cb_fd c := tl (sv_tx s1 (cb_fd c)))" "subs_at (sv_sol s2) (sv_mem s2) = subs_at (sv_sol s1) (sv_mem s1)"
    "\<forall>q. one_task low q (sv_loop s2) = one_task low q (sv_loop s1)" "srv_ok s2" using s1(8) by auto
  have "get_client (Some a) s2 = get_client (Some a) s0" using s2(6) s1(7) by (simp add: get_client_def)
  then show ?thesis using d s2 s1 s0 by (intro exI [of _ s1] exI [of _ s2]) simp
qed

text \<open>
  C11 (connect_session): a CONNECT whose body is shorter than 128 bytes, so that its length field has one byte, with a client identifier that is not registered, not empty and without zero bytes, put by hand into the request buffer of an accepted connection. (For longer
  bodies the code, which assumes one byte, reads the fields from the wrong place.) Dispatching it registers the client under its identifier, keeps the other registrations,
  gives the closure its client and arms the descriptor for writing. As soon as the event loop reports the descriptor as writable, after any number of interrupted waits, exactly the CONNACK that accepts the
  connection is on the socket, and the closure waits for the next packet with its descriptor armed for reading. This is for identifiers of one length in lower case, a table that can grow and then has at most \<open>2^31\<close> slots, and a socket with room for four bytes.
\<close>

theorem connect_session:
  assumes "srv_ok s" "get_closure cb s = Inr c" "cb_args c = cb" "el_epoll (sv_loop s) (cb_fd c) \<noteq> None" "one_task low cb (sv_loop s)"
    and "hdr_type h = 1" "length proto = 7" "length (connect_body proto flags ka cid wt wm un pw) < 128"
    and "length wt < 65536" "length wm < 65536" "length un < 65536" "length pw < 65536" "cid \<noteq> []" "zero_free cid"
    and "ht_store_ok L (sol_clients (sv_sol s))" "plain_key L cid" "hashtable_get (sol_clients (sv_sol s)) cid = None"
    and "ht_put (se_can E) (se_fuel E) (sol_clients (sv_sol s)) cid (om_next (sv_mem s)) = Some t" "roomy 4 1 (sv_tx s (cb_fd c))"
  shows "\<exists>s1 s2 a. dispatch E cb (request (wire_packet h (connect_body proto flags ka cid wt wm un pw)) k) h s = Inr s1
    \<and> sv_wire s1 = sv_wire s \<and> el_epoll (sv_loop s1) (cb_fd c) = Some (Want_out, U_ptr cb)
    \<and> evloop_wait low srv_report srv_close (call_closure E clock) sv_loop (replicate n Wait_eintr @ [Wait_events [out_event cb]]) (replicate 256 None) s1 = Inr (None, s2)
    \<and> sv_wire s2 = (sv_wire s)(cb_fd c := sv_wire s (cb_fd c) @ [0x20, 2, 0, 0])
    \<and> (\<forall>key. plain_key L key \<longrightarrow> hashtable_get (sol_clients (sv_sol s2)) key = (if key = cid then Some a else hashtable_get (sol_clients (sv_sol s)) key))
    \<and> get_client (Some a) s2 = Inr \<lparr>sc_client_id = cid, sc_fd = cb_fd c, sc_subscriptions = (if con_clean_session flags then None else Some [])\<rparr>
    \<and> get_closure cb s2 = Inr (c\<lparr>cb_obj := Some a, cb_payload := None, cb_call := On_read\<rparr>)
    \<and> el_epoll (sv_loop s2) (cb_fd c) = Some (Want_in, U_ptr cb)"
  using connect_run [OF assms refl, where k = k and n = n and clock = clock] by blast

text \<open>For the witnesses: the descriptor 8 of closure 3 is registered, and there is one periodic task on the timer 4.\<close>

definition armed :: "srv \<Rightarrow> srv" where
  "armed s = s\<lparr>sv_loop := (sv_loop s)\<lparr>el_epoll := [8 \<mapsto> (Want_in, U_ptr 3)], el_periodic_nr := 1,
     el_tasks := [Some \<lparr>pt_timerfd = 4, pt_closure = 1\<rparr>, None, None, None]\<rparr>\<rparr>"

lemma armed_simps [simp]: "sv_sol (armed s) = sv_sol s" "sv_mem (armed s) = sv_mem s" "sv_tx (armed s) = sv_tx s" "sv_wire (armed s) = sv_wire s"
  "get_closure b (armed s) = get_closure b s" "el_epoll (sv_loop (armed s)) = [8 \<mapsto> (Want_in, U_ptr 3)]" "one_task (\<lambda>_. 77) p (sv_loop (armed s))"
  "get_client q (armed s) = get_client q s" "sv_info (armed s) = sv_info s"
  by (simp_all add: armed_def one_task_def get_client_def)

lemma demo_closure_args [simp]: "cb_args (demo_closure a fd obj) = a"
  by (simp add: demo_closure_def)

theorem connect_session_witness:
  "\<exists>s1 s2 a. dispatch sample_env 3 (request ([0x10, 13] @ [0, 4, 77, 81, 84, 84, 4] @ [2, 0, 60, 0, 1, 100]) 5) 0x10 (armed demo_srv) = Inr s1
    \<and> evloop_wait (\<lambda>_. 77) srv_report srv_close (call_closure sample_env (0, [])) sv_loop [Wait_eintr, Wait_events [out_event 3]] (replicate 256 None) s1 = Inr (None, s2)
    \<and> sv_wire s2 8 = [0x20, 2, 0, 0] \<and> hashtable_get (sol_clients (sv_sol s2)) [100] = Some a"
proof -
  let ?s = "armed demo_srv" and ?proto = "[0, 4, 77, 81, 84, 84, 4] :: u8 list"
  have b: "connect_body ?proto 2 60 [100] [] [] [] [] = ?proto @ [2, 0, 60, 0, 1, 100]" by code_simp
  have w: "wire_packet 0x10 (connect_body ?proto 2 60 [100] [] [] [] []) = [0x10, 13] @ ?proto @ [2, 0, 60, 0, 1, 100]"
    unfolding b by (simp add: wire_packet_def)
  obtain t where t: "ht_put (se_can sample_env) (se_fuel sample_env) (sol_clients (sv_sol ?s)) [100] (om_next (sv_mem ?s)) = Some t"
    by (simp add: ht_put_def demo_table_def put_now [OF hash_d] sample_env_def del: hashtable_put.simps)
  have room: "roomy 4 1 (sv_tx ?s (cb_fd (demo_closure 3 8 6)))" by (auto simp: roomy_def)
  have ok: "srv_ok ?s" "get_closure 3 ?s = Inr (demo_closure 3 8 6)" "ht_store_ok 1 (sol_clients (sv_sol ?s))"
    "hashtable_get (sol_clients (sv_sol ?s)) [100] = None" using demo_ok demo_table_ok by simp_all
  from connect_session [OF ok(1,2) _ _ _ _ _ _ _ _ _ _ _ _ ok(3) demo_table_ok(2) ok(4) t room, of "\<lambda>_. 77" "0x10" ?proto 2 60 "[]" "[]" "[]" "[]" 5 "(0, [])" 1]
    demo_table_ok(2) show ?thesis unfolding w by (fastforce simp: b hdr_type_def)
qed

section \<open>Publishing\<close>

lemma roomy_mono: "roomy M n q \<Longrightarrow> K \<le> M \<Longrightarrow> roomy K n q"
  by (fastforce simp: roomy_def)

text \<open>The acknowledgement of a message, if its QoS asks for one.\<close>

definition publish_ack :: "mqtt_header \<Rightarrow> u16 \<Rightarrow> u8 list" where
  "publish_ack h pid = (if hdr_qos h = 1 then 0x40 # 2 # be16 pid else if hdr_qos h = 2 then 0x50 # 2 # be16 pid else [])"

lemma publish_reply_ack:
  "publish_reply h pid old = (if hdr_qos h = 1 \<or> hdr_qos h = 2 then Some (packed (publish_ack h pid)) else old)"
  "hdr_qos h = 1 \<or> hdr_qos h = 2 \<Longrightarrow> length (publish_ack h pid) = 4"
  by (auto simp: publish_reply_def publish_ack_def be16_def)

text \<open>No message changes the table of clients.\<close>

lemma reply_sol: "reply cb pkt type s = Inr (rc, s') \<Longrightarrow> sv_sol s' = sv_sol s"
  by (auto simp: reply_def set_payload_def put_closure_def)

lemma publish_clients:
  assumes "publish_handler cb pkt s = Inr (rc, s')"
  shows "sol_clients (sv_sol s') = sol_clients (sv_sol s)"
proof -
  from assms obtain q name t s1 p2 s2 and tp :: topic where p: "topic_for name (upd_info (\<lambda>i. i\<lparr>messages_recv := messages_recv i + 1\<rparr>) s) = Inr (t, s1)"
    "publish_to (tp_subs tp) q s1 = Inr (p2, s2)"
    and r: "(if hdr_qos (pub_header q) = 1 then reply cb (Pkt_ack (mqtt_packet_ack 0x40 (pub_pkt_id p2))) PUBACK s2
       else if hdr_qos (pub_header q) = 2 then reply cb (Pkt_ack (mqtt_packet_ack 0x50 (pub_pkt_id p2))) PUBREC s2
       else Inr (0, s2)) = Inr (rc, s')"
    by (cases pkt) (auto simp: publish_handler_def Let_def)
  have "sol_clients (sv_sol s1) = sol_clients (sv_sol s)"
    using p(1) by (auto simp: topic_for_def sol_topic_put_def deref_def split: option.splits prod.splits)
  moreover have "sv_sol s' = sv_sol s2" using r reply_sol by (auto split: if_splits)
  ultimately show ?thesis using publish_to_same [OF p(2)] by simp
qed

lemma publish_run:
  assumes "srv_ok s" "get_closure cb s = Inr c" "get_client (cb_obj c) s = Inr cl" "cb_args c = cb"
    and "el_epoll (sv_loop s) (cb_fd c) \<noteq> None" "one_task low cb (sv_loop s)"
    and "hdr_type h = 3" "hdr_qos h = 0 \<Longrightarrow> pid = 0" "topic \<noteq> []" "length topic < 65536" "length payload < 65536" "zero_free topic" "zero_free payload"
    and "xs = subs_at (sv_sol s) (sv_mem s) (slashed topic)" "length topic + length payload + 9 \<le> M"
    and "\<forall>x \<in> set xs. live_sub (sv_mem s) x \<and> roomy M (length xs) (sv_tx s (sub_fd (sv_mem s) x))"
    and "roomy M (1 + length xs) (sv_tx s (cb_fd c))"
  shows "\<exists>s1. dispatch E cb (request (wire_publish h topic pid payload) k) h s = Inr s1
    \<and> sv_wire s1 = (\<lambda>fd. sv_wire s fd @ inbox (sv_mem s) (\<lambda>q. wire_publish (set_hdr_qos q h) topic pid payload) xs fd)
    \<and> subs_at (sv_sol s1) (sv_mem s1) = subs_at (sv_sol s) (sv_mem s) \<and> sol_clients (sv_sol s1) = sol_clients (sv_sol s)
    \<and> (if hdr_qos h = 1 \<or> hdr_qos h = 2 then
         el_epoll (sv_loop s1) (cb_fd c) = Some (Want_out, U_ptr cb) \<and>
         (\<exists>s2. evloop_wait low srv_report srv_close (call_closure E clock) sv_loop (replicate n Wait_eintr @ [Wait_events [out_event cb]]) (replicate 256 None) s1 = Inr (None, s2)
          \<and> sv_wire s2 = (sv_wire s1)(cb_fd c := sv_wire s1 (cb_fd c) @ (if hdr_qos h = 1 then 0x40 else 0x50) # 2 # be16 pid)
          \<and> get_closure cb s2 = Inr (c\<lparr>cb_payload := None, cb_call := On_read\<rparr>)
          \<and> el_epoll (sv_loop s2) (cb_fd c) = Some (Want_in, U_ptr cb) \<and> sol_clients (sv_sol s2) = sol_clients (sv_sol s))
       else sv_loop s1 = sv_loop s \<and> get_closure cb s1 = Inr c)"
proof -
  have body: "length (publish_body h topic pid payload) < 0x10000000" using assms(10,11) by (simp add: length_publish_body)
  have u: "\<exists>rc. unpack_mqtt_packet (wire_publish h topic pid payload) = Inr (rc, Pkt_publish (publish_of h topic pid payload))"
    using publish_unpack [OF assms(7,10) body assms(8), of "[]"] assms(11) by simp
  from publish_spec [of "counted s" cb c cl topic payload xs M h pid] assms obtain s0 where s0:
    "publish_handler cb (Pkt_publish (publish_of h topic pid payload)) (counted s) = Inr (if hdr_qos h = 1 \<or> hdr_qos h = 2 then 1 else 0, s0)"
    "sv_wire s0 = (\<lambda>fd. sv_wire s fd @ inbox (sv_mem s) (\<lambda>q. wire_publish (set_hdr_qos q h) topic pid payload) xs fd)"
    "get_closure cb s0 = Inr (c\<lparr>cb_payload := publish_reply h pid (cb_payload c)\<rparr>)"
    "subs_at (sv_sol s0) (sv_mem s0) = subs_at (sv_sol s) (sv_mem s)" "sv_loop s0 = sv_loop s"
    "roomy M 1 (sv_tx s0 (cb_fd c))" by auto
  have cl: "sol_clients (sv_sol s0) = sol_clients (sv_sol s)" using publish_clients [OF s0(1)] by simp
  have d: "dispatch E cb (request (wire_publish h topic pid payload) k) h s = finish cb (if hdr_qos h = 1 \<or> hdr_qos h = 2 then 1 else 0, s0)"
    using u s0(1) assms(7) handlers_nth(2) [of E] by (auto simp: dispatch_request)
  show ?thesis
  proof (cases "hdr_qos h = 1 \<or> hdr_qos h = 2")
    case False
    then show ?thesis using d s0 cl by (intro exI [of _ s0]) (auto simp: publish_reply_ack)
  next
    case True
    let ?ack = "publish_ack h pid"
    have len: "length ?ack = 4" by (rule publish_reply_ack(2) [OF True])
    from finish_reply [OF s0(3)] assms(5) s0(5) True obtain s1 where s1: "finish cb (1, s0) = Inr s1"
      "get_closure cb s1 = Inr (c\<lparr>cb_payload := Some (packed ?ack), cb_call := On_write\<rparr>)"
      "sv_loop s1 = (sv_loop s)\<lparr>el_epoll := (el_epoll (sv_loop s))(cb_fd c \<mapsto> (Want_out, U_ptr cb))\<rparr>"
      "sv_wire s1 = sv_wire s0" "sv_tx s1 = sv_tx s0" "subs_at (sv_sol s1) (sv_mem s1) = subs_at (sv_sol s) (sv_mem s)" "sv_sol s1 = sv_sol s0"
      using s0(4) by (auto simp: publish_reply_ack(1))
    have room: "roomy (length ?ack) 1 (sv_tx s1 (cb_fd c))" using roomy_mono [OF s0(6)] assms(15) s1(5) len by simp
    have "?ack \<noteq> []" using len by auto
    from write_event [OF s1(2) _ _ _ this, of low E clock n] assms(4,6) room s1(3) obtain s2 where s2:
      "evloop_wait low srv_report srv_close (call_closure E clock) sv_loop (replicate n Wait_eintr @ [Wait_events [out_event cb]]) (replicate 256 None) s1 = Inr (None, s2)"
      "sv_wire s2 = (sv_wire s1)(cb_fd c := sv_wire s1 (cb_fd c) @ ?ack)" "get_closure cb s2 = Inr (c\<lparr>cb_payload := None, cb_call := On_read\<rparr>)"
      "el_epoll (sv_loop s2) (cb_fd c) = Some (Want_in, U_ptr cb)" "sv_sol s2 = sv_sol s1" by auto
    have "?ack = (if hdr_qos h = 1 then 0x40 else 0x50) # 2 # be16 pid" using True by (auto simp: publish_ack_def)
    with True d s1 s2 s0(2) cl show ?thesis by (intro exI [of _ s1]) auto
  qed
qed

text \<open>
  C8 (publish_session): the bytes of a PUBLISH in the request buffer of a connected client, and the bytes that go out for it. The buffer is filled by hand: by \<open>on_read_real_packet\<close> no real packet passes the reception. The
  conditions: the topic is not empty, neither topic nor payload has a zero byte and both are shorter than 65536 bytes, every subscription of the topic names a client that is connected, and the sockets of the subscribers and of the publisher have room for
  the copies and the acknowledgement. (\<open>disconnect_leaves_subscriptions\<close> and \<open>publish_zero_uninit\<close> show what happens to a dead subscription and to a zero byte.) Dispatching the packet puts one copy of the message, with its QoS bits replaced by the subscription's, on the
  socket of every subscription of the topic, in the order of the subscriptions, and nothing else. With QoS 1 or 2 the descriptor is then armed for writing, and when the event loop reports it as writable, after any number of
  interrupted waits, exactly the PUBACK or PUBREC with the identifier of the message follows on the publisher's socket, which is armed for reading again. The registered clients and the subscriptions do not change. With any other QoS the closure and all registrations stay as they were: the
  one-shot registration that the reading event used up is not renewed.
\<close>

theorem publish_session:
  assumes "srv_ok s" "get_closure cb s = Inr c" "get_client (cb_obj c) s = Inr cl" "cb_args c = cb"
    and "el_epoll (sv_loop s) (cb_fd c) \<noteq> None" "one_task low cb (sv_loop s)"
    and "hdr_type h = 3" "hdr_qos h = 0 \<Longrightarrow> pid = 0" "topic \<noteq> []" "length topic < 65536" "length payload < 65536" "zero_free topic" "zero_free payload"
    and "xs = subs_at (sv_sol s) (sv_mem s) (slashed topic)" "length topic + length payload + 9 \<le> M"
    and "\<forall>x \<in> set xs. live_sub (sv_mem s) x \<and> roomy M (length xs) (sv_tx s (sub_fd (sv_mem s) x))"
    and "roomy M (1 + length xs) (sv_tx s (cb_fd c))"
  shows "\<exists>s1. dispatch E cb (request (wire_publish h topic pid payload) k) h s = Inr s1
    \<and> sv_wire s1 = (\<lambda>fd. sv_wire s fd @ inbox (sv_mem s) (\<lambda>q. wire_publish (set_hdr_qos q h) topic pid payload) xs fd)
    \<and> subs_at (sv_sol s1) (sv_mem s1) = subs_at (sv_sol s) (sv_mem s) \<and> sol_clients (sv_sol s1) = sol_clients (sv_sol s)
    \<and> (if hdr_qos h = 1 \<or> hdr_qos h = 2 then
         el_epoll (sv_loop s1) (cb_fd c) = Some (Want_out, U_ptr cb) \<and>
         (\<exists>s2. evloop_wait low srv_report srv_close (call_closure E clock) sv_loop (replicate n Wait_eintr @ [Wait_events [out_event cb]]) (replicate 256 None) s1 = Inr (None, s2)
          \<and> sv_wire s2 = (sv_wire s1)(cb_fd c := sv_wire s1 (cb_fd c) @ (if hdr_qos h = 1 then 0x40 else 0x50) # 2 # be16 pid)
          \<and> get_closure cb s2 = Inr (c\<lparr>cb_payload := None, cb_call := On_read\<rparr>)
          \<and> el_epoll (sv_loop s2) (cb_fd c) = Some (Want_in, U_ptr cb) \<and> sol_clients (sv_sol s2) = sol_clients (sv_sol s))
       else sv_loop s1 = sv_loop s \<and> get_closure cb s1 = Inr c)"
  by (rule publish_run [OF assms])

theorem publish_session_witness:
  "\<exists>s1 s2. dispatch sample_env 3 (request [0x32, 7, 0, 1, 97, 0, 9, 104, 105] 5) 0x32 (armed demo_srv) = Inr s1
    \<and> sv_wire s1 7 = [0x32, 7, 0, 1, 97, 0, 9, 104, 105] \<and> sv_wire s1 8 = []
    \<and> evloop_wait (\<lambda>_. 77) srv_report srv_close (call_closure sample_env (0, [])) sv_loop [Wait_eintr, Wait_events [out_event 3]] (replicate 256 None) s1 = Inr (None, s2)
    \<and> sv_wire s2 8 = [0x40, 2, 0, 9]"
proof -
  let ?s = "armed demo_srv"
  have q: "hdr_qos 0x32 = 1" "set_hdr_qos 1 0x32 = 0x32" "hdr_type 0x32 = 3" by code_simp+
  have w: "wire_publish 0x32 [97] 9 [104, 105] = [0x32, 7, 0, 1, 97, 0, 9, 104, 105]"
    by (simp add: wire_publish_def publish_body_def q be16_def encode_loop.simps)
  have sl: "slashed [97] = [97, 47]" by (simp add: slashed_def)
  have ok: "srv_ok ?s" "get_closure 3 ?s = Inr (demo_closure 3 8 6)"
    "get_client (cb_obj (demo_closure 3 8 6)) ?s = Inr \<lparr>sc_client_id = [100], sc_fd = 8, sc_subscriptions = None\<rparr>"
    using demo_ok by (simp_all add: get_client_def)
  let ?x = "\<lparr>su_qos = 1, su_client = Some 5\<rparr>"
  have x: "[?x] = subs_at (sv_sol ?s) (sv_mem ?s) (slashed [97])" by (simp add: sl)
  have l: "\<forall>x \<in> set [?x]. live_sub (sv_mem ?s) x \<and> roomy 100 (length [?x]) (sv_tx ?s (sub_fd (sv_mem ?s) x))"
    using demo_live(1) [of 1] demo_room(2) by simp
  have r: "roomy 100 (1 + length [?x]) (sv_tx ?s (cb_fd (demo_closure 3 8 6)))" using demo_room(1) by (simp add: numeral_2_eq_2)
  from publish_session [OF ok _ _ _ q(3) _ _ _ _ _ _ x _ l r, where low = "\<lambda>_. 77" and pid = 9 and payload = "[104, 105]"
      and E = sample_env and k = 5 and clock = "(0, [])" and n = 1] obtain s1 s2 where
    "dispatch sample_env 3 (request (wire_publish 0x32 [97] 9 [104, 105]) 5) 0x32 ?s = Inr s1"
    "sv_wire s1 = (\<lambda>fd. sv_wire ?s fd @ inbox (sv_mem ?s) (\<lambda>q. wire_publish (set_hdr_qos q 0x32) [97] 9 [104, 105]) [?x] fd)"
    "evloop_wait (\<lambda>_. 77) srv_report srv_close (call_closure sample_env (0, [])) sv_loop (replicate 1 Wait_eintr @ [Wait_events [out_event 3]]) (replicate 256 None) s1 = Inr (None, s2)"
    "sv_wire s2 = (sv_wire s1)(8 := sv_wire s1 8 @ [0x40, 2, 0, 9])"
    by (simp add: q be16_def del: evloop_wait.simps) (elim exE conjE, simp del: evloop_wait.simps)
  then show ?thesis
    by (intro exI [of _ s1] exI [of _ s2]) (simp add: w q inbox_def sub_fd_def del: evloop_wait.simps)
qed

section \<open>The two dispatch tables\<close>

lemma unpack_ack_packet: "unpack_mqtt_ack buf h = Inr (rc, pkt) \<Longrightarrow> \<exists>a. pkt = Pkt_ack a"
  by (auto simp: unpack_mqtt_ack_def split: prod.splits)

text \<open>
  C17 (dispatch_types): what happens to a packet of each of the 16 types after it was received, whatever its bytes are. CONNECT (1) and PUBLISH (3) are unpacked and reach their handlers, PUBACK (4) and PUBREC (5) the handlers
  declared for them, PUBREL (6) the one for PUBCOMP. PUBCOMP (7) is handled as a SUBSCRIBE, on a union that holds an acknowledgement; SUBSCRIBE (8) and UNSUBSCRIBE (10), once unpacked, PINGREQ (12), DISCONNECT (14) and the types 0, 2 and 9
  call a null pointer; the handler of DISCONNECT is called for type 13, which no client sends; types 11 and 15 index past the table of unpack functions.
\<close>

theorem dispatch_types:
  "dispatch E cb (request (h # buf) k) h s =
     (let t = unat (hdr_type h);
          with_ack = (\<lambda>f. rbind (unpack_mqtt_ack buf h) (\<lambda>(_, pkt). rbind (f cb pkt (counted s)) (finish cb)))
      in if t = 1 then rbind (unpack_mqtt_connect buf h) (\<lambda>(_, pkt). rbind (connect_handler E cb pkt (counted s)) (finish cb))
         else if t = 3 then rbind (unpack_mqtt_publish buf h) (\<lambda>(_, pkt). rbind (publish_handler cb pkt (counted s)) (finish cb))
         else if t = 4 then with_ack (se_puback E)
         else if t = 5 then with_ack (se_pubrec E)
         else if t = 6 then with_ack (se_pubcomp E)
         else if t = 7 then with_ack (\<lambda>_ _ _. Inl Type_confusion)
         else if t = 8 then rbind (unpack_mqtt_subscribe buf h) (\<lambda>_. Inl Null_call)
         else if t = 10 then rbind (unpack_mqtt_unsubscribe buf h) (\<lambda>_. Inl Null_call)
         else if t = 13 then rbind (disconnect_handler cb (Pkt_header h) (counted s)) (finish cb)
         else if t \<in> {11, 15} then Inl Index_range else Inl Null_call)"
proof -
  have "unat (hdr_type h) \<in> {0, 1, 2, 3, 4, 5, 6, 7, 8, 9, 10, 11, 12, 13, 14, 15}"
    using hdr_type_less [of h] by (simp add: eval_nat_numeral less_Suc_eq)
  then consider "unat (hdr_type h) \<in> {0, 2, 9, 12, 14}" | "unat (hdr_type h) \<in> {11, 15}" | "unat (hdr_type h) \<in> {8, 10}"
    | "unat (hdr_type h) \<in> {1, 3, 4, 5, 6, 13}" | "unat (hdr_type h) = 7" by blast
  then show ?thesis
  proof cases
    case 5
    then show ?thesis using unpack_ack_packet [of buf h] handlers_nth(6) [of E]
      by (cases "unpack_mqtt_ack buf h") (auto simp: dispatch_request unpack_dispatch subscribe_handler_def split: prod.splits)
  qed (auto simp: dispatch_request unpack_dispatch handlers_nth handlers_nth(1) [simplified] rbind_assoc case_prod_unfold)
qed

end
