(* ===== verification/Connection.thy ===== *)
theory Connection
  imports Session
begin

text \<open>
  The life of a connection before and after its packets: accepting it, and a client that goes away or stops in the middle of a packet.
\<close>

section \<open>Accepting\<close>

lemma accept_new_client_ok:
  assumes "accept_connection (se_kern E) (socket_family (se_conf E)) fd (sv_net s) = (cfd, net)" "cfd \<noteq> - 1"
    and "se_getpeername E cfd" "se_peer_ip E cfd = Some ip" "se_getsockname E fd"
  shows "accept_new_client E fd s = (0, Some (cfd, ip), s\<lparr>sv_net := net\<rparr>)"
  using assms by (simp add: accept_new_client_def)

definition in_event :: "nat \<Rightarrow> ep_event" where
  "in_event p = \<lparr>ev_err = False, ev_hup = False, ev_in = True, ev_out = False, ev_data = U_ptr p\<rparr>"

lemma in_event_loop:
  assumes "one_task low p (sv_loop s)" "call_closure E clock p (srv_report [in_event p] s) = Inr s'"
  shows "evloop_wait low srv_report srv_close (call_closure E clock) sv_loop (replicate n Wait_eintr @ [Wait_events [in_event p]]) (replicate 256 None) s = Inr (None, s')"
proof -
  let ?r = "srv_report [in_event p] s"
  have "find_periodic low (Some (in_event p) # es) (el_tasks (sv_loop ?r)) 0 (el_periodic_nr (sv_loop ?r)) = Inr None" for es
    using assms(1) by (auto simp: one_task_def udata_fd_def in_event_def)
  moreover have "ev_data (in_event p) = U_ptr p" "\<not> ev_broken (in_event p)" by (simp_all add: ev_broken_def in_event_def)
  ultimately show ?thesis using assms(2) by (simp add: wait_eintr handle_event_def del: srv_report_rest)
qed

lemma accept_run:
  assumes "srv_ok s" "get_closure server s = Inr sc" "cb_args sc = server" "cb_call sc = On_accept" "one_task low server (sv_loop s)"
    and "accept_connection (se_kern E) (socket_family (se_conf E)) (cb_fd sc) (sv_net s) = (fd, net)" "fd \<noteq> - 1"
    and "se_getpeername E fd" "se_peer_ip E fd = Some ip" "se_getsockname E (cb_fd sc)"
    and "el_epoll (sv_loop s) (cb_fd sc) = Some (Want_in, U_ptr server)" "el_epoll (sv_loop s) fd = None"
    and "a = om_next (sv_mem s)" "ht_store_ok L (sol_closures (sv_sol s))" "plain_key L (se_uuid E a)"
    and "hashtable_get (sol_closures (sv_sol s)) (se_uuid E a) = None"
    and "ht_put (se_can E) (se_fuel E) (sol_closures (sv_sol s)) (se_uuid E a) a = Some t"
  shows "\<exists>s'. evloop_wait low srv_report srv_close (call_closure E clock) sv_loop (replicate n Wait_eintr @ [Wait_events [in_event server]]) (replicate 256 None) s = Inr (None, s')
    \<and> srv_ok s'
    \<and> get_closure a s' = Inr \<lparr>cb_fd = fd, cb_obj = None, cb_args = a, cb_closure_id = se_uuid E a, cb_payload = None, cb_call = On_read\<rparr>
    \<and> (\<forall>b. b \<noteq> a \<longrightarrow> get_closure b s' = get_closure b s)
    \<and> (\<forall>key. plain_key L key \<longrightarrow> hashtable_get (sol_closures (sv_sol s')) key = (if key = se_uuid E a then Some a else hashtable_get (sol_closures (sv_sol s)) key))
    \<and> el_epoll (sv_loop s') = (epoll_report [in_event server] (el_epoll (sv_loop s)))(fd \<mapsto> (Want_in, U_ptr a), cb_fd sc \<mapsto> (Want_in, U_ptr server))
    \<and> nclients (sv_info s') = nclients (sv_info s) + 1 \<and> nconnections (sv_info s') = nconnections (sv_info s) + 1
    \<and> sv_wire s' = sv_wire s \<and> sol_clients (sv_sol s') = sol_clients (sv_sol s)
    \<and> sv_tx s' = sv_tx s \<and> om_clients (sv_mem s') = om_clients (sv_mem s) \<and> om_next (sv_mem s') = Suc a
    \<and> subs_at (sv_sol s') (sv_mem s') = subs_at (sv_sol s) (sv_mem s) \<and> (\<forall>q. one_task low q (sv_loop s') = one_task low q (sv_loop s))"
proof -
  define r where "r = srv_report [in_event server] s"
  let ?t = "sol_closures (sv_sol s)" and ?id = "se_uuid E a"
  let ?c = "\<lparr>cb_fd = fd, cb_obj = None, cb_args = a, cb_closure_id = ?id, cb_payload = None, cb_call = On_read\<rparr>"
  let ?ep = "epoll_report [in_event server] (el_epoll (sv_loop s))"
  have r: "get_closure server r = Inr sc" "sv_mem r = sv_mem s" "sv_sol r = sv_sol s" "sv_net r = sv_net s" "srv_ok r" "el_epoll (sv_loop r) = ?ep"
    "sv_info r = sv_info s" "sv_wire r = sv_wire s" "sv_tx r = sv_tx s" using assms(1,2) by (simp_all add: r_def)
  have acc: "accept_new_client E (cb_fd sc) r = (0, Some (fd, ip), r\<lparr>sv_net := net\<rparr>)"
    using assms(6-10) r(4) by (intro accept_new_client_ok) simp_all
  have put: "table_put E ?t ?id a = Inr t"
    using assms(17) by (auto simp: table_put_def ht_put_def split: option.splits ht_status.splits if_splits)
  have ep: "?ep fd = None" "?ep (cb_fd sc) = Some (Want_none, U_ptr server)" "fd \<noteq> cb_fd sc"
    using assms(11,12) by (auto simp: epoll_report_def in_event_def)
  have loop: "snd (evloop_rearm_callback_read (evloop_add_callback (sv_loop r) fd a) (cb_fd sc) server)
      = (sv_loop r)\<lparr>el_epoll := ?ep(fd \<mapsto> (Want_in, U_ptr a), cb_fd sc \<mapsto> (Want_in, U_ptr server))\<rparr>"
    using ep r(6) by (simp add: evloop_rearm_callback_read_def evloop_add_callback_def epoll_mod_def epoll_add_def ep_data_def)
  define s' where "s' = upd_info (\<lambda>i. i\<lparr>nclients := nclients i + 1, nconnections := nconnections i + 1\<rparr>)
    ((put_mem ((set_closure a ?c (sv_mem s))\<lparr>om_next := Suc a\<rparr>) (r\<lparr>sv_net := net\<rparr>))
      \<lparr>sv_sol := (sv_sol s)\<lparr>sol_closures := t\<rparr>,
       sv_loop := (sv_loop r)\<lparr>el_epoll := ?ep(fd \<mapsto> (Want_in, U_ptr a), cb_fd sc \<mapsto> (Want_in, U_ptr server))\<rparr>\<rparr>)"
  have on: "on_accept E server r = Inr s'"
    using r acc put loop assms(13) by (simp add: on_accept_def s'_def put_mem_def Let_def)
  then have "call_closure E clock server r = Inr s'" using r(1) assms(3,4) by (simp add: call_closure_def)
  from in_event_loop [OF assms(5) this [unfolded r_def]] have w: "evloop_wait low srv_report srv_close (call_closure E clock) sv_loop
      (replicate n Wait_eintr @ [Wait_events [in_event server]]) (replicate 256 None) s = Inr (None, s')" .
  have view: "ht_view ?t ?id = None" using ht_store.get_law [OF assms(14,15)] assms(16) by simp
  have st: "ht_store_ok L t" "ht_view t = (ht_view ?t)(?id \<mapsto> a)" using ht_put_law [OF assms(14,15) view assms(17)] by simp_all
  have get: "hashtable_get t k = (if k = ?id then Some a else hashtable_get ?t k)" if "plain_key L k" for k
    using ht_store.get_law [OF assms(14) that] ht_store.get_law [OF st(1) that] st(2) by simp
  have "srv_ok s'" using accept_ok [OF r(5) on] .
  moreover have "get_closure b s' = (if b = a then Inr ?c else get_closure b s)" for b
    by (simp add: s'_def get_closure_def upd_info_def put_mem_def set_closure_def deref_at_def)
  moreover have "subs_at (sv_sol s') (sv_mem s') = subs_at (sv_sol s) (sv_mem s)"
    by (rule subs_at_cong) (simp_all add: s'_def upd_info_def put_mem_def set_closure_def)
  moreover have "one_task low q (sv_loop s') = one_task low q (sv_loop s)" for q by (simp add: s'_def upd_info_def put_mem_def r_def)
  ultimately show ?thesis using w get r(7-9)
    by (intro exI [of _ s'] conjI) (simp_all add: s'_def upd_info_def put_mem_def set_closure_def)
qed

text \<open>
  C15 (accept_registers): a readable listening socket with a connection the kernel hands out and whose addresses it knows. The event loop accepts it: a closure for it that waits for its first packet is put in the table under its identifier, beside
  the closures that are there; its descriptor is registered for reading with that closure, the listening descriptor, whose registration the event had used up, is armed again, the other registrations that were not
  reported stay, both counters go up by one, and nothing is sent. (For identifiers of one length in lower case, which the texts of libuuid are, and a table that can grow and then has at most \<open>2^31\<close> slots.)
\<close>

theorem accept_registers:
  assumes "srv_ok s" "get_closure server s = Inr sc" "cb_args sc = server" "cb_call sc = On_accept" "one_task low server (sv_loop s)"
    and "accept_connection (se_kern E) (socket_family (se_conf E)) (cb_fd sc) (sv_net s) = (fd, net)" "fd \<noteq> - 1"
    and "se_getpeername E fd" "se_peer_ip E fd = Some ip" "se_getsockname E (cb_fd sc)"
    and "el_epoll (sv_loop s) (cb_fd sc) = Some (Want_in, U_ptr server)" "el_epoll (sv_loop s) fd = None"
    and "a = om_next (sv_mem s)" "ht_store_ok L (sol_closures (sv_sol s))" "plain_key L (se_uuid E a)"
    and "hashtable_get (sol_closures (sv_sol s)) (se_uuid E a) = None"
    and "ht_put (se_can E) (se_fuel E) (sol_closures (sv_sol s)) (se_uuid E a) a = Some t"
  shows "\<exists>s'. evloop_wait low srv_report srv_close (call_closure E clock) sv_loop (replicate n Wait_eintr @ [Wait_events [in_event server]]) (replicate 256 None) s = Inr (None, s')
    \<and> srv_ok s'
    \<and> get_closure a s' = Inr \<lparr>cb_fd = fd, cb_obj = None, cb_args = a, cb_closure_id = se_uuid E a, cb_payload = None, cb_call = On_read\<rparr>
    \<and> (\<forall>b. b \<noteq> a \<longrightarrow> get_closure b s' = get_closure b s)
    \<and> (\<forall>key. plain_key L key \<longrightarrow> hashtable_get (sol_closures (sv_sol s')) key = (if key = se_uuid E a then Some a else hashtable_get (sol_closures (sv_sol s)) key))
    \<and> el_epoll (sv_loop s') = (epoll_report [in_event server] (el_epoll (sv_loop s)))(fd \<mapsto> (Want_in, U_ptr a), cb_fd sc \<mapsto> (Want_in, U_ptr server))
    \<and> nclients (sv_info s') = nclients (sv_info s) + 1 \<and> nconnections (sv_info s') = nconnections (sv_info s) + 1
    \<and> sv_wire s' = sv_wire s \<and> sol_clients (sv_sol s') = sol_clients (sv_sol s)"
  using accept_run [OF assms, where n = n and clock = clock] by blast

text \<open>The first connection of a server that has just started, on descriptor 7.\<close>

theorem accept_registers_witness:
  "\<exists>s s' a. server_init sample_env no_net 4 True 0 (\<lambda>_. []) (\<lambda>_. []) = Inr s
    \<and> evloop_wait (\<lambda>_. 77) srv_report srv_close (call_closure sample_env (0, [])) sv_loop [Wait_events [in_event 0]] (replicate 256 None) s = Inr (None, s')
    \<and> hashtable_get (sol_closures (sv_sol s')) [99] = Some a \<and> el_epoll (sv_loop s') 7 = Some (Want_in, U_ptr a) \<and> nclients (sv_info s') = nclients (sv_info s) + 1"
proof -
  let ?sc = "\<lparr>cb_fd = 3, cb_obj = None, cb_args = 0, cb_closure_id = [99], cb_payload = None, cb_call = On_accept\<rparr>"
  obtain s where s: "server_init sample_env no_net 4 True 0 (\<lambda>_. []) (\<lambda>_. []) = Inr s" "get_closure 0 s = Inr ?sc" "el_periodic_nr (sv_loop s) = 1"
    "el_tasks (sv_loop s) = [Some \<lparr>pt_timerfd = 4, pt_closure = 1\<rparr>, None, None, None]" "sol_closures (sv_sol s) = new_table closure_destructor"
    "el_epoll (sv_loop s) = [3 \<mapsto> (Want_in, U_ptr 0), 4 \<mapsto> (Want_in, U_fd 4)]" using sample_init by blast
  define a where "a = om_next (sv_mem s)"
  have ok: "srv_ok s" using server_init_ok [OF s(1)] by simp
  have task: "one_task (\<lambda>_. 77) 0 (sv_loop s)" using s(3,4) by (simp add: one_task_def)
  obtain net where acc: "accept_connection (se_kern sample_env) (socket_family (se_conf sample_env)) (cb_fd ?sc) (sv_net s) = (7, net)"
    by (simp add: accept_connection_def sample_env_def sample_kern_def default_config_def)
  have p: "plain_key 1 [99]" by (simp add: plain_key_def tolower_def)
  have put: "ht_put (\<lambda>_. True) 9 (new_table closure_destructor) [99] a = Some (put_at (new_table closure_destructor) 0 [99] (Some a))"
    by (simp add: ht_put_def put_now [OF hash_c] del: hashtable_put.simps)
  have get: "hashtable_get (new_table closure_destructor) [99] = None"
    by (simp add: ht_store.get_law [OF new_table_ok(1) p] new_table_ok)
  have env: "se_getpeername sample_env 7" "se_peer_ip sample_env 7 = Some []" "se_getsockname sample_env (cb_fd ?sc)" "se_uuid sample_env a = [99]"
    "se_can sample_env = (\<lambda>_. True)" "se_fuel sample_env = 9" by (simp_all add: sample_env_def)
  have ep: "el_epoll (sv_loop s) (cb_fd ?sc) = Some (Want_in, U_ptr 0)" "el_epoll (sv_loop s) 7 = None" by (simp_all add: s(6))
  have tab: "ht_store_ok 1 (sol_closures (sv_sol s))" "plain_key 1 (se_uuid sample_env a)" "hashtable_get (sol_closures (sv_sol s)) (se_uuid sample_env a) = None"
    "ht_put (se_can sample_env) (se_fuel sample_env) (sol_closures (sv_sol s)) (se_uuid sample_env a) a = Some (put_at (new_table closure_destructor) 0 [99] (Some a))"
    unfolding env s(5) by (rule new_table_ok(1) p get put)+
  from accept_registers [OF ok s(2) _ _ task acc _ env(1-3) ep a_def tab, where clock = "(0, [])" and n = 0] p obtain s' where
    "evloop_wait (\<lambda>_. 77) srv_report srv_close (call_closure sample_env (0, [])) sv_loop (replicate 0 Wait_eintr @ [Wait_events [in_event 0]]) (replicate 256 None) s = Inr (None, s')"
    "hashtable_get (sol_closures (sv_sol s')) [99] = Some a" "el_epoll (sv_loop s') 7 = Some (Want_in, U_ptr a)" "nclients (sv_info s') = nclients (sv_info s) + 1"
    by (simp add: env(4) del: evloop_wait.simps) (elim exE conjE, simp del: evloop_wait.simps)
  with s(1) show ?thesis by (intro exI [of _ s] exI [of _ s'] exI [of _ a]) (simp del: evloop_wait.simps)
qed

section \<open>A client that goes away\<close>

lemma short_none: "avail q = [] \<Longrightarrow> short_rc q 0 \<le> 0"
  by (induction q rule: avail.induct) auto

lemma srv_recv_none:
  "avail (sv_rx s fd) = [] \<Longrightarrow> \<exists>rc got rx. srv_recv fd 1 s = (rc, got, s\<lparr>sv_rx := rx\<rparr>) \<and> rc \<le> 0"
  using recv_loop_short [of "sv_rx s fd" 1 "[]"] short_none [of "sv_rx s fd"]
  by (auto simp: srv_recv_def recv_bytes_def split: prod.splits)

lemma srv_recv_first:
  "avail (sv_rx s fd) = b # bs \<Longrightarrow> \<exists>rx. srv_recv fd 1 s = (1, [b], s\<lparr>sv_rx := rx\<rparr>) \<and> avail (rx fd) = bs"
  using recv_loop_enough [of 1 "sv_rx s fd" "[]"] by (auto simp: srv_recv_def recv_bytes_def)

text \<open>Nothing to read, or the first byte of a packet and no length.\<close>

lemma recv_packet_gone:
  assumes "avail (sv_rx s fd) = [] \<or> (\<exists>b. avail (sv_rx s fd) = [b] \<and> 1 \<le> b \<and> b \<le> 14 \<and> buf \<noteq> [])"
  shows "\<exists>buf' rx. recv_packet E fd buf s = Inr (- ERRCLIENTDC, buf', 0, s\<lparr>sv_rx := rx\<rparr>)"
  using assms
proof
  assume "avail (sv_rx s fd) = []"
  then show ?thesis using srv_recv_none [of s fd] by (auto simp: recv_packet_def)
next
  assume "\<exists>b. avail (sv_rx s fd) = [b] \<and> 1 \<le> b \<and> b \<le> 14 \<and> buf \<noteq> []"
  then obtain b where b: "avail (sv_rx s fd) = [b]" "\<not> (14 < b \<or> 1 > b)" "buf \<noteq> []" by (metis linorder_not_less)
  from srv_recv_first [OF b(1)] obtain rx where r: "srv_recv fd 1 s = (1, [b], s\<lparr>sv_rx := rx\<rparr>)" "avail (rx fd) = []" by blast
  from srv_recv_none [of "s\<lparr>sv_rx := rx\<rparr>" fd] r(2) obtain rc got rx2 where
    r2: "srv_recv fd 1 (s\<lparr>sv_rx := rx\<rparr>) = (rc, got, s\<lparr>sv_rx := rx2\<rparr>)" "rc \<le> 0" by auto
  obtain b1 where "store_at 0 [b] buf = Inr b1" using b(3) by (cases buf) (simp_all add: store_at_def write_mem_def)
  then show ?thesis using r(1) r2 b(2) by (auto simp: recv_packet_def eval_nat_numeral)
qed

text \<open>
  C16 (reader_goes_deaf): the event loop reports a connection as readable, and its socket has nothing to read, because the client has closed it or because of an error, or, with a request size other than 0, has a single byte with a value from 1 to 14. Such a byte is what the code takes for the type of a
  packet, and it then waits for the length; no MQTT packet starts with it, and by \<open>on_read_real_packet\<close> a first byte of 16 or more drops the client instead. The server goes on as if nothing had happened: the socket is not closed, closure, client and counters stay, and
  the registration that the event has used up is not renewed, so that in the state it leaves no event for this connection can be reported.
\<close>

theorem reader_goes_deaf:
  assumes "get_closure cb s = Inr c" "cb_args c = cb" "cb_call c = On_read" "one_task low cb (sv_loop s)"
    and "avail (sv_rx s (cb_fd c)) = [] \<or> (\<exists>b. avail (sv_rx s (cb_fd c)) = [b] \<and> 1 \<le> b \<and> b \<le> 14 \<and> 0 < max_request_size (se_conf E))"
  shows "\<exists>s'. evloop_wait low srv_report srv_close (call_closure E clock) sv_loop (replicate n Wait_eintr @ [Wait_events [in_event cb]]) (replicate 256 None) s = Inr (None, s')
    \<and> sv_closed s' = sv_closed s \<and> sv_sol s' = sv_sol s \<and> sv_mem s' = sv_mem s \<and> sv_info s' = sv_info s \<and> sv_wire s' = sv_wire s
    \<and> (\<forall>e. ev_data e = U_ptr cb \<longrightarrow> \<not> reportable (el_epoll (sv_loop s')) e)"
proof -
  define r where "r = srv_report [in_event cb] s"
  let ?buf = "malloc (unat (max_request_size (se_conf E)))"
  have "0 < max_request_size (se_conf E) \<Longrightarrow> ?buf \<noteq> []" by (simp add: malloc_def unat_gt_0 word_gt_0)
  with recv_packet_gone [of r "cb_fd c" ?buf E] assms(5) obtain buf' rx where
    p: "recv_packet E (cb_fd c) ?buf r = Inr (- 1, buf', 0, r\<lparr>sv_rx := rx\<rparr>)" by (auto simp: r_def)
  have "get_closure cb r = Inr c" using assms(1) by (simp add: r_def)
  then have "call_closure E clock cb r = Inr (r\<lparr>sv_rx := rx\<rparr>)" using assms(2,3) p by (simp add: call_closure_def on_read_def)
  from in_event_loop [OF assms(4) this [unfolded r_def]] show ?thesis
    by (intro exI [of _ "srv_report [in_event cb] s\<lparr>sv_rx := rx\<rparr>"])
       (auto simp: reportable_def epoll_report_def in_event_def split: option.splits udata.splits)
qed

theorem reader_goes_deaf_witness:
  "\<exists>s'. evloop_wait (\<lambda>_. 77) srv_report srv_close (call_closure sample_env (0, [])) sv_loop [Wait_events [in_event 3]] (replicate 256 None)
        ((armed demo_srv)\<lparr>sv_rx := (\<lambda>_. [Sk_eof])\<rparr>) = Inr (None, s')
    \<and> sv_closed s' = [] \<and> (\<forall>e. ev_data e = U_ptr 3 \<longrightarrow> \<not> reportable (el_epoll (sv_loop s')) e)"
proof -
  let ?s = "(armed demo_srv)\<lparr>sv_rx := (\<lambda>_. [Sk_eof])\<rparr>"
  have c: "get_closure 3 ?s = Inr (demo_closure 3 8 6)" using demo_simps(2) by (simp add: get_closure_def)
  have "cb_call (demo_closure 3 8 6) = On_read" "sv_closed ?s = []" by (simp_all add: demo_closure_def armed_def demo_srv_def demo_at_def sample_srv_def)
  with reader_goes_deaf [OF c, of "\<lambda>_. 77" sample_env "(0, [])" 0] show ?thesis by (simp del: evloop_wait.simps) blast
qed

end
