(* ===== verification/Lifecycle.thy ===== *)
theory Lifecycle
  imports Connection
begin

text \<open>
  A client from its connection to its first message: the event loop accepts it, its CONNECT is dispatched, the event loop sends the CONNACK, its PUBLISH is dispatched and delivered, and the event loop sends the acknowledgement. The theory
  chains what \<open>Connection\<close> and \<open>Session\<close> show of each part; the packets are put into the request buffer, because the reception of a packet itself never gets that far (\<open>Server_Run\<close>).
\<close>

text \<open>The event loop is woken up by one event, after some interrupted waits.\<close>

abbreviation wake :: "(nat \<Rightarrow> int) \<Rightarrow> senv \<Rightarrow> int \<times> u8 list \<Rightarrow> nat \<Rightarrow> ep_event \<Rightarrow> srv \<Rightarrow> (int option \<times> srv) res" where
  "wake low E clock n e s \<equiv> evloop_wait low srv_report srv_close (call_closure E clock) sv_loop (replicate n Wait_eintr @ [Wait_events [e]]) (replicate 256 None) s"

lemma inbox_cong: "(\<And>x. x \<in> set xs \<Longrightarrow> sub_fd m' x = sub_fd m x) \<Longrightarrow> inbox m' msg xs = inbox m msg xs"
  by (auto simp: inbox_def fun_eq_iff intro!: arg_cong [of _ _ concat])

lemma live_sub_other:
  assumes "core_ok sol m" "live_sub m x" "om_next m \<le> a" "\<forall>b. b \<noteq> a \<longrightarrow> om_clients m' b = om_clients m b"
  shows "live_sub m' x \<and> sub_fd m' x = sub_fd m x"
proof -
  from assms(2) obtain b cl where b: "su_client x = Some b" "om_clients m b = Some cl" by (auto simp: live_sub_def)
  moreover have "b \<noteq> a" using assms(1,3) b(2) by (auto simp: core_ok_def fresh_ok_def)
  ultimately show ?thesis using assms(4) by (simp add: live_sub_def sub_fd_def)
qed

lemma roomy_tl: "roomy M (Suc n) q \<Longrightarrow> roomy M n (tl q)"
  by (auto dest: roomy_Suc)

text \<open>From an accepted connection on: \<open>a\<close> is the address the client gets.\<close>

lemma session_run:
  assumes s: "srv_ok s" "get_closure cb s = Inr c" "cb_args c = cb" "el_epoll (sv_loop s) (cb_fd c) \<noteq> None" "one_task low cb (sv_loop s)" "a = om_next (sv_mem s)"
    and con: "hdr_type h = 1" "length proto = 7" "length (connect_body proto flags ka cid wt wm un pw) < 128"
      "length wt < 65536" "length wm < 65536" "length un < 65536" "length pw < 65536" "cid \<noteq> []" "zero_free cid"
      "ht_store_ok K (sol_clients (sv_sol s))" "plain_key K cid" "hashtable_get (sol_clients (sv_sol s)) cid = None"
      "ht_put (se_can E) (se_fuel E) (sol_clients (sv_sol s)) cid a = Some u"
    and pub: "hdr_type g = 3" "hdr_qos g = 1 \<or> hdr_qos g = 2" "topic \<noteq> []" "length topic < 65536" "length payload < 65536" "zero_free topic" "zero_free payload"
      "xs = subs_at (sv_sol s) (sv_mem s) (slashed topic)" "length topic + length payload + 9 \<le> M"
      "\<forall>x \<in> set xs. live_sub (sv_mem s) x \<and> roomy M (length xs) (sv_tx s (sub_fd (sv_mem s) x))"
    and room: "roomy M (2 + length xs) (sv_tx s (cb_fd c))"
  shows "\<exists>s2 s3 s4 s5. dispatch E cb (request (wire_packet h (connect_body proto flags ka cid wt wm un pw)) k) h s = Inr s2
    \<and> wake low E clock n2 (out_event cb) s2 = Inr (None, s3)
    \<and> dispatch E cb (request (wire_publish g topic pid payload) k2) g s3 = Inr s4
    \<and> wake low E clock n3 (out_event cb) s4 = Inr (None, s5)
    \<and> sv_wire s5 = (\<lambda>d. sv_wire s d @ (if d = cb_fd c then [0x20, 2, 0, 0] else [])
        @ inbox (sv_mem s) (\<lambda>q. wire_publish (set_hdr_qos q g) topic pid payload) xs d
        @ (if d = cb_fd c then (if hdr_qos g = 1 then 0x40 else 0x50) # 2 # be16 pid else []))
    \<and> hashtable_get (sol_clients (sv_sol s5)) cid = Some a
    \<and> get_closure cb s5 = Inr (c\<lparr>cb_obj := Some a, cb_payload := None, cb_call := On_read\<rparr>)
    \<and> el_epoll (sv_loop s5) (cb_fd c) = Some (Want_in, U_ptr cb)"
proof -
  have r2: "roomy M (Suc (Suc (length xs))) (sv_tx s (cb_fd c))" using room by simp
  have r: "roomy 4 1 (sv_tx s (cb_fd c))" using roomy_mono [OF roomy_less [OF r2, of 1]] pub(9) by simp
  obtain s2 s3 where s3:
    "dispatch E cb (request (wire_packet h (connect_body proto flags ka cid wt wm un pw)) k) h s = Inr s2"
    "wake low E clock n2 (out_event cb) s2 = Inr (None, s3)"
    "sv_wire s3 = (sv_wire s)(cb_fd c := sv_wire s (cb_fd c) @ [0x20, 2, 0, 0])"
    "\<forall>key. plain_key K key \<longrightarrow> hashtable_get (sol_clients (sv_sol s3)) key = (if key = cid then Some a else hashtable_get (sol_clients (sv_sol s)) key)"
    "get_client (Some a) s3 = Inr \<lparr>sc_client_id = cid, sc_fd = cb_fd c, sc_subscriptions = (if con_clean_session flags then None else Some [])\<rparr>"
    "get_closure cb s3 = Inr (c\<lparr>cb_obj := Some a, cb_payload := None, cb_call := On_read\<rparr>)" "el_epoll (sv_loop s3) (cb_fd c) = Some (Want_in, U_ptr cb)" "srv_ok s3"
    "subs_at (sv_sol s3) (sv_mem s3) = subs_at (sv_sol s) (sv_mem s)" "sv_tx s3 = (sv_tx s)(cb_fd c := tl (sv_tx s (cb_fd c)))"
    "\<forall>b. b \<noteq> a \<longrightarrow> om_clients (sv_mem s3) b = om_clients (sv_mem s) b" "\<forall>q. one_task low q (sv_loop s3) = one_task low q (sv_loop s)"
    using connect_run [OF s(1-5) con(1-12) con(13) [unfolded s(6)] r s(6), where k = k and clock = clock and n = n2] by blast
  define d where "d = c\<lparr>cb_obj := Some a, cb_payload := None, cb_call := On_read\<rparr>"
  have d: "cb_fd d = cb_fd c" "cb_args d = cb" "cb_obj d = Some a" "d\<lparr>cb_payload := None, cb_call := On_read\<rparr> = d" by (simp_all add: d_def s(3))
  have r1: "roomy M (Suc (length xs)) (tl (sv_tx s (cb_fd c)))" by (rule roomy_tl [OF r2])
  have subs: "live_sub (sv_mem s3) x" "sub_fd (sv_mem s3) x = sub_fd (sv_mem s) x" if "x \<in> set xs" for x
    using live_sub_other [OF s(1) _ _ s3(11)] pub(10) that s(6) by simp_all
  have l: "\<forall>x \<in> set xs. live_sub (sv_mem s3) x \<and> roomy M (length xs) (sv_tx s3 (sub_fd (sv_mem s3) x))"
    using subs pub(10) s3(10) roomy_less [OF r1, of "length xs"] by auto
  have p: "el_epoll (sv_loop s3) (cb_fd d) \<noteq> None" "one_task low cb (sv_loop s3)" "xs = subs_at (sv_sol s3) (sv_mem s3) (slashed topic)"
    "roomy M (1 + length xs) (sv_tx s3 (cb_fd d))" "hdr_qos g = 0 \<Longrightarrow> pid = 0"
    using s3(7,9,10,12) s(5) d(1) pub(2,8) r1 by auto
  obtain s4 s5 where s5:
    "dispatch E cb (request (wire_publish g topic pid payload) k2) g s3 = Inr s4"
    "sv_wire s4 = (\<lambda>x. sv_wire s3 x @ inbox (sv_mem s3) (\<lambda>q. wire_publish (set_hdr_qos q g) topic pid payload) xs x)"
    "wake low E clock n3 (out_event cb) s4 = Inr (None, s5)"
    "sv_wire s5 = (sv_wire s4)(cb_fd d := sv_wire s4 (cb_fd d) @ (if hdr_qos g = 1 then 0x40 else 0x50) # 2 # be16 pid)"
    "get_closure cb s5 = Inr (d\<lparr>cb_payload := None, cb_call := On_read\<rparr>)" "el_epoll (sv_loop s5) (cb_fd d) = Some (Want_in, U_ptr cb)"
    "sol_clients (sv_sol s5) = sol_clients (sv_sol s3)"
    using publish_run [OF s3(8) s3(6) [folded d_def] s3(5) [folded d(3)] d(2) p(1,2) pub(1) p(5) pub(3-7) p(3) pub(9) l p(4), where E = E and k = k2 and clock = clock and n = n3,
      unfolded eqTrueI [OF pub(2)] if_True] by blast
  note s5 = s5 [unfolded d(1,4)]
  have "inbox (sv_mem s3) msg xs = inbox (sv_mem s) msg xs" for msg by (rule inbox_cong) (rule subs(2))
  then have wire: "sv_wire s5 = (\<lambda>x. sv_wire s x @ (if x = cb_fd c then [0x20, 2, 0, 0] else []) @ inbox (sv_mem s) (\<lambda>q. wire_publish (set_hdr_qos q g) topic pid payload) xs x
        @ (if x = cb_fd c then (if hdr_qos g = 1 then 0x40 else 0x50) # 2 # be16 pid else []))"
    by (simp add: fun_eq_iff s5(2,4) s3(3))
  have reg: "hashtable_get (sol_clients (sv_sol s5)) cid = Some a" using s3(4) con(11) s5(7) by simp
  show ?thesis
    by (intro exI [of _ s2] exI [of _ s3] exI [of _ s4] exI [of _ s5] conjI s3(1,2) s5(1,3,6) s5(5) [unfolded d_def] wire reg)
qed

text \<open>
  C5 (client_life): what the parts of the server before and after the reception do, put together, for one client. The event loop accepts its connection; a CONNECT is put by hand into the request buffer and given to \<open>dispatch\<close>; the event loop reports the
  socket as writable; a PUBLISH with QoS 1 or 2 is put into the buffer and given to \<open>dispatch\<close>; the event loop reports the socket as writable again. The reception in \<open>on_read\<close> is bypassed: \<open>server_mute\<close> and \<open>on_read_real_packet\<close> show that it never hands
  over such a packet. The conditions: the identifier is not registered, not empty, without zero bytes, and of the kind the table tells apart (one length, lower case), the tables can grow within \<open>2^31\<close> slots, the body of the CONNECT is shorter than 128 bytes, the
  topic is not empty, topic and payload are shorter than 65536 bytes and without zero bytes, every subscription of the topic names a connected client, and all sockets have room. What the server sends is, socket by socket, in this order: on the new
  socket the CONNACK that accepts the connection; on the socket of every subscription of the topic, in the order of the subscriptions, one copy of the message with the QoS of the subscription; on the new socket the PUBACK or PUBREC with the identifier of the
  message; and nothing else on any socket. In the last state the client is registered, and its closure waits for the next packet with its descriptor armed for reading.
\<close>

theorem client_life:
  assumes "srv_ok s" "get_closure server s = Inr sc" "cb_args sc = server" "cb_call sc = On_accept" "one_task low server (sv_loop s)"
    and "accept_connection (se_kern E) (socket_family (se_conf E)) (cb_fd sc) (sv_net s) = (fd, net)" "fd \<noteq> - 1"
    and "se_getpeername E fd" "se_peer_ip E fd = Some ip" "se_getsockname E (cb_fd sc)"
    and "el_epoll (sv_loop s) (cb_fd sc) = Some (Want_in, U_ptr server)" "el_epoll (sv_loop s) fd = None"
    and "a = om_next (sv_mem s)" "ht_store_ok L (sol_closures (sv_sol s))" "plain_key L (se_uuid E a)"
    and "hashtable_get (sol_closures (sv_sol s)) (se_uuid E a) = None"
    and "ht_put (se_can E) (se_fuel E) (sol_closures (sv_sol s)) (se_uuid E a) a = Some t"
    and con: "one_task low a (sv_loop s)" "hdr_type h = 1" "length proto = 7" "length (connect_body proto flags ka cid wt wm un pw) < 128"
      "length wt < 65536" "length wm < 65536" "length un < 65536" "length pw < 65536" "cid \<noteq> []" "zero_free cid"
      "ht_store_ok K (sol_clients (sv_sol s))" "plain_key K cid" "hashtable_get (sol_clients (sv_sol s)) cid = None"
      "ht_put (se_can E) (se_fuel E) (sol_clients (sv_sol s)) cid (Suc a) = Some u"
    and pub: "hdr_type g = 3" "hdr_qos g = 1 \<or> hdr_qos g = 2" "topic \<noteq> []" "length topic < 65536" "length payload < 65536" "zero_free topic" "zero_free payload"
      "xs = subs_at (sv_sol s) (sv_mem s) (slashed topic)" "length topic + length payload + 9 \<le> M"
      "\<forall>x \<in> set xs. live_sub (sv_mem s) x \<and> roomy M (length xs) (sv_tx s (sub_fd (sv_mem s) x))"
    and room: "roomy M (2 + length xs) (sv_tx s fd)"
  shows "\<exists>s1 s2 s3 s4 s5. wake low E clock n (in_event server) s = Inr (None, s1)
    \<and> dispatch E a (request (wire_packet h (connect_body proto flags ka cid wt wm un pw)) k) h s1 = Inr s2
    \<and> wake low E clock n2 (out_event a) s2 = Inr (None, s3)
    \<and> dispatch E a (request (wire_publish g topic pid payload) k2) g s3 = Inr s4
    \<and> wake low E clock n3 (out_event a) s4 = Inr (None, s5)
    \<and> sv_wire s5 = (\<lambda>d. sv_wire s d @ (if d = fd then [0x20, 2, 0, 0] else [])
        @ inbox (sv_mem s) (\<lambda>q. wire_publish (set_hdr_qos q g) topic pid payload) xs d
        @ (if d = fd then (if hdr_qos g = 1 then 0x40 else 0x50) # 2 # be16 pid else []))
    \<and> hashtable_get (sol_clients (sv_sol s5)) cid = Some (Suc a)
    \<and> get_closure a s5 = Inr \<lparr>cb_fd = fd, cb_obj = Some (Suc a), cb_args = a, cb_closure_id = se_uuid E a, cb_payload = None, cb_call = On_read\<rparr>
    \<and> el_epoll (sv_loop s5) fd = Some (Want_in, U_ptr a)"
proof -
  define c where "c = \<lparr>cb_fd = fd, cb_obj = None, cb_args = a, cb_closure_id = se_uuid E a, cb_payload = None, cb_call = On_read\<rparr>"
  have c: "cb_fd c = fd" "cb_args c = a" "c\<lparr>cb_obj := Some (Suc a), cb_payload := None, cb_call := On_read\<rparr>
      = \<lparr>cb_fd = fd, cb_obj = Some (Suc a), cb_args = a, cb_closure_id = se_uuid E a, cb_payload = None, cb_call = On_read\<rparr>" by (simp_all add: c_def)
  obtain s1 where s1: "wake low E clock n (in_event server) s = Inr (None, s1)" "srv_ok s1"
    "get_closure a s1 = Inr c" "el_epoll (sv_loop s1) = (epoll_report [in_event server] (el_epoll (sv_loop s)))(fd \<mapsto> (Want_in, U_ptr a), cb_fd sc \<mapsto> (Want_in, U_ptr server))"
    "sv_wire s1 = sv_wire s" "sol_clients (sv_sol s1) = sol_clients (sv_sol s)"
    "sv_tx s1 = sv_tx s" "om_clients (sv_mem s1) = om_clients (sv_mem s)" "om_next (sv_mem s1) = Suc a"
    "subs_at (sv_sol s1) (sv_mem s1) = subs_at (sv_sol s) (sv_mem s)" "\<forall>q. one_task low q (sv_loop s1) = one_task low q (sv_loop s)"
    using accept_run [OF assms(1-17), where n = n and clock = clock, folded c_def] by blast
  have same: "live_sub (sv_mem s1) = live_sub (sv_mem s)" "sub_fd (sv_mem s1) = sub_fd (sv_mem s)" "inbox (sv_mem s1) = inbox (sv_mem s)"
    by (simp_all add: fun_eq_iff live_sub_def sub_fd_def inbox_def s1(8))
  have e1: "el_epoll (sv_loop s1) (cb_fd c) \<noteq> None" "one_task low a (sv_loop s1)" using s1(4,11) c(1) con(1) by auto
  from session_run [OF s1(2,3) c(2) e1 s1(9) [symmetric] con(2-10), unfolded s1(5-7,10) same, OF con(11-14) pub, unfolded c(1,3), OF room,
      where k = k and clock = clock and ?n2.0 = n2 and ?k2.0 = k2 and ?n3.0 = n3 and pid = pid]
  show ?thesis using s1(1) by blast
qed

text \<open>
  For the witness: the server of the other witnesses with a listening socket 3 and room for three packets on every socket; the connection it accepts gets descriptor 9. Its message to the topic \<^verbatim>\<open>a\<close> goes to the one subscription, on descriptor 7.
\<close>

definition life_env :: senv where
  "life_env = sample_env\<lparr>se_kern := sample_kern\<lparr>k_accept := (\<lambda>_ _. 9)\<rparr>\<rparr>"

definition listener :: closure where
  "listener = \<lparr>cb_fd = 3, cb_obj = None, cb_args = 1, cb_closure_id = [98], cb_payload = None, cb_call = On_accept\<rparr>"

definition listening :: srv where
  "listening = (armed demo_srv)\<lparr>sv_mem := set_closure 1 listener (sv_mem demo_srv),
     sv_loop := (sv_loop (armed demo_srv))\<lparr>el_epoll := [3 \<mapsto> (Want_in, U_ptr 1)]\<rparr>, sv_tx := (\<lambda>_. replicate 3 (Snd_room 3000))\<rparr>"

lemma old_closure_ok:
  assumes "core_ok sol m" "a < om_next m"
  shows "core_ok sol (set_closure a c m)"
proof -
  have "fresh_ok (set_closure a c m)" using assms by (auto simp: core_ok_def fresh_ok_def set_closure_def)
  moreover have "owns (sol_closures sol) (om_closures (set_closure a c m))"
    using assms owns_mono [of "sol_closures sol" "om_closures m" "(om_closures m)(a \<mapsto> c)"] by (auto simp: core_ok_def set_closure_def)
  ultimately show ?thesis using assms(1) by (simp add: core_ok_def topics_ok_def set_closure_def)
qed

lemma listening_simps:
  "sv_sol listening = sv_sol demo_srv" "om_clients (sv_mem listening) = om_clients (sv_mem demo_srv)" "om_next (sv_mem listening) = 12"
  "subs_at (sv_sol listening) (sv_mem listening) = subs_at (sv_sol demo_srv) (sv_mem demo_srv)" "get_closure 1 listening = Inr listener"
  "el_epoll (sv_loop listening) = [3 \<mapsto> (Want_in, U_ptr 1)]" "sv_tx listening = (\<lambda>_. replicate 3 (Snd_room 3000))" "sv_wire listening = (\<lambda>_. [])"
  "one_task (\<lambda>_. 77) q (sv_loop listening)" "srv_ok listening"
proof -
  show "subs_at (sv_sol listening) (sv_mem listening) = subs_at (sv_sol demo_srv) (sv_mem demo_srv)"
    by (rule subs_at_cong) (simp_all add: listening_def set_closure_def)
  show "srv_ok listening" using old_closure_ok [OF demo_ok, of 1 listener] by (simp add: listening_def)
qed (simp_all add: listening_def set_closure_def get_closure_def)

theorem client_life_witness:
  "\<exists>s1 s2 s3 s4 s5. wake (\<lambda>_. 77) life_env (0, []) 0 (in_event 1) listening = Inr (None, s1)
    \<and> dispatch life_env 12 (request ([0x10, 13] @ [0, 4, 77, 81, 84, 84, 4] @ [2, 0, 60, 0, 1, 100]) 5) 0x10 s1 = Inr s2
    \<and> wake (\<lambda>_. 77) life_env (0, []) 1 (out_event 12) s2 = Inr (None, s3)
    \<and> dispatch life_env 12 (request [0x32, 7, 0, 1, 97, 0, 9, 104, 105] 5) 0x32 s3 = Inr s4
    \<and> wake (\<lambda>_. 77) life_env (0, []) 2 (out_event 12) s4 = Inr (None, s5)
    \<and> sv_wire s5 9 = [0x20, 2, 0, 0, 0x40, 2, 0, 9] \<and> sv_wire s5 7 = [0x32, 7, 0, 1, 97, 0, 9, 104, 105] \<and> sv_wire s5 8 = []"
proof -
  let ?s = listening and ?proto = "[0, 4, 77, 81, 84, 84, 4] :: u8 list" and ?x = "\<lparr>su_qos = 1, su_client = Some 5\<rparr>"
  note simps = listening_simps
  have b: "connect_body ?proto 2 60 [100] [] [] [] [] = ?proto @ [2, 0, 60, 0, 1, 100]" by code_simp
  have w: "wire_packet 0x10 (connect_body ?proto 2 60 [100] [] [] [] []) = [0x10, 13] @ ?proto @ [2, 0, 60, 0, 1, 100]"
    unfolding b by (simp add: wire_packet_def)
  have q: "hdr_qos 0x32 = 1" "set_hdr_qos 1 0x32 = 0x32" "hdr_type 0x32 = 3" "hdr_type 0x10 = 1" by code_simp+
  have pw: "wire_publish 0x32 [97] 9 [104, 105] = [0x32, 7, 0, 1, 97, 0, 9, 104, 105]"
    by (simp add: wire_publish_def publish_body_def q be16_def encode_loop.simps)
  have sl: "slashed [97] = [97, 47]" by (simp add: slashed_def)
  have room: "roomy 100 n (replicate 3 (Snd_room 3000))" if "n \<le> 3" for n using that by (auto simp: roomy_def dest: in_set_takeD)
  obtain net where acc: "accept_connection (se_kern life_env) (socket_family (se_conf life_env)) (cb_fd listener) (sv_net ?s) = (9, net)"
    by (simp add: accept_connection_def life_env_def sample_env_def sample_kern_def default_config_def)
  have env: "se_getpeername life_env 9" "se_peer_ip life_env 9 = Some []" "se_getsockname life_env (cb_fd listener)" "se_uuid life_env 12 = [99]"
    "se_can life_env = (\<lambda>_. True)" "se_fuel life_env = 9" by (simp_all add: life_env_def sample_env_def)
  have p: "plain_key 1 [99]" by (simp add: plain_key_def tolower_def)
  have clo: "sol_closures (sv_sol ?s) = new_table closure_destructor" by (simp add: simps(1) demo_srv_def demo_at_def demo_sol_def)
  have put: "ht_put (\<lambda>_. True) 9 (new_table closure_destructor) [99] 12 = Some (put_at (new_table closure_destructor) 0 [99] (Some 12))"
    by (simp add: ht_put_def put_now [OF hash_c] del: hashtable_put.simps)
  have get: "hashtable_get (new_table closure_destructor) [99] = None"
    by (simp add: ht_store.get_law [OF new_table_ok(1) p] new_table_ok)
  have tab: "ht_store_ok 1 (sol_closures (sv_sol ?s))" "plain_key 1 (se_uuid life_env 12)" "hashtable_get (sol_closures (sv_sol ?s)) (se_uuid life_env 12) = None"
    "ht_put (se_can life_env) (se_fuel life_env) (sol_closures (sv_sol ?s)) (se_uuid life_env 12) 12 = Some (put_at (new_table closure_destructor) 0 [99] (Some 12))"
    unfolding env clo by (rule new_table_ok(1) p get put)+
  have cli: "ht_store_ok 1 (sol_clients (sv_sol ?s))" "plain_key 1 [100]" "hashtable_get (sol_clients (sv_sol ?s)) [100] = None"
    using demo_table_ok by (simp_all add: simps(1))
  obtain u where cput: "ht_put (se_can life_env) (se_fuel life_env) (sol_clients (sv_sol ?s)) [100] (Suc 12) = Some u"
    by (simp add: ht_put_def demo_table_def put_now [OF hash_d] env simps(1) del: hashtable_put.simps)
  have x: "[?x] = subs_at (sv_sol ?s) (sv_mem ?s) (slashed [97])" by (simp add: sl simps(4))
  have live: "\<forall>x \<in> set [?x]. live_sub (sv_mem ?s) x \<and> roomy 100 (length [?x]) (sv_tx ?s (sub_fd (sv_mem ?s) x))"
    using room [of 1] by (simp add: live_sub_def simps(2,7))
  have r: "roomy 100 (2 + length [?x]) (sv_tx ?s 9)" using room [of 3] by (simp add: simps(7))
  have l: "cb_args listener = 1" "cb_call listener = On_accept" "el_epoll (sv_loop ?s) (cb_fd listener) = Some (Want_in, U_ptr 1)" "el_epoll (sv_loop ?s) 9 = None"
    by (simp_all add: listener_def simps(6))
  have sides: "(9 :: int) \<noteq> - 1" "length ?proto = 7" "length (connect_body ?proto 2 60 [100] [] [] [] []) < 128" "length ([] :: u8 list) < 65536" "[100] \<noteq> ([] :: u8 list)"
    "zero_free [100]" "hdr_qos 0x32 = 1 \<or> hdr_qos 0x32 = 2" "[97] \<noteq> ([] :: u8 list)" "length [97 :: u8] < 65536" "length [104, 105 :: u8] < 65536" "zero_free [97]"
    "zero_free [104, 105]" "length [97 :: u8] + length [104, 105 :: u8] + 9 \<le> 100" unfolding b by (simp_all add: q)
  obtain s1 s2 s3 s4 s5 where "wake (\<lambda>_. 77) life_env (0, []) 0 (in_event 1) ?s = Inr (None, s1)"
    "dispatch life_env 12 (request (wire_packet 0x10 (connect_body ?proto 2 60 [100] [] [] [] [])) 5) 0x10 s1 = Inr s2"
    "wake (\<lambda>_. 77) life_env (0, []) 1 (out_event 12) s2 = Inr (None, s3)"
    "dispatch life_env 12 (request (wire_publish 0x32 [97] 9 [104, 105]) 5) 0x32 s3 = Inr s4"
    "wake (\<lambda>_. 77) life_env (0, []) 2 (out_event 12) s4 = Inr (None, s5)"
    "sv_wire s5 = (\<lambda>d. sv_wire ?s d @ (if d = 9 then [0x20, 2, 0, 0] else [])
        @ inbox (sv_mem ?s) (\<lambda>q. wire_publish (set_hdr_qos q 0x32) [97] 9 [104, 105]) [?x] d
        @ (if d = 9 then (if hdr_qos 0x32 = 1 then 0x40 else 0x50) # 2 # be16 9 else []))"
    using client_life [OF simps(10,5) l(1,2) simps(9) acc sides(1) env(1-3) l(3,4) simps(3) [symmetric] tab simps(9) q(4) sides(2,3,4,4,4,4,5,6) cli cput
      q(3) sides(7-12) x sides(13) live r, where n = 0 and clock = "(0, [])" and k = 5 and ?n2.0 = 1 and pid = 9 and ?k2.0 = 5 and ?n3.0 = 2] by blast
  then show ?thesis
    by (intro exI [of _ s1] exI [of _ s2] exI [of _ s3] exI [of _ s4] exI [of _ s5])
       (simp add: w pw q be16_def inbox_def sub_fd_def simps(2,8) del: evloop_wait.simps)
qed

end
