(* ===== verification/Logging.thy ===== *)
theory Logging
  imports Config
begin

text \<open>
  The log of \<^verbatim>\<open>src/sol/src/util.c\<close> (\<^verbatim>\<open>sol_log_init\<close>, \<^verbatim>\<open>sol_log\<close>, \<^verbatim>\<open>sol_log_close\<close>) over the standard output, the file system and the static stream \<^verbatim>\<open>fh\<close>;
  the summary of the configuration as it is logged at start-up; and \<^verbatim>\<open>generate_uuid\<close>.

  A stream is the path of its file: what is printed on it is appended to that file, since it is opened with \<^verbatim>\<open>a+\<close>. \<^verbatim>\<open>sol_log_close\<close> does not reset
  \<^verbatim>\<open>fh\<close>, so there is a third state beside null and open. The message a log call formats is an argument, its variable arguments already put in.
  Whether \<^verbatim>\<open>fopen\<close> succeeds and what \<^verbatim>\<open>time\<close> returns are arguments, libuuid is one too.
\<close>

section \<open>Definitions\<close>

datatype stream = Fh_null | Fh_open "u8 list" | Fh_closed

record logst =
  lg_fh :: stream
  lg_files :: "u8 list \<Rightarrow> u8 list option"
  lg_stdout :: "u8 list"

text \<open>\<^verbatim>\<open>fprintf(fh, ...)\<close> on a stream that is open.\<close>

definition append_file :: "u8 list \<Rightarrow> u8 list \<Rightarrow> logst \<Rightarrow> logst" where
  "append_file f bs L = L\<lparr>lg_files := (lg_files L)(f \<mapsto> (case lg_files L f of None \<Rightarrow> [] | Some old \<Rightarrow> old) @ bs)\<rparr>"

definition print_out :: "u8 list \<Rightarrow> logst \<Rightarrow> logst" where
  "print_out bs L = L\<lparr>lg_stdout := lg_stdout L @ bs\<rparr>"

text \<open>\<^verbatim>\<open>fopen\<close> with \<^verbatim>\<open>a+\<close> creates a file that is missing and keeps the contents of one that exists.\<close>

definition sol_log_init :: "(u8 list \<Rightarrow> bool) \<Rightarrow> u64 \<Rightarrow> u8 list option \<Rightarrow> logst \<Rightarrow> logst res" where
  "sol_log_init can_open now p L = (case p of None \<Rightarrow> Inl Assert_fail
     | Some f \<Rightarrow>
         if can_open f then Inr (append_file f [] (L\<lparr>lg_fh := Fh_open f\<rparr>))
         else Inr (print_out (dec_digits (unat now) @ bytes '' * WARNING: Unable to open file '' @ f @ [10]) (L\<lparr>lg_fh := Fh_null\<rparr>)))"

definition sol_log_close :: "logst \<Rightarrow> logst res" where
  "sol_log_close L = (case lg_fh L of Fh_null \<Rightarrow> Inr L | Fh_open f \<Rightarrow> Inr (L\<lparr>lg_fh := Fh_closed\<rparr>) | Fh_closed \<Rightarrow> Inl Use_after_free)"

text \<open>\<^verbatim>\<open>mark[level]\<close> in the array \<^verbatim>\<open>"#i*!"\<close>, whose last character is a zero.\<close>

definition log_mark :: "int \<Rightarrow> u8 res" where
  "log_mark level = (if 0 \<le> level \<and> level < 5 then Inr ((bytes ''#i*!'' @ [0]) ! nat level) else Inl Over_read)"

text \<open>\<open>t1\<close> and \<open>t2\<close> are the two results of \<^verbatim>\<open>time(NULL)\<close>.\<close>

definition log_line :: "u64 \<Rightarrow> u8 \<Rightarrow> u8 list \<Rightarrow> u8 list" where
  "log_line t mark msg = dec_digits (unat t) @ [32, mark, 32] @ msg @ [10]"

definition sol_log :: "int \<Rightarrow> u64 \<Rightarrow> u64 \<Rightarrow> int \<Rightarrow> u8 list \<Rightarrow> logst \<Rightarrow> logst res" where
  "sol_log lv t1 t2 level m L =
     (if level < lv then Inr L
      else rbind (log_text m) (\<lambda>msg.
           rbind (log_mark level) (\<lambda>mark.
           let L = print_out (log_line t1 mark msg) L in
           case lg_fh L of Fh_null \<Rightarrow> Inr L
           | Fh_open f \<Rightarrow> Inr (append_file f (log_line t2 mark msg) L)
           | Fh_closed \<Rightarrow> Inl Use_after_free)))"

text \<open>A sequence of log calls, each with its times, level and message.\<close>

fun log_all :: "int \<Rightarrow> (u64 \<times> u64 \<times> int \<times> u8 list) list \<Rightarrow> logst \<Rightarrow> logst res" where
  "log_all lv [] L = Inr L"
| "log_all lv ((t1, t2, level, m) # es) L = rbind (sol_log lv t1 t2 level m L) (log_all lv es)"

text \<open>\<^verbatim>\<open>config_print\<close> with its calls of \<^verbatim>\<open>sol_info\<close> carried out, all in the second \<open>t\<close>.\<close>

definition config_print_log :: "u64 \<Rightarrow> config \<Rightarrow> logst \<Rightarrow> logst res" where
  "config_print_log t c L =
     rbind (config_print c) (\<lambda>ls. log_all (loglevel c) (map (\<lambda>m. (t, t, INFORMATION, m)) ls) L)"

text \<open>
  \<^verbatim>\<open>generate_uuid\<close>: \<open>gen\<close> draws a random binary identifier and \<open>unparse\<close> gives its text, which is stored with its zero in the placeholder.
\<close>

abbreviation (input) UUID_LEN :: nat where "UUID_LEN \<equiv> 37"

definition generate_uuid :: "('r \<Rightarrow> 'b \<times> 'r) \<Rightarrow> ('b \<Rightarrow> u8 list) \<Rightarrow> block \<Rightarrow> 'r \<Rightarrow> (int \<times> block \<times> 'r) res" where
  "generate_uuid gen unparse placeholder r =
     (let (binuuid, r) = gen r; text = cstr (unparse binuuid) in
      if length text \<le> length placeholder then Inr (0, text @ drop (length text) placeholder, r) else Inl Over_write)"

section \<open>What is logged\<close>

text \<open>The text of a message after the cut, and the bytes a call puts on a stream.\<close>

definition cut_msg :: "u8 list \<Rightarrow> u8 list" where
  "cut_msg m = (if length m < 119 then m else take 119 m @ [46, 46, 46])"

definition entry_out :: "int \<Rightarrow> u64 \<Rightarrow> int \<Rightarrow> u8 list \<Rightarrow> u8 list" where
  "entry_out lv t level m =
     (if level < lv then [] else log_line t (bytes ''#i*!'' ! nat level) (cut_msg m))"

definition out_of :: "int \<Rightarrow> (u64 \<times> u64 \<times> int \<times> u8 list) list \<Rightarrow> u8 list" where
  "out_of lv es = concat (map (\<lambda>(t1, t2, level, m). entry_out lv t1 level m) es)"

definition file_of :: "int \<Rightarrow> (u64 \<times> u64 \<times> int \<times> u8 list) list \<Rightarrow> u8 list" where
  "file_of lv es = concat (map (\<lambda>(t1, t2, level, m). entry_out lv t2 level m) es)"

definition entries_ok :: "(u64 \<times> u64 \<times> int \<times> u8 list) list \<Rightarrow> bool" where
  "entries_ok es \<longleftrightarrow> list_all (\<lambda>(t1, t2, level, m). 0 \<le> level \<and> level \<le> 3 \<and> zero_free m) es"

lemma entries_ok_simps [simp]:
  "entries_ok []" "entries_ok ((t1, t2, level, m) # es) \<longleftrightarrow> 0 \<le> level \<and> level \<le> 3 \<and> zero_free m \<and> entries_ok es"
  by (auto simp: entries_ok_def)

lemma out_of_simps [simp]:
  "out_of l [] = []" "out_of l ((t1, t2, level, m) # es) = entry_out l t1 level m @ out_of l es"
  "file_of l [] = []" "file_of l ((t1, t2, level, m) # es) = entry_out l t2 level m @ file_of l es"
  by (simp_all add: out_of_def file_of_def)

lemma log_mark_level: "0 \<le> level \<Longrightarrow> level \<le> 3 \<Longrightarrow> log_mark level = Inr (bytes ''#i*!'' ! nat level)"
proof -
  assume "0 \<le> level" "level \<le> 3"
  moreover from this have "nat level < length (bytes ''#i*!'')" by (simp add: bytes_def)
  ultimately show ?thesis by (simp add: log_mark_def nth_append)
qed

lemma sol_log_cases:
  assumes "0 \<le> level" "level \<le> 3" "zero_free m" "lg_fh L \<noteq> Fh_closed"
  shows "sol_log lv t1 t2 level m L = Inr (if level < lv then L else
    (case lg_fh L of Fh_open f \<Rightarrow> append_file f (entry_out lv t2 level m) | _ \<Rightarrow> id)
      (print_out (entry_out lv t1 level m) L))"
  using assms
  by (auto simp: sol_log_def log_text_cut log_mark_level entry_out_def cut_msg_def print_out_def Let_def split: stream.splits)

lemma append_file_append: "append_file f (a @ b) L = append_file f b (append_file f a L)"
  by (simp add: append_file_def)

text \<open>With an open file every printed line goes to both streams; with none only to the standard output.\<close>

lemma log_all_open:
  "entries_ok es \<Longrightarrow> lg_fh L = Fh_open f \<Longrightarrow> lg_files L f = Some old \<Longrightarrow>
   log_all lv es L = Inr (L\<lparr>lg_files := (lg_files L)(f \<mapsto> old @ file_of lv es),
     lg_stdout := lg_stdout L @ out_of lv es\<rparr>)"
proof (induction es arbitrary: L old)
  case Nil
  then show ?case by (simp add: fun_upd_idem)
next
  case (Cons e es)
  obtain t1 t2 level m where e: "e = (t1, t2, level, m)" by (metis prod_cases4)
  show ?case
  proof (cases "level < lv")
    case True
    then show ?thesis using Cons e by (simp add: sol_log_cases entry_out_def)
  next
    case False
    then show ?thesis using Cons e
      by (simp add: sol_log_cases append_file_def print_out_def) (cases L, auto simp: fun_eq_iff)
  qed
qed

lemma log_all_null:
  "entries_ok es \<Longrightarrow> lg_fh L = Fh_null \<Longrightarrow>
   log_all lv es L = Inr (print_out (out_of lv es) L)"
proof (induction es arbitrary: L)
  case Nil
  then show ?case by (simp add: print_out_def)
next
  case (Cons e es)
  obtain t1 t2 level m where e: "e = (t1, t2, level, m)" by (metis prod_cases4)
  show ?case
  proof (cases "level < lv")
    case True
    then show ?thesis using Cons e by (simp add: sol_log_cases entry_out_def print_out_def)
  next
    case False
    then show ?thesis using Cons e by (simp add: sol_log_cases print_out_def)
  qed
qed

section \<open>Properties\<close>

text \<open>
  C38 (log_session): a log opened, written to and closed. When the file can be opened, the messages at or above the configured level, each cut to 119 characters and three dots
  when it is longer than 118, with time and level mark, are appended to what the file held before, in order, and printed on the standard output; no other file changes.
  When it cannot be opened, one warning is printed and the messages go to the standard output alone. Nothing is read or written out of bounds. But the stream is not
  reset by closing: a message at the level or above afterwards, or a second close, uses the closed stream.
\<close>

theorem log_session:
  assumes "entries_ok es" and "zero_free f" and "lv \<le> level" and "0 \<le> level" and "level \<le> 3" and "zero_free m"
  shows "\<exists>L'. rbind (rbind (sol_log_init can_open now (Some f) L) (log_all lv es)) sol_log_close = Inr L' \<and>
    (if can_open f then
       lg_files L' = (lg_files L)(f \<mapsto> (case lg_files L f of None \<Rightarrow> [] | Some old \<Rightarrow> old) @ file_of lv es)
       \<and> lg_stdout L' = lg_stdout L @ out_of lv es
       \<and> sol_log lv t1 t2 level m L' = Inl Use_after_free \<and> sol_log_close L' = Inl Use_after_free
     else
       lg_files L' = lg_files L
       \<and> lg_stdout L' = lg_stdout L @ dec_digits (unat now) @ bytes '' * WARNING: Unable to open file '' @ f @ [10] @ out_of lv es)"
proof (cases "can_open f")
  case True
  let ?old = "case lg_files L f of None \<Rightarrow> [] | Some old \<Rightarrow> old"
  have "log_all lv es (append_file f [] (L\<lparr>lg_fh := Fh_open f\<rparr>)) = Inr (L\<lparr>lg_fh := Fh_open f,
      lg_files := (lg_files L)(f \<mapsto> ?old @ file_of lv es), lg_stdout := lg_stdout L @ out_of lv es\<rparr>)"
    using log_all_open [OF assms(1), of "append_file f [] (L\<lparr>lg_fh := Fh_open f\<rparr>)" f ?old lv]
    by (auto simp: append_file_def)
  then show ?thesis using True assms(3-)
    by (simp add: sol_log_init_def sol_log_close_def sol_log_def log_text_cut log_mark_level print_out_def)
next
  case False
  then show ?thesis using assms(1) by (simp add: sol_log_init_def sol_log_close_def log_all_null print_out_def)
qed

theorem log_session_witness:
  "\<exists>L'. rbind (rbind (sol_log_init (\<lambda>_. True) 5 (Some [108]) \<lparr>lg_fh = Fh_null, lg_files = [[108] \<mapsto> [120, 10]], lg_stdout = []\<rparr>)
      (log_all 2 [(7, 8, 1, [97]), (7, 8, 3, [104, 105])])) sol_log_close = Inr L'
    \<and> lg_files L' [108] = Some [120, 10, 56, 32, 33, 32, 104, 105, 10] \<and> lg_stdout L' = [55, 32, 33, 32, 104, 105, 10]"
proof -
  let ?es = "[(7, 8, 1, [97]), (7, 8, 3, [104, 105])] :: (u64 \<times> u64 \<times> int \<times> u8 list) list"
  let ?L = "\<lparr>lg_fh = Fh_null, lg_files = [[108] \<mapsto> [120, 10]], lg_stdout = []\<rparr>"
  have o: "file_of 2 ?es = [56, 32, 33, 32, 104, 105, 10]" "out_of 2 ?es = [55, 32, 33, 32, 104, 105, 10]" by code_simp+
  from log_session [of ?es "[108]" 2 2 "[]" "\<lambda>_. True" 5 ?L 0 0] obtain L' where
    "rbind (rbind (sol_log_init (\<lambda>_. True) 5 (Some [108]) ?L) (log_all 2 ?es)) sol_log_close = Inr L'"
    "lg_files L' = (lg_files ?L)([108] \<mapsto> [120, 10] @ file_of 2 ?es)" "lg_stdout L' = lg_stdout ?L @ out_of 2 ?es"
    by (auto simp del: out_of_simps)
  then show ?thesis unfolding o by (intro exI [of _ L']) (simp del: rbind_eq_Inr)
qed

text \<open>The summary of the configuration is logged line by line when the level is below a warning, and not at all otherwise.\<close>

lemma config_print_logged:
  assumes "lg_fh L = Fh_open f" "lg_files L f = Some old" "config_print c = Inr ls" "list_all zero_free ls"
  shows "config_print_log t c L = Inr (L\<lparr>
    lg_files := (lg_files L)(f \<mapsto> old @ concat (map (entry_out (loglevel c) t INFORMATION) ls)),
    lg_stdout := lg_stdout L @ concat (map (entry_out (loglevel c) t INFORMATION) ls)\<rparr>)"
proof -
  have "entries_ok (map (\<lambda>m. (t, t, INFORMATION, m)) ls)" using assms(4) by (induction ls) auto
  then show ?thesis using assms by (simp add: config_print_log_def log_all_open file_of_def out_of_def comp_def)
qed

section \<open>Identifiers\<close>

text \<open>
  \<^verbatim>\<open>uuid_unparse\<close> is documented to write 36 characters and a zero, which \<^verbatim>\<open>char closure_id[UUID_LEN]\<close> holds exactly.
\<close>

lemma generate_uuid_fits:
  assumes "length (unparse (fst (gen r))) = 36" "length placeholder = UUID_LEN"
  shows "generate_uuid gen unparse placeholder r = Inr (0, cstr (unparse (fst (gen r))), snd (gen r))"
  using assms by (simp add: generate_uuid_def case_prod_unfold Let_def)

end
